(* ===== verification/Prelude.thy ===== *)
theory Prelude
  imports Main "HOL-Library.Multiset" "HOL-Library.Word" "HOL-Library.Sublist"
    "HOL-Library.List_Lexorder" "HOL-Library.Char_ord"
begin

text \<open>
  The vocabulary every component shares: the values a Go call can end with (a result, an
  \<open>error\<close> value, a panic), Go maps with string keys, contexts, and the list lemmas that
  more than one component needs.
\<close>

section \<open>Fact collections\<close>

named_theorems go_map \<comment> \<open>laws of the map operations\<close>
named_theorems wire \<comment> \<open>encoding a value and decoding it gives the value back\<close>

section \<open>Errors, panics and contexts\<close>

text \<open>
  The \<open>error\<close> values of the program. The first block is \<open>internal/domain/errors.go\<close>: each
  sentinel is a constructor of its own, so that \<open>err == domain.ErrGPUNotFound\<close> is equality.
  The second block names the sentinels of the packages the program compares with, and the
  third the two ways the program builds an error (\<open>fmt.Errorf\<close>, with and without \<open>%w\<close>) and
  an error that comes from outside.
\<close>

datatype error =
    ErrNotFound
  | ErrAlreadyExists
  | ErrInvalidInput
  | ErrInternalError
  | ErrUnauthorized
  | ErrForbidden
  | ErrValidationFailed
  | ErrDatabaseError
  | ErrQueueError
  | ErrParsingError
  | ErrGPUNotFound
  | EOF
  | RedisNil
  | ErrNoDocuments
  | Canceled
  | DeadlineExceeded
  | Errorf string
  | Wrapf string error
  | External string

text \<open>\<open>Error()\<close>: what \<open>%v\<close> and \<open>%w\<close> print of an error.\<close>

fun error_text :: "error \<Rightarrow> string" where
  "error_text ErrNotFound = ''resource not found''"
| "error_text ErrAlreadyExists = ''resource already exists''"
| "error_text ErrInvalidInput = ''invalid input''"
| "error_text ErrInternalError = ''internal error''"
| "error_text ErrUnauthorized = ''unauthorized''"
| "error_text ErrForbidden = ''forbidden''"
| "error_text ErrValidationFailed = ''validation failed''"
| "error_text ErrDatabaseError = ''database error''"
| "error_text ErrQueueError = ''queue error''"
| "error_text ErrParsingError = ''parsing error''"
| "error_text ErrGPUNotFound = ''GPU not found''"
| "error_text EOF = ''EOF''"
| "error_text RedisNil = ''redis: nil''"
| "error_text ErrNoDocuments = ''mongo: no documents in result''"
| "error_text Canceled = ''context canceled''"
| "error_text DeadlineExceeded = ''context deadline exceeded''"
| "error_text (Errorf s) = s"
| "error_text (Wrapf s e) = s @ '': '' @ error_text e"
| "error_text (External s) = s"

text \<open>The run-time panics the program can raise.\<close>

datatype panic = NilDereference | NilMapWrite | MakesliceOutOfRange | SendOnClosedChannel

datatype 'a outcome = Returns 'a | Panics panic

text \<open>A context is \<open>None\<close> while it is live and the value of its \<open>Err()\<close> once it is done.\<close>

type_synonym ctx = "error option"

text \<open>The counters of the program are \<open>atomic.Int64\<close>; they wrap around.\<close>

type_synonym int64 = "64 word"

section \<open>Maps with string keys\<close>

text \<open>
  A Go map with ordered keys is an association list sorted by key, so two maps with the same
  entries are the same value. A nil map is a separate value where the code can tell the two
  apart (\<open>None\<close> of an option).
\<close>

type_synonym 'v gomap = "(string \<times> 'v) list"

fun map_put :: "'k::linorder \<Rightarrow> 'v \<Rightarrow> ('k \<times> 'v) list \<Rightarrow> ('k \<times> 'v) list" where
  "map_put k v [] = [(k, v)]"
| "map_put k v ((k', v') # xs) =
     (if k < k' then (k, v) # (k', v') # xs
      else if k = k' then (k, v) # xs
      else (k', v') # map_put k v xs)"

definition map_del :: "'k \<Rightarrow> ('k \<times> 'v) list \<Rightarrow> ('k \<times> 'v) list" where
  "map_del k xs = filter (\<lambda>(k', v). k' \<noteq> k) xs"

definition map_ok :: "('k::linorder \<times> 'v) list \<Rightarrow> bool" where
  "map_ok xs = sorted_wrt (<) (map fst xs)"

lemma map_ok_Nil [simp]: "map_ok []"
  by (simp add: map_ok_def)

lemma map_ok_Cons: "map_ok ((k, v) # xs) \<longleftrightarrow> (\<forall>k' \<in> fst ` set xs. k < k') \<and> map_ok xs"
  by (simp add: map_ok_def)

lemma map_of_put [simp, go_map]: "map_of (map_put k v xs) = (map_of xs)(k \<mapsto> v)"
  by (induction k v xs rule: map_put.induct) auto

lemma keys_put [go_map]: "fst ` set (map_put k v xs) = insert k (fst ` set xs)"
  by (induction k v xs rule: map_put.induct) auto

lemma map_ok_put [simp, go_map]: "map_ok xs \<Longrightarrow> map_ok (map_put k v xs)"
  by (induction k v xs rule: map_put.induct) (auto simp: map_ok_Cons keys_put dest: less_trans)

lemma map_of_del [simp, go_map]: "map_of (map_del k xs) = (map_of xs)(k := None)"
  by (induction xs) (auto simp: map_del_def fun_eq_iff)

lemma map_ok_del [simp, go_map]: "map_ok xs \<Longrightarrow> map_ok (map_del k xs)"
  by (auto simp: map_ok_def map_del_def sorted_wrt_map intro: sorted_wrt_filter)

lemma map_put_last [go_map]:
  "\<forall>k' \<in> fst ` set xs. k' < k \<Longrightarrow> map_put k v xs = xs @ [(k, v)]"
  by (induction k v xs rule: map_put.induct) auto

text \<open>Putting the entries of a sorted map one after the other rebuilds the map.\<close>

lemma map_put_rebuild:
  assumes "map_ok (ys @ xs)"
  shows "fold (\<lambda>(k, v). map_put k (f v)) xs (map (apsnd f) ys) = map (apsnd f) (ys @ xs)"
  using assms
proof (induction xs arbitrary: ys)
  case Nil
  then show ?case by simp
next
  case (Cons x xs)
  obtain k v where x: "x = (k, v)" by (cases x)
  from Cons.prems have below: "\<forall>k' \<in> fst ` set ys. k' < k"
    by (auto simp: map_ok_def sorted_wrt_append x)
  have "map_ok ((ys @ [(k, v)]) @ xs)" using Cons.prems by (simp add: x)
  from Cons.IH [OF this] show ?case
    using below by (simp add: x map_put_last image_image)
qed

section \<open>Lists\<close>

lemma sum_list_take_le:
  "(\<And>x. x \<in> set xs \<Longrightarrow> (0::int) \<le> x) \<Longrightarrow> sum_list (take i xs) \<le> sum_list xs"
  by (induction xs arbitrary: i) (auto simp: take_Cons sum_list_nonneg split: nat.splits)

end
