(* ===== verification/GoText.thy ===== *)
theory GoText
  imports Prelude
begin

text \<open>
  The text functions of Go's standard library that the program calls: \<open>strings.TrimSpace\<close> and
  its prefix and suffix tests, \<open>strconv.Itoa\<close>/\<open>%d\<close>, \<open>strconv.Atoi\<close>, \<open>strconv.ParseBool\<close>
  and \<open>fmt.Sscanf("%d")\<close>. A Go string is its list of bytes.
\<close>

section \<open>strings\<close>

definition HasPrefix :: "string \<Rightarrow> string \<Rightarrow> bool" where
  "HasPrefix s p = (take (length p) s = p)"

definition TrimPrefix :: "string \<Rightarrow> string \<Rightarrow> string" where
  "TrimPrefix s p = (if HasPrefix s p then drop (length p) s else s)"

definition HasSuffix :: "string \<Rightarrow> string \<Rightarrow> bool" where
  "HasSuffix s p = (length p \<le> length s \<and> drop (length s - length p) s = p)"

definition TrimSuffix :: "string \<Rightarrow> string \<Rightarrow> string" where
  "TrimSuffix s p = (if HasSuffix s p then take (length s - length p) s else s)"

text \<open>The UTF-8 encodings of the code points that \<open>unicode.IsSpace\<close> accepts.\<close>

definition space_runes :: "string list" where
  "space_runes =
     [[CHR 0x09], [CHR 0x0A], [CHR 0x0B], [CHR 0x0C], [CHR 0x0D], [CHR 0x20],
      [CHR 0xC2, CHR 0x85], [CHR 0xC2, CHR 0xA0], [CHR 0xE1, CHR 0x9A, CHR 0x80]]
     @ map (\<lambda>b. [CHR 0xE2, CHR 0x80, b])
        [CHR 0x80, CHR 0x81, CHR 0x82, CHR 0x83, CHR 0x84, CHR 0x85, CHR 0x86, CHR 0x87,
         CHR 0x88, CHR 0x89, CHR 0x8A, CHR 0xA8, CHR 0xA9, CHR 0xAF]
     @ [[CHR 0xE2, CHR 0x81, CHR 0x9F], [CHR 0xE3, CHR 0x80, CHR 0x80]]"

lemma space_runes_nonempty: "p \<in> set space_runes \<Longrightarrow> p \<noteq> []"
  by (auto simp: space_runes_def)

definition leading :: "string list \<Rightarrow> string \<Rightarrow> nat" where
  "leading ps s = (case find (HasPrefix s) ps of None \<Rightarrow> 0 | Some p \<Rightarrow> length p)"

definition trailing_space :: "string \<Rightarrow> nat" where
  "trailing_space s = (case find (HasSuffix s) space_runes of None \<Rightarrow> 0 | Some p \<Rightarrow> length p)"

lemma leading_le: "leading ps s \<le> length s"
proof (cases "find (HasPrefix s) ps")
  case (Some p)
  then have "take (length p) s = p" by (auto simp: find_Some_iff HasPrefix_def)
  then have "length p \<le> length s" by (metis length_take min.cobounded1)
  with Some show ?thesis by (simp add: leading_def)
qed (simp add: leading_def)

lemma trailing_space_le: "trailing_space s \<le> length s"
proof (cases "find (HasSuffix s) space_runes")
  case (Some p)
  then have "length p \<le> length s" by (auto simp: find_Some_iff HasSuffix_def)
  with Some show ?thesis by (simp add: trailing_space_def)
qed (simp add: trailing_space_def)

function strip_left :: "string list \<Rightarrow> string \<Rightarrow> string" where
  "strip_left ps s = (if leading ps s = 0 then s else strip_left ps (drop (leading ps s) s))"
  by pat_completeness auto
termination
proof (relation "measure (length \<circ> snd)")
  fix ps :: "string list" and s :: string
  assume "leading ps s \<noteq> 0"
  then show "((ps, drop (leading ps s) s), ps, s) \<in> measure (length \<circ> snd)"
    using leading_le [of ps s] by simp
qed simp

function trim_right :: "string \<Rightarrow> string" where
  "trim_right s =
     (if trailing_space s = 0 then s else trim_right (take (length s - trailing_space s) s))"
  by pat_completeness auto
termination
proof (relation "measure length")
  fix s :: string
  assume "trailing_space s \<noteq> 0"
  then show "(take (length s - trailing_space s) s, s) \<in> measure length"
    using trailing_space_le [of s] by simp
qed simp

declare strip_left.simps [simp del] trim_right.simps [simp del]

definition TrimSpace :: "string \<Rightarrow> string" where
  "TrimSpace s = trim_right (strip_left space_runes s)"

lemma strip_left_idle: "leading ps s = 0 \<Longrightarrow> strip_left ps s = s"
  by (subst strip_left.simps) simp

lemma trim_right_idle: "trailing_space s = 0 \<Longrightarrow> trim_right s = s"
  by (subst trim_right.simps) simp

lemma strip_left_done: "leading ps (strip_left ps s) = 0"
  by (induction ps s rule: strip_left.induct) (subst strip_left.simps, auto)

lemma trim_right_done: "trailing_space (trim_right s) = 0"
  by (induction s rule: trim_right.induct) (subst trim_right.simps, auto)

lemma trim_right_prefix: "\<exists>n. trim_right s = take n s"
proof (induction s rule: trim_right.induct)
  case (1 s)
  show ?case
  proof (cases "trailing_space s = 0")
    case True
    then show ?thesis by (metis trim_right_idle order_refl take_all)
  next
    case False
    then obtain n where "trim_right (take (length s - trailing_space s) s)
        = take n (take (length s - trailing_space s) s)" using 1 by blast
    with False show ?thesis by (subst trim_right.simps) (auto simp: min_def)
  qed
qed

lemma leading_take:
  "leading space_runes s = 0 \<Longrightarrow> leading space_runes (take n s) = 0"
proof -
  assume z: "leading space_runes s = 0"
  have "find (HasPrefix s) space_runes = None"
  proof (cases "find (HasPrefix s) space_runes")
    case (Some p)
    then have "p \<in> set space_runes" by (auto simp: find_Some_iff)
    then have "p \<noteq> []" by (rule space_runes_nonempty)
    with Some z show ?thesis by (simp add: leading_def)
  qed simp
  then have none: "\<not> HasPrefix s p" if "p \<in> set space_runes" for p
    using that by (auto simp: find_None_iff)
  have "\<not> HasPrefix (take n s) p" if "p \<in> set space_runes" for p
  proof
    assume "HasPrefix (take n s) p"
    then have eq: "take (length p) (take n s) = p" by (simp add: HasPrefix_def)
    then have "length p \<le> n" by (metis length_take min.bounded_iff min.cobounded1 take_take)
    with eq have "HasPrefix s p" by (simp add: HasPrefix_def min_def split: if_splits)
    with none that show False by blast
  qed
  then have "find (HasPrefix (take n s)) space_runes = None" by (auto simp: find_None_iff)
  then show ?thesis by (simp add: leading_def)
qed

text \<open>Trimming twice is trimming once.\<close>

lemma TrimSpace_idem [simp]: "TrimSpace (TrimSpace s) = TrimSpace s"
proof -
  let ?l = "strip_left space_runes s"
  obtain n where n: "trim_right ?l = take n ?l" using trim_right_prefix by blast
  have "leading space_runes (TrimSpace s) = 0"
    unfolding TrimSpace_def n by (rule leading_take) (rule strip_left_done)
  then have "strip_left space_runes (TrimSpace s) = TrimSpace s" by (rule strip_left_idle)
  moreover have "trailing_space (TrimSpace s) = 0"
    unfolding TrimSpace_def by (rule trim_right_done)
  ultimately show ?thesis by (simp add: TrimSpace_def trim_right_idle)
qed

section \<open>strconv\<close>

text \<open>Decimal digits of a number, most significant first.\<close>

definition digit :: "nat \<Rightarrow> char" where
  "digit n = char_of (48 + n)"

definition is_digit :: "char \<Rightarrow> bool" where
  "is_digit c = (48 \<le> (of_char c :: nat) \<and> (of_char c :: nat) \<le> 57)"

definition digit_val :: "char \<Rightarrow> int" where
  "digit_val c = int (of_char c :: nat) - 48"

fun nat_digits :: "nat \<Rightarrow> string" where
  "nat_digits n = (if n < 10 then [digit n] else nat_digits (n div 10) @ [digit (n mod 10)])"

declare nat_digits.simps [simp del]

definition digits_val :: "string \<Rightarrow> int" where
  "digits_val s = foldl (\<lambda>v c. 10 * v + digit_val c) 0 s"

lemma is_digit_digit [simp]: "n < 10 \<Longrightarrow> is_digit (digit n)"
  by (simp add: is_digit_def digit_def)

lemma digit_val_digit [simp]: "n < 10 \<Longrightarrow> digit_val (digit n) = int n"
  by (simp add: digit_val_def digit_def)

lemma nat_digits_nonempty [simp]: "nat_digits n \<noteq> []"
  by (subst nat_digits.simps) simp

lemma nat_digits_all [simp]: "list_all is_digit (nat_digits n)"
  by (induction n rule: nat_digits.induct) (subst nat_digits.simps, auto)

lemma digits_val_snoc: "digits_val (s @ [c]) = 10 * digits_val s + digit_val c"
  by (simp add: digits_val_def)

lemma digits_val_nat_digits [simp, wire]: "digits_val (nat_digits n) = int n"
proof (induction n rule: nat_digits.induct)
  case (1 n)
  show ?case
  proof (cases "n < 10")
    case True
    then show ?thesis by (subst nat_digits.simps) (simp add: digits_val_def)
  next
    case False
    with 1 have "digits_val (nat_digits (n div 10)) = int (n div 10)" by simp
    with False show ?thesis
      by (subst nat_digits.simps) (simp add: digits_val_snoc zdiv_int zmod_int)
  qed
qed

lemma nat_digits_hd: "is_digit (hd (nat_digits n))"
  using nat_digits_all [of n] by (cases "nat_digits n") auto

text \<open>\<open>%d\<close> and \<open>strconv.Itoa\<close>.\<close>

definition Itoa :: "int \<Rightarrow> string" where
  "Itoa i = (if i < 0 then CHR ''-'' # nat_digits (nat (- i)) else nat_digits (nat i))"

definition int64_range :: "int \<Rightarrow> bool" where
  "int64_range i \<longleftrightarrow> - (2 ^ 63) \<le> i \<and> i < 2 ^ 63"

text \<open>\<open>strconv.Atoi\<close>: an optional sign, then decimal digits only, in the range of \<open>int\<close>.\<close>

definition parse_digits :: "string \<Rightarrow> int option" where
  "parse_digits s = (if s \<noteq> [] \<and> list_all is_digit s then Some (digits_val s) else None)"

definition range_checked :: "int \<Rightarrow> int option" where
  "range_checked i = (if int64_range i then Some i else None)"

fun Atoi :: "string \<Rightarrow> int option" where
  "Atoi [] = None"
| "Atoi (c # cs) =
     (if c = CHR ''-'' then Option.bind (parse_digits cs) (\<lambda>v. range_checked (- v))
      else if c = CHR ''+'' then Option.bind (parse_digits cs) range_checked
      else Option.bind (parse_digits (c # cs)) range_checked)"

lemma digit_not_sign: "is_digit c \<Longrightarrow> c \<noteq> CHR ''-'' \<and> c \<noteq> CHR ''+''"
  by (auto simp: is_digit_def)

lemma parse_digits_nat [simp]: "parse_digits (nat_digits n) = Some (int n)"
  by (simp add: parse_digits_def)

lemma Atoi_nat_digits: "int64_range (int n) \<Longrightarrow> Atoi (nat_digits n) = Some (int n)"
proof -
  assume r: "int64_range (int n)"
  obtain c cs where c: "nat_digits n = c # cs" by (cases "nat_digits n") auto
  have "is_digit c" using nat_digits_hd [of n] by (simp add: c)
  then show ?thesis
    using r digit_not_sign [of c] parse_digits_nat [of n]
    by (simp add: c range_checked_def)
qed

lemma Atoi_Itoa [simp, wire]: "int64_range i \<Longrightarrow> Atoi (Itoa i) = Some i"
  using Atoi_nat_digits [of "nat i"] by (auto simp: Itoa_def range_checked_def)

text \<open>\<open>strconv.ParseBool\<close>.\<close>

definition ParseBool :: "string \<Rightarrow> bool option" where
  "ParseBool s =
     (if s \<in> set [''1'', ''t'', ''T'', ''TRUE'', ''true'', ''True''] then Some True
      else if s \<in> set [''0'', ''f'', ''F'', ''FALSE'', ''false'', ''False''] then Some False
      else None)"

section \<open>fmt.Sscanf with the verb d\<close>

text \<open>
  Leading blanks are skipped (a newline is an error), one sign is taken, then the longest run
  of decimal digits, which has to be in the range of \<open>int\<close>; what follows it is not looked at.
\<close>

definition scan_blanks :: "string list" where
  "scan_blanks = filter (\<lambda>p. p \<noteq> [CHR 0x0A]) space_runes"

definition Sscanf_d :: "string \<Rightarrow> int option" where
  "Sscanf_d s =
     (let s1 = strip_left scan_blanks s;
          signed = (s1 \<noteq> [] \<and> hd s1 \<in> {CHR ''+'', CHR ''-''});
          tok = takeWhile is_digit (if signed then tl s1 else s1)
      in Option.bind (parse_digits tok)
           (\<lambda>v. range_checked (if signed \<and> hd s1 = CHR ''-'' then - v else v)))"

lemma digit_not_blank: "is_digit c \<Longrightarrow> leading scan_blanks (c # cs) = 0"
proof -
  assume d: "is_digit c"
  have "\<not> HasPrefix (c # cs) p" if "p \<in> set scan_blanks" for p
    using that d by (auto simp: scan_blanks_def space_runes_def HasPrefix_def is_digit_def)
  then have "find (HasPrefix (c # cs)) scan_blanks = None" by (auto simp: find_None_iff)
  then show ?thesis by (simp add: leading_def)
qed

text \<open>A decimal number is read back, whatever non-digit text follows it.\<close>

lemma Sscanf_d_digits:
  assumes "int64_range (int n)" and "rest = [] \<or> \<not> is_digit (hd rest)"
  shows "Sscanf_d (nat_digits n @ rest) = Some (int n)"
proof -
  obtain c cs where c: "nat_digits n = c # cs" by (cases "nat_digits n") auto
  have d: "is_digit c" using nat_digits_hd [of n] by (simp add: c)
  then have "strip_left scan_blanks (nat_digits n @ rest) = nat_digits n @ rest"
    by (simp add: c strip_left_idle digit_not_blank)
  moreover have "takeWhile is_digit (nat_digits n @ rest) = nat_digits n"
  proof -
    have all: "\<forall>x \<in> set (nat_digits n). is_digit x"
      using nat_digits_all [of n] by (simp add: list_all_iff)
    show ?thesis using assms(2) all by (cases rest) (auto simp: takeWhile_append)
  qed
  ultimately show ?thesis
    using assms(1) digit_not_sign [OF d] c parse_digits_nat [of n]
    by (auto simp: Sscanf_d_def Let_def range_checked_def)
qed

end
