(* ===== verification/GoTime.thy ===== *)
theory GoTime
  imports GoText
begin

text \<open>
  What the program uses of Go's package \<open>time\<close>: instants with a zone offset, durations in
  nanoseconds, the proleptic Gregorian calendar, and the RFC 3339 texts (\<open>time.RFC3339\<close>,
  \<open>time.RFC3339Nano\<close>) that the JSON encoding and the HTTP query parameters use.
\<close>

section \<open>Instants and durations\<close>

text \<open>
  An instant counts nanoseconds from 1970-01-01T00:00:00Z; the offset is that of its location,
  in seconds east of UTC, and matters only when the instant is printed. Durations are
  nanoseconds.
\<close>

record go_time =
  t_ns :: int
  t_off :: int

type_synonym duration = int

definition second :: duration where "second = 1000000000"
definition millisecond :: duration where "millisecond = 1000000"
definition minute :: duration where "minute = 60 * second"

text \<open>The zero \<open>Time\<close> is 0001-01-01T00:00:00Z.\<close>

definition zero_time :: go_time where
  "zero_time = \<lparr>t_ns = -62135596800 * second, t_off = 0\<rparr>"

definition IsZero :: "go_time \<Rightarrow> bool" where
  "IsZero t = (t_ns t = t_ns zero_time)"

definition Unix :: "go_time \<Rightarrow> int" where
  "Unix t = t_ns t div second"

definition time_Add :: "go_time \<Rightarrow> duration \<Rightarrow> go_time" where
  "time_Add t d = t\<lparr>t_ns := t_ns t + d\<rparr>"

definition After :: "go_time \<Rightarrow> go_time \<Rightarrow> bool" where
  "After t u = (t_ns t > t_ns u)"

lemma Unix_mono: "t_ns t \<le> t_ns u \<Longrightarrow> Unix t \<le> Unix u"
  by (simp add: Unix_def second_def zdiv_mono1)

section \<open>The calendar\<close>

definition leap_year :: "int \<Rightarrow> bool" where
  "leap_year y = (y mod 4 = 0 \<and> (y mod 100 \<noteq> 0 \<or> y mod 400 = 0))"

definition month_lengths :: "int \<Rightarrow> int list" where
  "month_lengths y =
     [31, if leap_year y then 29 else 28, 31, 30, 31, 30, 31, 31, 30, 31, 30, 31]"

text \<open>Days from 0001-01-01 to the first day of a year.\<close>

definition days_before_year :: "int \<Rightarrow> int" where
  "days_before_year y =
     365 * (y - 1) + (y - 1) div 4 - (y - 1) div 100 + (y - 1) div 400"

definition days_of_civil :: "int \<Rightarrow> int \<Rightarrow> int \<Rightarrow> int" where
  "days_of_civil y m d =
     days_before_year y + sum_list (take (nat (m - 1)) (month_lengths y)) + d - 1"

text \<open>The year of a day number and the day's position in that year.\<close>

definition year_of_days :: "int \<Rightarrow> int \<times> int" where
  "year_of_days n =
     (let a = n div 146097; r = n mod 146097;
          b = min 3 (r div 36524); r1 = r - 36524 * b;
          c = r1 div 1461; r2 = r1 mod 1461;
          d = min 3 (r2 div 365)
      in (400 * a + 100 * b + 4 * c + d + 1, r2 - 365 * d))"

text \<open>The month and the day of the month, walking down the month lengths.\<close>

fun locate :: "int \<Rightarrow> int list \<Rightarrow> int \<Rightarrow> int \<times> int" where
  "locate m [] k = (m, k + 1)"
| "locate m (l # ls) k = (if k < l then (m, k + 1) else locate (m + 1) ls (k - l))"

definition civil_of_days :: "int \<Rightarrow> int \<times> int \<times> int" where
  "civil_of_days n =
     (let (y, k) = year_of_days n; (m, d) = locate 1 (month_lengths y) k in (y, m, d))"

lemma year_of_days_correct:
  assumes "year_of_days n = (y, k)"
  shows "days_before_year y + k = n" and "0 \<le> k" and "k < 365 + (if leap_year y then 1 else 0)"
proof -
  define a r where "a = n div 146097" and "r = n mod 146097"
  define b where "b = min 3 (r div 36524)"
  define r1 where "r1 = r - 36524 * b"
  define c r2 where "c = r1 div 1461" and "r2 = r1 mod 1461"
  define d where "d = min 3 (r2 div 365)"
  have y: "y = 400 * a + 100 * b + 4 * c + d + 1" and k: "k = r2 - 365 * d"
    using assms unfolding year_of_days_def Let_def
    by (simp_all only: prod.inject flip: a_def r_def b_def r1_def c_def r2_def d_def)
  have r: "0 \<le> r" "r < 146097" "n = 146097 * a + r" by (simp_all add: r_def a_def)
  have b: "0 \<le> b" "b \<le> 3" "36524 * b \<le> r" "b < 3 \<longrightarrow> r < 36524 * b + 36524"
    using r by (auto simp: b_def min_def)
  have r1: "0 \<le> r1" "r1 \<le> 36524" "b < 3 \<longrightarrow> r1 < 36524" using b r by (auto simp: r1_def)
  have c: "0 \<le> c" "c \<le> 24" "r1 = 1461 * c + r2" "0 \<le> r2" "r2 < 1461"
    using r1 by (auto simp: c_def r2_def)
  have d: "0 \<le> d" "d \<le> 3" "365 * d \<le> r2" "d < 3 \<longrightarrow> r2 < 365 * d + 365"
    using c by (auto simp: d_def min_def)
  show "0 \<le> k" using d k by simp
  have q4: "(y - 1) div 4 = 100 * a + 25 * b + c" using d(1,2) by (simp add: y)
  have q100: "(y - 1) div 100 = 4 * a + b" using c(1,2) d(1,2) by (simp add: y)
  have q400: "(y - 1) div 400 = a" using b(1,2) c(1,2) d(1,2) by (simp add: y)
  show "days_before_year y + k = n"
    unfolding days_before_year_def q4 q100 q400 using r c k by (simp add: y r1_def)
  show "k < 365 + (if leap_year y then 1 else 0)"
  proof (cases "d = 3")
    case False
    then show ?thesis using d k by auto
  next
    case True
    show ?thesis
    proof (cases "c = 24 \<and> b < 3")
      case True
      then have "r2 < 1460" using c(3) r1(3) by simp
      then show ?thesis using \<open>d = 3\<close> k by simp
    next
      case False
      have "y mod 4 = 0" using \<open>d = 3\<close> by (simp add: y)
      moreover have "y mod 100 \<noteq> 0 \<or> y mod 400 = 0"
      proof (cases "c = 24")
        case True
        then have "y = 400 * (a + 1)" using False \<open>d = 3\<close> b(2) by (simp add: y)
        then show ?thesis by simp
      next
        case False
        have "y = 100 * (4 * a + b) + (4 * c + 4)" using \<open>d = 3\<close> by (simp add: y)
        then have "y mod 100 = 4 * c + 4" 
            using False c(1,2) by (intro int_mod_pos_eq [where q = "4 * a + b"]) auto
        then show ?thesis using c by simp
      qed
      ultimately have "leap_year y" by (simp add: leap_year_def)
      then show ?thesis using \<open>d = 3\<close> k c by simp
    qed
  qed
qed

lemma locate_correct:
  assumes "0 \<le> k" and "k < sum_list ls"
  shows "\<exists>i < length ls. fst (locate m ls k) = m + int i
     \<and> sum_list (take i ls) + snd (locate m ls k) - 1 = k
     \<and> 1 \<le> snd (locate m ls k) \<and> snd (locate m ls k) \<le> ls ! i"
  using assms
proof (induction ls arbitrary: m k)
  case Nil
  then show ?case by simp
next
  case (Cons l ls)
  show ?case
  proof (cases "k < l")
    case True
    with Cons.prems show ?thesis by (intro exI [of _ 0]) simp
  next
    case False
    with Cons.prems obtain i where "i < length ls" "fst (locate (m + 1) ls (k - l)) = m + 1 + int i"
      "sum_list (take i ls) + snd (locate (m + 1) ls (k - l)) - 1 = k - l"
      "1 \<le> snd (locate (m + 1) ls (k - l))" "snd (locate (m + 1) ls (k - l)) \<le> ls ! i"
      using Cons.IH [of "k - l" "m + 1"] by auto
    with False show ?thesis by (intro exI [of _ "Suc i"]) simp
  qed
qed

definition valid_date :: "int \<Rightarrow> int \<Rightarrow> int \<Rightarrow> bool" where
  "valid_date y m d \<longleftrightarrow> 1 \<le> m \<and> m \<le> 12 \<and> 1 \<le> d \<and> d \<le> month_lengths y ! nat (m - 1)"

lemma civil_of_days_correct [wire]:
  assumes "civil_of_days n = (y, m, d)"
  shows "days_of_civil y m d = n \<and> valid_date y m d"
proof -
  obtain k where k: "year_of_days n = (y, k)"
    using assms by (auto simp: civil_of_days_def split: prod.splits)
  have md: "locate 1 (month_lengths y) k = (m, d)"
    using assms k by (auto simp: civil_of_days_def split: prod.splits)
  note yk = year_of_days_correct [OF k]
  have "k < sum_list (month_lengths y)" using yk(3) by (auto simp: month_lengths_def)
  from locate_correct [OF yk(2) this, of 1] md obtain i where
    i: "i < 12" "m = 1 + int i" "sum_list (take i (month_lengths y)) + d - 1 = k"
       "1 \<le> d" "d \<le> month_lengths y ! i"
    by (auto simp: month_lengths_def)
  then show ?thesis using yk(1) by (simp add: days_of_civil_def valid_date_def)
qed

text \<open>The year of a day number is in the range the day number says.\<close>

lemma div_100_diff: "x \<le> x' \<Longrightarrow> x' div 100 - x div 100 \<le> x' - x" for x x' :: int
proof (cases "x = x'")
  case False
  assume "x \<le> x'"
  have "100 * (x' div 100) \<le> x'" "x < 100 * (x div 100) + 100" by simp_all
  with False \<open>x \<le> x'\<close> show ?thesis by linarith
qed simp

lemma days_before_year_mono: "y \<le> y' \<Longrightarrow> days_before_year y \<le> days_before_year y'"
proof -
  assume le: "y \<le> y'"
  have q: "(y - 1) div 4 \<le> (y' - 1) div 4" "(y - 1) div 400 \<le> (y' - 1) div 400"
    by (rule zdiv_mono1; use le in linarith)+
  have q100: "(y' - 1) div 100 - (y - 1) div 100 \<le> (y' - 1) - (y - 1)"
    by (rule div_100_diff) (use le in linarith)
  have sum: "365 * (y - 1) + p - q + r \<le> 365 * (y' - 1) + p' - q' + r'"
    if "p \<le> p'" "r \<le> r'" "q' - q \<le> (y' - 1) - (y - 1)" for p q r p' q' r' :: int
  proof -
    have "q' - q \<le> y' - y" using that(3) by simp
    with that(1,2) le show ?thesis by (simp add: algebra_simps)
  qed
  show ?thesis unfolding days_before_year_def by (rule sum [OF q q100])
qed

lemma div_step: "0 < n \<Longrightarrow> y div n = (y - 1) div n + (if y mod n = 0 then 1 else 0)" for y n :: int
proof -
  assume n: "0 < n"
  have y: "y = n * (y div n) + y mod n" by simp
  have r: "0 \<le> y mod n" "y mod n < n" using n by simp_all
  show ?thesis
  proof (cases "y mod n = 0")
    case True
    have "(y - 1) div n = y div n - 1"
      by (rule int_div_pos_eq [where r = "n - 1"]) (use y n True in \<open>auto simp: algebra_simps\<close>)
    with True show ?thesis by simp
  next
    case False
    have "(y - 1) div n = y div n"
      by (rule int_div_pos_eq [where r = "y mod n - 1"]) (use y r False in auto)
    with False show ?thesis by simp
  qed
qed

lemma mod_0_dvd: "y mod k = 0 \<Longrightarrow> n dvd k \<Longrightarrow> y mod n = 0" for y k n :: int
  by (metis dvd_eq_mod_eq_0 dvd_trans)

lemma days_before_year_Suc:
  "days_before_year y + 365 + (if leap_year y then 1 else 0) = days_before_year (y + 1)"
proof -
  define i4 i100 i400 :: int where
    "i4 = (if y mod 4 = 0 then 1 else 0)" and "i100 = (if y mod 100 = 0 then 1 else 0)"
    and "i400 = (if y mod 400 = 0 then 1 else 0)"
  have q: "y div 4 = (y - 1) div 4 + i4" "y div 100 = (y - 1) div 100 + i100"
    "y div 400 = (y - 1) div 400 + i400"
    unfolding i4_def i100_def i400_def by (rule div_step, simp)+
  have rule: "(if P \<and> (\<not> Q \<or> R) then 1 else 0) =
      (if P then 1 else 0) - (if Q then 1 else 0) + (if R then 1 else (0::int))"
    if "Q \<Longrightarrow> P" "R \<Longrightarrow> Q" for P Q R
    using that by (cases P; cases Q; cases R) simp_all
  have l: "(if leap_year y then 1 else (0::int)) = i4 - i100 + i400"
    unfolding leap_year_def i4_def i100_def i400_def
    by (rule rule; rule mod_0_dvd; assumption?) simp_all
  have sum: "365 * (y - 1) + p - q + r + 365 + l = 365 * y + p' - q' + r'"
    if "p' = p + i4" "q' = q + i100" "r' = r + i400" "l = i4 - i100 + i400"
    for p q r l p' q' r' :: int
    using that by simp
  have "y + 1 - 1 = y" by simp
  then show ?thesis unfolding days_before_year_def by (simp only: sum [OF q l])
qed

lemma civil_year_range:
  assumes "civil_of_days n = (y, m, d)" and "days_before_year 0 \<le> n" and "n < days_before_year 10000"
  shows "0 \<le> y \<and> y \<le> 9999"
proof -
  obtain k where k: "year_of_days n = (y, k)"
    using assms by (auto simp: civil_of_days_def split: prod.splits)
  note yk = year_of_days_correct [OF k]
  have step: "days_before_year y + k < days_before_year (y + 1)"
    using yk(3) days_before_year_Suc [of y] by simp
  have "0 \<le> y"
  proof (rule ccontr)
    assume "\<not> 0 \<le> y"
    then have "days_before_year (y + 1) \<le> days_before_year 0"
      by (intro days_before_year_mono) simp
    with step yk(1) assms(2) show False by simp
  qed
  moreover have "y \<le> 9999"
  proof (rule ccontr)
    assume "\<not> y \<le> 9999"
    then have "days_before_year 10000 \<le> days_before_year y"
      by (intro days_before_year_mono) simp
    with yk(1,2) assms(3) show False by simp
  qed
  ultimately show ?thesis by simp
qed

section \<open>RFC 3339 texts\<close>

definition pad2 :: "int \<Rightarrow> string" where
  "pad2 n = [digit (nat (n div 10)), digit (nat (n mod 10))]"

definition pad4 :: "int \<Rightarrow> string" where
  "pad4 n = pad2 (n div 100) @ pad2 (n mod 100)"

text \<open>The fraction is printed without trailing zeros, and not at all when it is zero.\<close>

fun frac_digits :: "nat \<Rightarrow> int \<Rightarrow> string" where
  "frac_digits 0 f = []"
| "frac_digits (Suc k) f =
     (if f = 0 then [] else digit (nat (f div 10 ^ k)) # frac_digits k (f mod 10 ^ k))"

definition format_zone :: "int \<Rightarrow> string" where
  "format_zone off =
     (if off = 0 then ''Z''
      else (if off < 0 then CHR ''-'' else CHR ''+'')
           # pad2 (\<bar>off\<bar> div 3600) @ '':'' @ pad2 (\<bar>off\<bar> div 60 mod 60))"

text \<open>
  \<open>Time.Format\<close> with \<open>time.RFC3339\<close> (\<open>nano\<close> false) and \<open>time.RFC3339Nano\<close> (\<open>nano\<close> true). A year
  outside 0 to 9999 prints with a sign or with more digits; the program never formats one
  without checking, so only its digits modulo 10000 are kept here.
\<close>

definition format_rfc3339 :: "bool \<Rightarrow> go_time \<Rightarrow> string" where
  "format_rfc3339 nano t =
     (let ls = Unix t + t_off t; f = t_ns t mod second; sod = ls mod 86400;
          (y, m, d) = civil_of_days (ls div 86400 + 719162)
      in pad4 (y mod 10000) @ ''-'' @ pad2 m @ ''-'' @ pad2 d @ ''T''
         @ pad2 (sod div 3600) @ '':'' @ pad2 (sod div 60 mod 60) @ '':'' @ pad2 (sod mod 60)
         @ (if nano \<and> f \<noteq> 0 then CHR ''.'' # frac_digits 9 f else [])
         @ format_zone (t_off t))"

text \<open>Reading numbers and literals off the front of a text.\<close>

definition num2 :: "string \<Rightarrow> (int \<times> string) option" where
  "num2 s = (case s of a # b # r \<Rightarrow>
       if is_digit a \<and> is_digit b then Some (10 * digit_val a + digit_val b, r) else None
     | _ \<Rightarrow> None)"

definition num4 :: "string \<Rightarrow> (int \<times> string) option" where
  "num4 s = Option.bind (num2 s) (\<lambda>(h, r). map_option (\<lambda>(l, r'). (100 * h + l, r')) (num2 r))"

text \<open>The hour may have a single digit.\<close>

definition num1or2 :: "string \<Rightarrow> (int \<times> string) option" where
  "num1or2 s = (case num2 s of Some x \<Rightarrow> Some x | None \<Rightarrow>
       (case s of a # r \<Rightarrow> if is_digit a then Some (digit_val a, r) else None | [] \<Rightarrow> None))"

definition lit :: "char \<Rightarrow> string \<Rightarrow> string option" where
  "lit c s = (case s of a # r \<Rightarrow> if a = c then Some r else None | [] \<Rightarrow> None)"

text \<open>
  A fraction after the seconds is accepted whatever the layout says, after a period or a
  comma; digits past the ninth are dropped.
\<close>

definition parse_frac :: "string \<Rightarrow> int \<times> string" where
  "parse_frac s = (case s of
       p # a # r \<Rightarrow>
         if (p = CHR ''.'' \<or> p = CHR '','') \<and> is_digit a
         then let ds = take 9 (takeWhile is_digit (a # r))
              in (digits_val ds * 10 ^ (9 - length ds), dropWhile is_digit (a # r))
         else (0, s)
     | _ \<Rightarrow> (0, s))"

definition zone_offset :: "char \<Rightarrow> int \<Rightarrow> int \<Rightarrow> int" where
  "zone_offset sign h m = (if sign = CHR ''-'' then - 1 else 1) * (h * 60 + m) * 60"

definition parse_zone :: "string \<Rightarrow> (int \<times> string) option" where
  "parse_zone s = (case s of
       z # r \<Rightarrow>
         if z = CHR ''Z'' then Some (0, r)
         else if z = CHR ''+'' \<or> z = CHR ''-'' then
           Option.bind (num2 r) (\<lambda>(h, r1). Option.bind (lit CHR '':'' r1) (\<lambda>r2.
           Option.bind (num2 r2) (\<lambda>(m, r3).
             if h \<le> 24 \<and> m \<le> 60
             then Some (zone_offset z h m, r3) else None)))
         else None
     | [] \<Rightarrow> None)"

text \<open>\<open>time.Parse\<close> with \<open>time.RFC3339\<close>.\<close>

definition parse_rfc3339 :: "string \<Rightarrow> go_time option" where
  "parse_rfc3339 s =
     Option.bind (num4 s) (\<lambda>(y, s1). Option.bind (lit CHR ''-'' s1) (\<lambda>s2.
     Option.bind (num2 s2) (\<lambda>(mo, s3). Option.bind (lit CHR ''-'' s3) (\<lambda>s4.
     Option.bind (num2 s4) (\<lambda>(d, s5). Option.bind (lit CHR ''T'' s5) (\<lambda>s6.
     Option.bind (num1or2 s6) (\<lambda>(h, s7). Option.bind (lit CHR '':'' s7) (\<lambda>s8.
     Option.bind (num2 s8) (\<lambda>(mi, s9). Option.bind (lit CHR '':'' s9) (\<lambda>s10.
     Option.bind (num2 s10) (\<lambda>(se, s11).
       let (f, s12) = parse_frac s11 in
       Option.bind (parse_zone s12) (\<lambda>(off, s13).
         if s13 = [] \<and> valid_date y mo d \<and> h < 24 \<and> mi < 60 \<and> se < 60
         then Some \<lparr>t_ns = (((days_of_civil y mo d - 719162) * 86400
                             + h * 3600 + mi * 60 + se) - off) * second + f,
                    t_off = off\<rparr>
         else None))))))))))))"

text \<open>
  The instants that print as four-digit years, with an offset of whole minutes below a day:
  those that \<open>Time.MarshalJSON\<close> accepts and that a parse can give back.
\<close>

definition time_ok :: "go_time \<Rightarrow> bool" where
  "time_ok t \<longleftrightarrow>
     -62167219200 \<le> Unix t + t_off t \<and> Unix t + t_off t < 253402300800
     \<and> t_off t mod 60 = 0 \<and> \<bar>t_off t\<bar> < 86400"

section \<open>Printing and parsing an instant\<close>

lemma num2_pad2 [simp, wire]: "0 \<le> n \<Longrightarrow> n < 100 \<Longrightarrow> num2 (pad2 n @ r) = Some (n, r)"
proof -
  assume n: "0 \<le> n" "n < 100"
  then have "nat (n div 10) < 10" "nat (n mod 10) < 10" by auto
  then show ?thesis using n by (simp add: num2_def pad2_def pos_imp_zdiv_nonneg_iff)
qed

lemma num4_pad4 [simp, wire]: "0 \<le> n \<Longrightarrow> n < 10000 \<Longrightarrow> num4 (pad4 n @ r) = Some (n, r)"
  by (simp add: num4_def pad4_def)

lemma num1or2_pad2 [simp, wire]: "0 \<le> n \<Longrightarrow> n < 100 \<Longrightarrow> num1or2 (pad2 n @ r) = Some (n, r)"
  by (simp add: num1or2_def)

lemma lit_Cons [simp, wire]: "lit c (c # r) = Some r"
  by (simp add: lit_def)

lemma frac_digits_props:
  assumes "0 \<le> f" and "f < 10 ^ k"
  shows "list_all is_digit (frac_digits k f) \<and> length (frac_digits k f) \<le> k
    \<and> digits_val (frac_digits k f) * 10 ^ (k - length (frac_digits k f)) = f"
  using assms
proof (induction k arbitrary: f)
  case 0
  then show ?case by (simp add: digits_val_def)
next
  case (Suc k)
  show ?case
  proof (cases "f = 0")
    case True
    then show ?thesis by (simp add: digits_val_def)
  next
    case False
    let ?q = "f div 10 ^ k" and ?m = "f mod 10 ^ k"
    have q: "0 \<le> ?q" using Suc.prems by (simp add: pos_imp_zdiv_nonneg_iff)
    have q10: "?q < 10"
    proof (rule ccontr)
      assume "\<not> ?q < 10"
      then have "10 * 10 ^ k \<le> ?q * 10 ^ k" by (intro mult_right_mono) auto
      moreover have "?q * 10 ^ k \<le> f" using div_mult_mod_eq [of f "10 ^ k"] by (smt (verit) pos_mod_sign zero_less_power)
      ultimately show False using Suc.prems(2) unfolding power_Suc by linarith
    qed
    have IH: "list_all is_digit (frac_digits k ?m)" "length (frac_digits k ?m) \<le> k"
      "digits_val (frac_digits k ?m) * 10 ^ (k - length (frac_digits k ?m)) = ?m"
      using Suc.IH [of ?m] by simp_all
    have shift: "foldl (\<lambda>v c. 10 * v + digit_val c) a ds = a * 10 ^ length ds + digits_val ds" for a ds
    proof (induction ds rule: rev_induct)
      case (snoc c ds)
      then show ?case by (simp add: digits_val_snoc algebra_simps)
    qed (simp add: digits_val_def)
    have "digits_val (digit (nat ?q) # ds) = ?q * 10 ^ length ds + digits_val ds" for ds
      using q q10 shift [of ?q ds] by (simp add: digits_val_def)
    then have "digits_val (frac_digits (Suc k) f) * 10 ^ (Suc k - length (frac_digits (Suc k) f))
        = ?q * (10 ^ length (frac_digits k ?m) * 10 ^ (k - length (frac_digits k ?m))) + ?m"
      using False IH(3) by (simp add: algebra_simps)
    also have "\<dots> = ?q * 10 ^ k + ?m"
      using IH(2) by (simp flip: power_add)
    also have "\<dots> = f" by (rule div_mult_mod_eq)
    finally show ?thesis using q q10 False IH by simp
  qed
qed

lemma parse_frac_digits [wire]:
  assumes "0 < f" and "f < second" and "r = [] \<or> \<not> is_digit (hd r)"
  shows "parse_frac (CHR ''.'' # frac_digits 9 f @ r) = (f, r)"
proof -
  define ds where "ds = frac_digits 9 f"
  have ds: "list_all is_digit ds" "length ds \<le> 9" "digits_val ds * 10 ^ (9 - length ds) = f"
    using frac_digits_props [of f 9] assms(1,2) by (auto simp: ds_def second_def)
  have "ds \<noteq> []" using ds(3) assms(1) by (auto simp: digits_val_def)
  then obtain a as where a: "ds = a # as" by (cases ds) auto
  have all: "\<forall>x \<in> set ds. is_digit x" using ds(1) by (simp add: list_all_iff)
  have "takeWhile is_digit (ds @ r) = ds" "dropWhile is_digit (ds @ r) = r"
    using all assms(3) by (cases r; auto simp: takeWhile_append dropWhile_append)+
  then show ?thesis
    unfolding ds_def [symmetric] using ds all by (simp add: parse_frac_def a Let_def)
qed

lemma format_zone_hd: "\<exists>z r. format_zone off = z # r \<and> z \<in> {CHR ''Z'', CHR ''+'', CHR ''-''}"
  by (auto simp: format_zone_def)

lemma parse_frac_zone [wire]: "parse_frac (format_zone off) = (0, format_zone off)"
  using format_zone_hd [of off]
  by (auto simp: parse_frac_def split: list.splits)

lemma sexagesimal: "a div 3600 * 3600 + a div 60 mod 60 * 60 + a mod 60 = a" for a :: int
proof -
  have "a = 60 * (a div 60) + a mod 60" by simp
  moreover have "a div 60 = 60 * (a div 60 div 60) + a div 60 mod 60" by simp
  moreover have "a div 60 div 60 = a div 3600" using zdiv_zmult2_eq [of 60 a 60] by simp
  ultimately show ?thesis by presburger
qed

lemma parse_zone_format [wire]:
  assumes "off mod 60 = 0" and "\<bar>off\<bar> < 86400"
  shows "parse_zone (format_zone off) = Some (off, [])"
proof (cases "off = 0")
  case True
  then show ?thesis by (simp add: format_zone_def parse_zone_def)
next
  case False
  define a h m where "a = \<bar>off\<bar>" and "h = \<bar>off\<bar> div 3600" and "m = \<bar>off\<bar> div 60 mod 60"
  have a: "0 < a" "a < 86400" "a mod 60 = 0"
    using False assms by (auto simp: a_def abs_if mod_minus_eq zmod_zminus1_eq_if)
  then have hm: "0 \<le> h" "h < 24" "0 \<le> m" "m < 60"
    unfolding h_def m_def by (simp_all flip: a_def)
  have sum: "(h * 60 + m) * 60 = a"
    using sexagesimal [of a] a(3) by (simp add: h_def m_def flip: a_def)
  have n1: "num2 (pad2 h @ CHR '':'' # pad2 m) = Some (h, CHR '':'' # pad2 m)"
    and n2: "num2 (pad2 m) = Some (m, [])"
    using hm num2_pad2 [of m "[]"] by simp_all
  have printed: "format_zone off =
      (if off < 0 then CHR ''-'' else CHR ''+'') # pad2 h @ '':'' @ pad2 m"
    using False by (simp add: format_zone_def h_def m_def)
  have "zone_offset (if off < 0 then CHR ''-'' else CHR ''+'') h m = off"
  proof (cases "off < 0")
    case True
    then have "(h * 60 + m) * 60 = - off" using sum by (simp add: a_def)
    with True show ?thesis by (simp add: zone_offset_def)
  next
    case False
    then have "(h * 60 + m) * 60 = off" using sum by (simp add: a_def)
    with False show ?thesis by (simp add: zone_offset_def)
  qed
  then show ?thesis
    unfolding printed using hm by (auto simp: parse_zone_def n1 n2)
qed

lemma days_range:
  assumes "-62167219200 \<le> ls" and "ls < 253402300800"
  shows "days_before_year 0 \<le> ls div 86400 + 719162 \<and> ls div 86400 + 719162 < days_before_year 10000"
  using assms by (simp add: days_before_year_def) linarith

text \<open>An instant printed with its nanoseconds parses back to itself.\<close>

lemma parse_format_rfc3339 [wire]:
  assumes "time_ok t"
  shows "parse_rfc3339 (format_rfc3339 True t) = Some t"
proof -
  define ls f where "ls = Unix t + t_off t" and "f = t_ns t mod second"
  define sod where "sod = ls mod 86400"
  obtain y m d where ymd: "civil_of_days (ls div 86400 + 719162) = (y, m, d)"
    by (cases "civil_of_days (ls div 86400 + 719162)") auto
  have ls: "-62167219200 \<le> ls" "ls < 253402300800" and off: "t_off t mod 60 = 0" "\<bar>t_off t\<bar> < 86400"
    using assms by (auto simp: time_ok_def ls_def)
  have date: "days_of_civil y m d = ls div 86400 + 719162" "valid_date y m d"
    using civil_of_days_correct [OF ymd] by simp_all
  have y: "0 \<le> y" "y \<le> 9999"
    using civil_year_range [OF ymd] days_range [OF ls] by auto
  have "month_lengths y ! i \<le> 31" if "i < 12" for i
    using that by (auto simp: month_lengths_def nth_Cons' )
  moreover have "nat (m - 1) < 12" using date(2) by (auto simp: valid_date_def)
  ultimately have "month_lengths y ! nat (m - 1) \<le> 31" by blast
  then have md: "0 \<le> m" "m < 100" "0 \<le> d" "d < 100"
    using date(2) by (auto simp: valid_date_def)
  have sod: "0 \<le> sod" "sod < 86400" by (simp_all add: sod_def)
  define hh mi se where "hh = sod div 3600" and "mi = sod div 60 mod 60" and "se = sod mod 60"
  have hms: "0 \<le> hh" "hh < 24" "0 \<le> mi" "mi < 60" "0 \<le> se" "se < 60"
    using sod by (auto simp: hh_def mi_def se_def)
  have hms_sum: "hh * 3600 + mi * 60 + se = sod"
    unfolding hh_def mi_def se_def by (rule sexagesimal)
  have f: "0 \<le> f" "f < second" by (simp_all add: f_def second_def)
  define ft where "ft = (if f \<noteq> 0 then CHR ''.'' # frac_digits 9 f else [])"
  have "format_zone (t_off t) = [] \<or> \<not> is_digit (hd (format_zone (t_off t)))"
    using format_zone_hd [of "t_off t"] by (auto simp: is_digit_def)
  then have frac: "parse_frac (ft @ format_zone (t_off t)) = (f, format_zone (t_off t))"
    using f by (auto simp: ft_def parse_frac_zone intro: parse_frac_digits)
  define z where "z = ls div 86400"
  have "ls = z * 86400 + sod" unfolding z_def sod_def by (rule div_mult_mod_eq [symmetric])
  then have "z * 86400 + hh * 3600 + mi * 60 + se - t_off t = Unix t"
    using hms_sum by (simp add: ls_def)
  moreover have "t_ns t = Unix t * second + f" by (simp add: f_def Unix_def)
  ultimately have secs: "(z * 86400 + hh * 3600 + mi * 60 + se - t_off t) * second + f = t_ns t"
    by simp
  have printed: "format_rfc3339 True t =
      pad4 y @ ''-'' @ pad2 m @ ''-'' @ pad2 d @ ''T'' @ pad2 hh @ '':''
      @ pad2 mi @ '':'' @ pad2 se @ ft @ format_zone (t_off t)"
    using ymd y by (simp add: format_rfc3339_def Let_def ls_def f_def sod_def ft_def hh_def mi_def se_def)
  have z: "days_of_civil y m d - 719162 = z" using date(1) by (simp add: z_def)
  show ?thesis
    unfolding printed using y md hms date(2)
    by (simp add: parse_rfc3339_def frac parse_zone_format [OF off] z secs)
qed

end
