(* ===== verification/Json.thy ===== *)
theory Json
  imports GoTime
begin

text \<open>
  JSON documents as \<open>encoding/json\<close> sees them. A text that is valid JSON is identified with its
  document tree, so what is kept of a text is its value, not its spacing; any other text is
  \<open>Plain\<close>. Members keep their order, and a decoder reads them one after the other, so a
  repeated member takes its last value. A number is its literal.
\<close>

section \<open>Documents and texts\<close>

datatype json =
    JNull
  | JBool bool
  | JNum string
  | JStr string
  | JArr "json list"
  | JObj "(string \<times> json) list"

datatype gotext = Json json | Plain string

definition JInt :: "int \<Rightarrow> json" where
  "JInt i = JNum (Itoa i)"

section \<open>Decoding into a struct\<close>

text \<open>
  A member of an object goes to the struct field with its name or, when there is none, to the
  field whose name folds to the same text: ASCII letters without case, the long s (U+017F)
  as s, the Kelvin sign (U+212A) as k. Members without a field are skipped.
\<close>

definition upper :: "char \<Rightarrow> char" where
  "upper c = (let n = of_char c :: nat in if 97 \<le> n \<and> n \<le> 122 then char_of (n - 32) else c)"

function fold_name :: "string \<Rightarrow> string" where
  "fold_name [] = []"
| "fold_name (c # cs) =
     (if take 2 (c # cs) = [CHR 0xC5, CHR 0xBF] then CHR ''S'' # fold_name (drop 1 cs)
      else if take 3 (c # cs) = [CHR 0xE2, CHR 0x84, CHR 0xAA] then CHR ''K'' # fold_name (drop 2 cs)
      else upper c # fold_name cs)"
  by pat_completeness auto
termination by (relation "measure length") auto

text \<open>How a field takes a value: the new struct, or an error.\<close>

type_synonym 'r setter = "json \<Rightarrow> 'r \<Rightarrow> error + 'r"

definition find_field :: "(string \<times> 'r setter) list \<Rightarrow> string \<Rightarrow> 'r setter option" where
  "find_field fs n =
     (case map_of fs n of Some f \<Rightarrow> Some f
      | None \<Rightarrow> map_option snd (find (\<lambda>(n', f). fold_name n' = fold_name n) fs))"

fun decode_members :: "(string \<times> 'r setter) list \<Rightarrow> (string \<times> json) list \<Rightarrow> 'r \<Rightarrow> error + 'r" where
  "decode_members fs [] r = Inr r"
| "decode_members fs ((n, v) # ms) r =
     (case find_field fs n of None \<Rightarrow> decode_members fs ms r
      | Some f \<Rightarrow> (case f v r of Inl e \<Rightarrow> Inl e | Inr r' \<Rightarrow> decode_members fs ms r'))"

definition type_error :: "string \<Rightarrow> error" where
  "type_error s = Errorf (''json: cannot unmarshal '' @ s)"

definition decode_struct :: "(string \<times> 'r setter) list \<Rightarrow> 'r \<Rightarrow> json \<Rightarrow> error + 'r" where
  "decode_struct fs zero j =
     (case j of JNull \<Rightarrow> Inr zero
      | JObj ms \<Rightarrow> decode_members fs ms zero
      | _ \<Rightarrow> Inl (type_error ''value into struct''))"

text \<open>\<open>json.Unmarshal\<close> of a text into a struct.\<close>

definition Unmarshal_struct :: "(string \<times> 'r setter) list \<Rightarrow> 'r \<Rightarrow> gotext \<Rightarrow> error + 'r" where
  "Unmarshal_struct fs zero x =
     (case x of Json j \<Rightarrow> decode_struct fs zero j
      | Plain s \<Rightarrow> Inl (Errorf ''invalid character''))"

text \<open>The kinds of fields: strings, integers, instants, raw documents, nested structs, maps.\<close>

definition set_string :: "(string \<Rightarrow> 'r \<Rightarrow> 'r) \<Rightarrow> 'r setter" where
  "set_string upd j r =
     (case j of JStr s \<Rightarrow> Inr (upd s r) | JNull \<Rightarrow> Inr r | _ \<Rightarrow> Inl (type_error ''value into string''))"

definition set_int :: "(int \<Rightarrow> 'r \<Rightarrow> 'r) \<Rightarrow> 'r setter" where
  "set_int upd j r =
     (case j of JNum l \<Rightarrow> (case Atoi l of Some i \<Rightarrow> Inr (upd i r) | None \<Rightarrow> Inl (type_error ''number into int''))
      | JNull \<Rightarrow> Inr r | _ \<Rightarrow> Inl (type_error ''value into int''))"

definition set_time :: "(go_time \<Rightarrow> 'r \<Rightarrow> 'r) \<Rightarrow> 'r setter" where
  "set_time upd j r =
     (case j of JStr s \<Rightarrow> (case parse_rfc3339 s of Some t \<Rightarrow> Inr (upd t r)
                          | None \<Rightarrow> Inl (Errorf ''parsing time''))
      | JNull \<Rightarrow> Inr r | _ \<Rightarrow> Inl (Errorf ''Time.UnmarshalJSON: input is not a JSON string''))"

definition set_raw :: "(json \<Rightarrow> 'r \<Rightarrow> 'r) \<Rightarrow> 'r setter" where
  "set_raw upd j r = Inr (upd j r)"

text \<open>
  A pointer to a struct: null makes it nil; another value is decoded into the struct it points
  to, which is a zero struct when the pointer is nil.
\<close>

definition set_pointer ::
    "(string \<times> 'a setter) list \<Rightarrow> 'a \<Rightarrow> ('r \<Rightarrow> 'a option) \<Rightarrow> ('a option \<Rightarrow> 'r \<Rightarrow> 'r) \<Rightarrow> 'r setter" where
  "set_pointer fs zero get upd j r =
     (case j of JNull \<Rightarrow> Inr (upd None r)
      | _ \<Rightarrow> (case decode_struct fs (case get r of None \<Rightarrow> zero | Some a \<Rightarrow> a) j of
                Inl e \<Rightarrow> Inl e | Inr a \<Rightarrow> Inr (upd (Some a) r)))"

text \<open>
  A document decoded into an \<open>interface{}\<close>: objects become maps, so their members are sorted
  and a repeated member keeps its last value.
\<close>

fun any_value :: "json \<Rightarrow> json" where
  "any_value (JArr js) = JArr (map any_value js)"
| "any_value (JObj ms) = JObj (fold (\<lambda>(k, v). map_put k v) (map (\<lambda>(k, v). (k, any_value v)) ms) [])"
| "any_value j = j"

text \<open>\<open>map[string]string\<close> and \<open>map[string]interface{}\<close>: null makes the map nil.\<close>

fun put_strings :: "(string \<times> json) list \<Rightarrow> string gomap \<Rightarrow> error + string gomap" where
  "put_strings [] m = Inr m"
| "put_strings ((k, v) # ms) m =
     (case v of JStr s \<Rightarrow> put_strings ms (map_put k s m)
      | JNull \<Rightarrow> put_strings ms (map_put k [] m)
      | _ \<Rightarrow> Inl (type_error ''value into string''))"

definition set_strings ::
    "('r \<Rightarrow> string gomap option) \<Rightarrow> (string gomap option \<Rightarrow> 'r \<Rightarrow> 'r) \<Rightarrow> 'r setter" where
  "set_strings get upd j r =
     (case j of JNull \<Rightarrow> Inr (upd None r)
      | JObj ms \<Rightarrow> (case put_strings ms (case get r of None \<Rightarrow> [] | Some m \<Rightarrow> m) of
                     Inl e \<Rightarrow> Inl e | Inr m \<Rightarrow> Inr (upd (Some m) r))
      | _ \<Rightarrow> Inl (type_error ''value into map''))"

definition set_any ::
    "('r \<Rightarrow> json gomap option) \<Rightarrow> (json gomap option \<Rightarrow> 'r \<Rightarrow> 'r) \<Rightarrow> 'r setter" where
  "set_any get upd j r =
     (case j of JNull \<Rightarrow> Inr (upd None r)
      | JObj ms \<Rightarrow> Inr (upd (Some (fold (\<lambda>(k, v). map_put k (any_value v)) ms
                                     (case get r of None \<Rightarrow> [] | Some m \<Rightarrow> m))) r)
      | _ \<Rightarrow> Inl (type_error ''value into map''))"

section \<open>Encoding\<close>

definition string_map_json :: "string gomap \<Rightarrow> json" where
  "string_map_json m = JObj (map (apsnd JStr) m)"

definition any_map_json :: "json gomap \<Rightarrow> json" where
  "any_map_json m = JObj m"

text \<open>\<open>omitempty\<close> on a map: a nil or empty map leaves no member.\<close>

definition omit_empty :: "string \<Rightarrow> ('v gomap \<Rightarrow> json) \<Rightarrow> 'v gomap option \<Rightarrow> (string \<times> json) list" where
  "omit_empty n enc m = (case m of None \<Rightarrow> [] | Some [] \<Rightarrow> [] | Some (x # xs) \<Rightarrow> [(n, enc (x # xs))])"

definition omit_empty_string :: "string \<Rightarrow> string \<Rightarrow> (string \<times> json) list" where
  "omit_empty_string n s = (if s = [] then [] else [(n, JStr s)])"

text \<open>\<open>Time.MarshalJSON\<close> refuses years that do not have four digits and offsets of a day or more.\<close>

definition time_json :: "go_time \<Rightarrow> error + json" where
  "time_json t =
     (let ls = Unix t + t_off t
      in if ls < -62167219200 \<or> 253402300800 \<le> ls
         then Inl (Errorf ''Time.MarshalJSON: year outside of range [0,9999]'')
         else if 24 \<le> \<bar>t_off t\<bar> div 3600
         then Inl (Errorf ''Time.MarshalJSON: timezone hour outside of range [0,23]'')
         else Inr (JStr (format_rfc3339 True t)))"

section \<open>Encoding and decoding agree\<close>

lemma set_int_JInt [simp, wire]: "int64_range i \<Longrightarrow> set_int upd (JInt i) r = Inr (upd i r)"
  by (simp add: set_int_def JInt_def)

lemma set_string_JStr [simp, wire]: "set_string upd (JStr s) r = Inr (upd s r)"
  by (simp add: set_string_def)

lemma set_time_json [wire]:
  assumes "time_json t = Inr j" and "t_off t mod 60 = 0"
  shows "set_time upd j r = Inr (upd t r)"
proof -
  have "time_ok t" and j: "j = JStr (format_rfc3339 True t)"
    using assms by (auto simp: time_json_def time_ok_def Let_def split: if_splits)
  then show ?thesis by (simp add: set_time_def parse_format_rfc3339)
qed

lemma put_strings_map [wire]:
  "put_strings (map (apsnd JStr) xs) m = Inr (fold (\<lambda>(k, v). map_put k v) xs m)"
  by (induction xs arbitrary: m) auto

lemma map_rebuild: "map_ok xs \<Longrightarrow> fold (\<lambda>(k, v). map_put k v) xs [] = xs"
  using map_put_rebuild [of "[]" xs "\<lambda>v. v"] by (simp add: apsnd_def map_prod.identity id_def)

lemma map_rebuild_f: "map_ok xs \<Longrightarrow> fold (\<lambda>(k, v). map_put k (f v)) xs [] = map (apsnd f) xs"
  using map_put_rebuild [of "[]" xs f] by simp

lemma set_strings_map [wire]:
  "map_ok m \<Longrightarrow> get r = None \<Longrightarrow> set_strings get upd (string_map_json m) r = Inr (upd (Some m) r)"
  by (simp add: set_strings_def string_map_json_def put_strings_map map_rebuild)

text \<open>A value as \<open>any_value\<close> leaves it.\<close>

definition any_ok :: "json \<Rightarrow> bool" where
  "any_ok j \<longleftrightarrow> any_value j = j"

lemma set_any_map [wire]:
  assumes "map_ok m" and "get r = None" and "\<forall>(k, v) \<in> set m. any_ok v"
  shows "set_any get upd (any_map_json m) r = Inr (upd (Some m) r)"
proof -
  have "map (apsnd any_value) m = m" using assms(3) by (auto simp: any_ok_def intro!: map_idI)
  then show ?thesis using assms by (simp add: set_any_def any_map_json_def map_rebuild_f)
qed

lemma map_ok_fold_put: "map_ok m \<Longrightarrow> map_ok (fold (\<lambda>(k, v). map_put k (f v)) xs m)"
  by (induction xs arbitrary: m) auto

lemma in_map_put: "(k', v') \<in> set (map_put k v xs) \<Longrightarrow> (k', v') = (k, v) \<or> (k', v') \<in> set xs"
  by (induction k v xs rule: map_put.induct) (auto split: if_splits)

lemma in_fold_put:
  "(k', v') \<in> set (fold (\<lambda>(k, v). map_put k (f v)) xs m) \<Longrightarrow>
    (\<exists>v. (k', v) \<in> set xs \<and> v' = f v) \<or> (k', v') \<in> set m"
  by (induction xs arbitrary: m) (force dest: in_map_put)+

lemma fold_put_apsnd:
  "fold (\<lambda>(k, v). map_put k v) (map (\<lambda>(k, v). (k, f v)) xs) m = fold (\<lambda>(k, v). map_put k (f v)) xs m"
  by (induction xs arbitrary: m) auto

lemma any_value_idem: "any_ok (any_value j)"
proof (induction j rule: any_value.induct)
  case (2 ms)
  let ?m = "fold (\<lambda>(k, v). map_put k (any_value v)) ms []"
  have "map_ok ?m" by (simp add: map_ok_fold_put)
  moreover have "map (apsnd any_value) ?m = ?m"
    using 2 by (force dest!: in_fold_put simp: any_ok_def intro!: map_idI)
  ultimately show ?case
    by (simp add: any_ok_def fold_put_apsnd map_rebuild_f)
qed (auto simp: any_ok_def)

end
