(* ===== verification/Domain.thy ===== *)
theory Domain
  imports Json
begin

text \<open>
  The domain model, \<open>internal/domain\<close>: GPUs, telemetry points, their keys, and the JSON form
  of a telemetry point, which is the payload of every message of the pipeline.
\<close>

section \<open>GPUs\<close>

record GPU =
  gpu_UUID :: string
  gpu_DeviceID :: string
  gpu_GPUIndex :: string
  gpu_ModelName :: string
  gpu_Hostname :: string
  gpu_Container :: string
  gpu_Pod :: string
  gpu_Namespace :: string

definition GetCompositeKey :: "GPU \<Rightarrow> string" where
  "GetCompositeKey g = gpu_Hostname g @ '':'' @ gpu_DeviceID g"

section \<open>Telemetry points\<close>

record TelemetryPoint =
  tp_GPUUUID :: string
  tp_MetricName :: string
  tp_Value :: string
  tp_Timestamp :: go_time
  tp_BatchID :: string
  tp_LabelsRaw :: string

definition zero_TelemetryPoint :: TelemetryPoint where
  "zero_TelemetryPoint =
     \<lparr>tp_GPUUUID = [], tp_MetricName = [], tp_Value = [], tp_Timestamp = zero_time,
      tp_BatchID = [], tp_LabelsRaw = []\<rparr>"

definition GetUniqueKey :: "TelemetryPoint \<Rightarrow> string" where
  "GetUniqueKey t =
     (if tp_BatchID t \<noteq> []
      then tp_GPUUUID t @ '':'' @ tp_MetricName t @ '':'' @ tp_BatchID t
      else tp_GPUUUID t @ '':'' @ tp_MetricName t @ '':'' @ format_rfc3339 True (tp_Timestamp t))"

text \<open>The metric names the program knows.\<close>

datatype MetricType =
    MetricGPUUtil | MetricMemCopyUtil | MetricEncUtil | MetricDecUtil
  | MetricFBUsed | MetricFBFree
  | MetricMemClock | MetricSMClock
  | MetricPowerUsage | MetricGPUTemp

fun metric_name :: "MetricType \<Rightarrow> string" where
  "metric_name MetricGPUUtil = ''DCGM_FI_DEV_GPU_UTIL''"
| "metric_name MetricMemCopyUtil = ''DCGM_FI_DEV_MEM_COPY_UTIL''"
| "metric_name MetricEncUtil = ''DCGM_FI_DEV_ENC_UTIL''"
| "metric_name MetricDecUtil = ''DCGM_FI_DEV_DEC_UTIL''"
| "metric_name MetricFBUsed = ''DCGM_FI_DEV_FB_USED''"
| "metric_name MetricFBFree = ''DCGM_FI_DEV_FB_FREE''"
| "metric_name MetricMemClock = ''DCGM_FI_DEV_MEM_CLOCK''"
| "metric_name MetricSMClock = ''DCGM_FI_DEV_SM_CLOCK''"
| "metric_name MetricPowerUsage = ''DCGM_FI_DEV_POWER_USAGE''"
| "metric_name MetricGPUTemp = ''DCGM_FI_DEV_GPU_TEMP''"

section \<open>The JSON form of a telemetry point\<close>

definition telemetry_json :: "TelemetryPoint \<Rightarrow> error + json" where
  "telemetry_json t =
     (case time_json (tp_Timestamp t) of Inl e \<Rightarrow> Inl e
      | Inr ts \<Rightarrow> Inr (JObj
         ([(''gpu_uuid'', JStr (tp_GPUUUID t)), (''metric_name'', JStr (tp_MetricName t)),
           (''value'', JStr (tp_Value t)), (''timestamp'', ts)]
          @ omit_empty_string ''batch_id'' (tp_BatchID t)
          @ omit_empty_string ''labels_raw'' (tp_LabelsRaw t))))"

definition telemetry_fields :: "(string \<times> TelemetryPoint setter) list" where
  "telemetry_fields =
     [(''gpu_uuid'', set_string (\<lambda>s t. t\<lparr>tp_GPUUUID := s\<rparr>)),
      (''metric_name'', set_string (\<lambda>s t. t\<lparr>tp_MetricName := s\<rparr>)),
      (''value'', set_string (\<lambda>s t. t\<lparr>tp_Value := s\<rparr>)),
      (''timestamp'', set_time (\<lambda>s t. t\<lparr>tp_Timestamp := s\<rparr>)),
      (''batch_id'', set_string (\<lambda>s t. t\<lparr>tp_BatchID := s\<rparr>)),
      (''labels_raw'', set_string (\<lambda>s t. t\<lparr>tp_LabelsRaw := s\<rparr>))]"

definition Unmarshal_telemetry :: "gotext \<Rightarrow> error + TelemetryPoint" where
  "Unmarshal_telemetry = Unmarshal_struct telemetry_fields zero_TelemetryPoint"

lemma telemetry_roundtrip [wire]:
  assumes "telemetry_json t = Inr j" and "t_off (tp_Timestamp t) mod 60 = 0"
  shows "Unmarshal_telemetry (Json j) = Inr t"
proof -
  obtain ts where ts: "time_json (tp_Timestamp t) = Inr ts"
    using assms(1) by (auto simp: telemetry_json_def split: sum.splits)
  note time = set_time_json [OF ts assms(2)]
  have j: "j = JObj
         ([(''gpu_uuid'', JStr (tp_GPUUUID t)), (''metric_name'', JStr (tp_MetricName t)),
           (''value'', JStr (tp_Value t)), (''timestamp'', ts)]
          @ omit_empty_string ''batch_id'' (tp_BatchID t)
          @ omit_empty_string ''labels_raw'' (tp_LabelsRaw t))"
    using assms(1) ts by (simp add: telemetry_json_def)
  show ?thesis
    unfolding j
    by (cases t) (simp add: Unmarshal_telemetry_def Unmarshal_struct_def decode_struct_def
        telemetry_fields_def find_field_def time omit_empty_string_def zero_TelemetryPoint_def)
qed

section \<open>Keys tell points apart\<close>

lemma split_at_sep:
  "x \<notin> set a \<Longrightarrow> x \<notin> set b \<Longrightarrow> a @ x # r = b @ x # s \<Longrightarrow> a = b \<and> r = s"
proof (induction a arbitrary: b)
  case Nil
  then show ?case by (cases b) auto
next
  case (Cons y a)
  then show ?case by (cases b) auto
qed

text \<open>
  Within one batch the unique key determines the GPU and the metric, provided the GPU
  identifiers and the metric names hold no colon.
\<close>

lemma GetUniqueKey_inj:
  assumes "GetUniqueKey t = GetUniqueKey u" and "tp_BatchID t \<noteq> []" and "tp_BatchID u \<noteq> []"
    and "CHR '':'' \<notin> set (tp_GPUUUID t) \<union> set (tp_MetricName t)"
    and "CHR '':'' \<notin> set (tp_GPUUUID u) \<union> set (tp_MetricName u)"
  shows "tp_GPUUUID t = tp_GPUUUID u \<and> tp_MetricName t = tp_MetricName u \<and> tp_BatchID t = tp_BatchID u"
  using assms
  by (auto simp: GetUniqueKey_def dest!: split_at_sep [rotated 2])

end
