(* ===== verification/Message.thy ===== *)
theory Message
  imports Domain
begin

text \<open>
  The message of the queue, \<open>internal/mq/message.go\<close>: its fields, its constructors, the fluent
  header and metadata operations with the panic they raise on a nil map, and its JSON form,
  which is what the queue service stores and what travels between the services.
\<close>

section \<open>Data\<close>

text \<open>
  A payload is a \<open>json.RawMessage\<close>: nil, or a text. The headers and the metadata may be nil
  maps, which is what decoding a message without them leaves.
\<close>

datatype raw_message = RawNil | Raw gotext

record Message =
  msg_ID :: string
  msg_Topic :: string
  msg_Payload :: raw_message
  msg_Headers :: "string gomap option"
  msg_Timestamp :: go_time
  msg_Metadata :: "json gomap option"

definition zero_Message :: Message where
  "zero_Message =
     \<lparr>msg_ID = [], msg_Topic = [], msg_Payload = RawNil, msg_Headers = None,
      msg_Timestamp = zero_time, msg_Metadata = None\<rparr>"

section \<open>Constructors and accessors\<close>

text \<open>
  \<open>NewMessage\<close> and \<open>NewMessageWithID\<close> get the payload as its JSON form (the result of
  \<open>json.Marshal\<close>), the identifier (\<open>uuid.New\<close> in the first) and the instant.
\<close>

definition NewMessageWithID :: "string \<Rightarrow> string \<Rightarrow> error + json \<Rightarrow> go_time \<Rightarrow> error + Message" where
  "NewMessageWithID i topic payload now =
     (case payload of Inl e \<Rightarrow> Inl e
      | Inr data \<Rightarrow> Inr \<lparr>msg_ID = i, msg_Topic = topic, msg_Payload = Raw (Json data),
          msg_Headers = Some [], msg_Timestamp = now, msg_Metadata = Some []\<rparr>)"

definition NewMessage :: "string \<Rightarrow> string \<Rightarrow> error + json \<Rightarrow> go_time \<Rightarrow> error + Message" where
  "NewMessage new_uuid topic payload now = NewMessageWithID new_uuid topic payload now"

definition WithHeader :: "Message \<Rightarrow> string \<Rightarrow> string \<Rightarrow> Message outcome" where
  "WithHeader m key v =
     (case msg_Headers m of None \<Rightarrow> Panics NilMapWrite
      | Some h \<Rightarrow> Returns (m\<lparr>msg_Headers := Some (map_put key v h)\<rparr>))"

definition WithMetadata :: "Message \<Rightarrow> string \<Rightarrow> json \<Rightarrow> Message outcome" where
  "WithMetadata m key v =
     (case msg_Metadata m of None \<Rightarrow> Panics NilMapWrite
      | Some h \<Rightarrow> Returns (m\<lparr>msg_Metadata := Some (map_put key v h)\<rparr>))"

definition lookup :: "'v gomap option \<Rightarrow> string \<Rightarrow> 'v option" where
  "lookup m key = (case m of None \<Rightarrow> None | Some h \<Rightarrow> map_of h key)"

definition GetHeader :: "Message \<Rightarrow> string \<Rightarrow> string option" where
  "GetHeader m key = lookup (msg_Headers m) key"

definition GetMetadata :: "Message \<Rightarrow> string \<Rightarrow> json option" where
  "GetMetadata m key = lookup (msg_Metadata m) key"

text \<open>\<open>Unmarshal\<close> decodes the payload; here with the decoder of the target's type.\<close>

definition Unmarshal :: "Message \<Rightarrow> (gotext \<Rightarrow> error + 'a) \<Rightarrow> error + 'a" where
  "Unmarshal m dec =
     (case msg_Payload m of RawNil \<Rightarrow> Inl (Errorf ''unexpected end of JSON input'')
      | Raw x \<Rightarrow> dec x)"

text \<open>What was put last under a key is what is read, and other keys keep their value.\<close>

lemma WithHeader_GetHeader:
  "WithHeader m k v = Returns m' \<Longrightarrow>
    GetHeader m' k' = (if k' = k then Some v else GetHeader m k')"
  by (auto simp: WithHeader_def GetHeader_def lookup_def split: option.splits)

lemma WithMetadata_GetMetadata:
  "WithMetadata m k v = Returns m' \<Longrightarrow>
    GetMetadata m' k' = (if k' = k then Some v else GetMetadata m k')"
  by (auto simp: WithMetadata_def GetMetadata_def lookup_def split: option.splits)

section \<open>The JSON form\<close>

text \<open>\<open>RawMessage.MarshalJSON\<close>: nil is null; a text that is not JSON makes the encoding fail.\<close>

definition raw_json :: "raw_message \<Rightarrow> error + json" where
  "raw_json p =
     (case p of RawNil \<Rightarrow> Inr JNull | Raw (Json j) \<Rightarrow> Inr j
      | Raw (Plain s) \<Rightarrow> Inl (Errorf ''json: error calling MarshalJSON for type json.RawMessage''))"

definition message_json :: "Message \<Rightarrow> error + json" where
  "message_json m =
     (case raw_json (msg_Payload m) of Inl e \<Rightarrow> Inl e
      | Inr p \<Rightarrow> (case time_json (msg_Timestamp m) of Inl e \<Rightarrow> Inl e
      | Inr ts \<Rightarrow> Inr (JObj
          ([(''id'', JStr (msg_ID m)), (''topic'', JStr (msg_Topic m)), (''payload'', p)]
           @ omit_empty ''headers'' string_map_json (msg_Headers m)
           @ [(''timestamp'', ts)]
           @ omit_empty ''metadata'' any_map_json (msg_Metadata m)))))"

definition message_fields :: "(string \<times> Message setter) list" where
  "message_fields =
     [(''id'', set_string (\<lambda>s m. m\<lparr>msg_ID := s\<rparr>)),
      (''topic'', set_string (\<lambda>s m. m\<lparr>msg_Topic := s\<rparr>)),
      (''payload'', set_raw (\<lambda>j m. m\<lparr>msg_Payload := Raw (Json j)\<rparr>)),
      (''headers'', set_strings msg_Headers (\<lambda>h m. m\<lparr>msg_Headers := h\<rparr>)),
      (''timestamp'', set_time (\<lambda>t m. m\<lparr>msg_Timestamp := t\<rparr>)),
      (''metadata'', set_any msg_Metadata (\<lambda>h m. m\<lparr>msg_Metadata := h\<rparr>))]"

definition decode_message :: "json \<Rightarrow> error + Message" where
  "decode_message = decode_struct message_fields zero_Message"

definition Unmarshal_message :: "gotext \<Rightarrow> error + Message" where
  "Unmarshal_message = Unmarshal_struct message_fields zero_Message"

text \<open>
  The messages a Go program can hold: the maps are maps (sorted, without repetition), the
  metadata values are values as an \<open>interface{}\<close> holds them, and the offset of the instant is
  a whole number of minutes.
\<close>

definition message_ok :: "Message \<Rightarrow> bool" where
  "message_ok m \<longleftrightarrow>
     (\<forall>h. msg_Headers m = Some h \<longrightarrow> map_ok h)
     \<and> (\<forall>h. msg_Metadata m = Some h \<longrightarrow> map_ok h \<and> (\<forall>(k, v) \<in> set h. any_ok v))
     \<and> t_off (msg_Timestamp m) mod 60 = 0"

text \<open>
  What is left of a message once it was encoded and decoded: an empty map becomes a nil map
  and a nil payload becomes the document null.
\<close>

definition nil_if_empty :: "'v gomap option \<Rightarrow> 'v gomap option" where
  "nil_if_empty m = (case m of Some [] \<Rightarrow> None | _ \<Rightarrow> m)"

definition wire_form :: "Message \<Rightarrow> Message" where
  "wire_form m = m\<lparr>msg_Payload := (case msg_Payload m of RawNil \<Rightarrow> Raw (Json JNull) | p \<Rightarrow> p),
                   msg_Headers := nil_if_empty (msg_Headers m),
                   msg_Metadata := nil_if_empty (msg_Metadata m)\<rparr>"

lemma wire_form_sel [simp]:
  "msg_ID (wire_form m) = msg_ID m" "msg_Topic (wire_form m) = msg_Topic m"
  "msg_Timestamp (wire_form m) = msg_Timestamp m"
  by (simp_all add: wire_form_def)

lemma message_roundtrip [wire]:
  assumes "message_json m = Inr j" and "message_ok m"
  shows "decode_message j = Inr (wire_form m)"
proof -
  obtain p ts where p: "raw_json (msg_Payload m) = Inr p" and ts: "time_json (msg_Timestamp m) = Inr ts"
    using assms(1) by (auto simp: message_json_def split: sum.splits)
  have j: "j = JObj
          ([(''id'', JStr (msg_ID m)), (''topic'', JStr (msg_Topic m)), (''payload'', p)]
           @ omit_empty ''headers'' string_map_json (msg_Headers m)
           @ [(''timestamp'', ts)]
           @ omit_empty ''metadata'' any_map_json (msg_Metadata m))"
    using assms(1) p ts by (simp add: message_json_def)
  have payload: "(case msg_Payload m of RawNil \<Rightarrow> Raw (Json JNull) | p \<Rightarrow> p) = Raw (Json p)"
    using p by (auto simp: raw_json_def split: raw_message.splits gotext.splits)
  note time = set_time_json [OF ts]
  have ok: "t_off (msg_Timestamp m) mod 60 = 0" using assms(2) by (simp add: message_ok_def)
  have headers: "set_strings msg_Headers upd (string_map_json h) r = Inr (upd (Some h) r)"
    if "msg_Headers m = Some h" "msg_Headers r = None" for h upd and r :: Message
    using assms(2) that by (intro set_strings_map) (auto simp: message_ok_def)
  have metadata: "set_any msg_Metadata upd (any_map_json h) r = Inr (upd (Some h) r)"
    if "msg_Metadata m = Some h" "msg_Metadata r = None" for h upd and r :: Message
    using assms(2) that by (intro set_any_map) (auto simp: message_ok_def)
  show ?thesis
    unfolding j decode_message_def decode_struct_def
    by (cases "msg_Headers m"; cases "msg_Metadata m"; simp add: message_fields_def find_field_def
        set_raw_def time [OF ok] zero_Message_def omit_empty_def wire_form_def nil_if_empty_def payload
        headers metadata split: list.splits)
qed

lemma Unmarshal_message_Json [simp]: "Unmarshal_message (Json j) = decode_message j"
  by (simp add: Unmarshal_message_def Unmarshal_struct_def decode_message_def)

section \<open>What decoding guarantees\<close>

lemma wire_form_idem [simp]: "wire_form (wire_form m) = wire_form m"
  by (cases m) (auto simp: wire_form_def nil_if_empty_def split: raw_message.splits option.splits list.splits)

text \<open>Encoding a message again gives the same document.\<close>

lemma message_json_wire_form [simp, wire]: "message_json (wire_form m) = message_json m"
  by (auto simp: message_json_def wire_form_def nil_if_empty_def omit_empty_def raw_json_def
      split: raw_message.splits option.splits list.splits sum.splits)

lemma message_ok_wire_form [simp]: "message_ok m \<Longrightarrow> message_ok (wire_form m)"
  by (auto simp: message_ok_def wire_form_def nil_if_empty_def split: option.splits list.splits)

lemma find_field_in: "find_field fs n = Some f \<Longrightarrow> f \<in> snd ` set fs"
  by (force simp: find_field_def find_Some_iff in_set_conv_nth split: option.splits dest: map_of_SomeD)

text \<open>What every field setter keeps, decoding keeps.\<close>

lemma decode_members_inv:
  assumes step: "\<And>f v r r'. f \<in> snd ` set fs \<Longrightarrow> f v r = Inr r' \<Longrightarrow> P r \<Longrightarrow> P r'"
    and "decode_members fs ms r = Inr r'" and "P r"
  shows "P r'"
  using assms(2,3)
proof (induction ms arbitrary: r)
  case Nil
  then show ?case by simp
next
  case (Cons x ms)
  obtain n v where x: "x = (n, v)" by (cases x)
  show ?case
  proof (cases "find_field fs n")
    case None
    with Cons show ?thesis by (simp add: x)
  next
    case (Some f)
    with Cons.prems obtain r1 where r1: "f v r = Inr r1" "decode_members fs ms r1 = Inr r'"
      by (auto simp: x split: sum.splits)
    have "P r1" using find_field_in [OF Some] r1(1) Cons.prems(2) by (rule step)
    with r1(2) show ?thesis by (rule Cons.IH)
  qed
qed

lemma parse_zone_whole: "parse_zone s = Some (off, r) \<Longrightarrow> off mod 60 = 0"
proof -
  have "zone_offset z h m mod 60 = 0" for z h m
    unfolding zone_offset_def by (rule mod_mult_self2_is_0)
  then show "parse_zone s = Some (off, r) \<Longrightarrow> off mod 60 = 0"
    by (auto simp: parse_zone_def bind_eq_Some_conv split: list.splits if_splits)
qed

lemma parse_rfc3339_whole: "parse_rfc3339 s = Some t \<Longrightarrow> t_off t mod 60 = 0"
  by (auto simp: parse_rfc3339_def bind_eq_Some_conv split_def Let_def parse_zone_whole
      split: if_splits)

lemma put_strings_ok: "put_strings ms m = Inr m' \<Longrightarrow> map_ok m \<Longrightarrow> map_ok m'"
  by (induction ms m rule: put_strings.induct) (auto split: json.splits)

lemma any_ok_fold_put:
  assumes "\<forall>(k, v) \<in> set h. any_ok v"
  shows "\<forall>(k, v) \<in> set (fold (\<lambda>(k, v). map_put k (any_value v)) xs h). any_ok v"
  using assms by (force dest!: in_fold_put simp: any_value_idem)

lemma set_string_inv: "set_string upd v r = Inr r' \<Longrightarrow> P r \<Longrightarrow> (\<And>s. P (upd s r)) \<Longrightarrow> P r'"
  by (auto simp: set_string_def split: json.splits)

lemma set_time_inv:
  "set_time upd v r = Inr r' \<Longrightarrow> P r \<Longrightarrow> (\<And>t. t_off t mod 60 = 0 \<Longrightarrow> P (upd t r)) \<Longrightarrow> P r'"
  by (auto simp: set_time_def parse_rfc3339_whole split: json.splits option.splits)

lemma set_strings_inv:
  "set_strings get upd v r = Inr r' \<Longrightarrow> (\<And>h. get r = Some h \<Longrightarrow> map_ok h) \<Longrightarrow> P (upd None r) \<Longrightarrow>
    (\<And>h. map_ok h \<Longrightarrow> P (upd (Some h) r)) \<Longrightarrow> P r'"
  by (auto simp: set_strings_def split: json.splits sum.splits option.splits dest: put_strings_ok)

lemma set_any_inv:
  assumes "set_any get upd v r = Inr r'" and "P (upd None r)"
    and "\<And>h. get r = Some h \<Longrightarrow> map_ok h \<and> (\<forall>(k, v) \<in> set h. any_ok v)"
    and "\<And>h. map_ok h \<Longrightarrow> \<forall>(k, v) \<in> set h. any_ok v \<Longrightarrow> P (upd (Some h) r)"
  shows "P r'"
proof -
  define h0 where "h0 = (case get r of None \<Rightarrow> [] | Some m \<Rightarrow> m)"
  have "map_ok h0 \<and> (\<forall>(k, v) \<in> set h0. any_ok v)"
    using assms(3) by (auto simp: h0_def split: option.splits)
  then have "P (upd (Some (fold (\<lambda>(k, v). map_put k (any_value v)) ms h0)) r)" for ms
    by (intro assms(4) map_ok_fold_put any_ok_fold_put) auto
  then show ?thesis
    using assms(1,2) by (auto simp: set_any_def h0_def [symmetric] split: json.splits)
qed

lemma message_setter_ok:
  assumes "f \<in> snd ` set message_fields" and "f v m = Inr m'" and "message_ok m"
  shows "message_ok m'"
proof -
  from assms(1) consider
    "f = set_string (\<lambda>s m. m\<lparr>msg_ID := s\<rparr>)" | "f = set_string (\<lambda>s m. m\<lparr>msg_Topic := s\<rparr>)"
  | "f = set_raw (\<lambda>j m. m\<lparr>msg_Payload := Raw (Json j)\<rparr>)"
  | "f = set_strings msg_Headers (\<lambda>h m. m\<lparr>msg_Headers := h\<rparr>)"
  | "f = set_time (\<lambda>t m. m\<lparr>msg_Timestamp := t\<rparr>)"
  | "f = set_any msg_Metadata (\<lambda>h m. m\<lparr>msg_Metadata := h\<rparr>)"
    by (auto simp: message_fields_def)
  then show ?thesis
  proof cases
    case 1
    with assms(2) have "set_string (\<lambda>s m. m\<lparr>msg_ID := s\<rparr>) v m = Inr m'" by simp
    then show ?thesis by (rule set_string_inv) (use assms(3) in \<open>auto simp: message_ok_def\<close>)
  next
    case 2
    with assms(2) have "set_string (\<lambda>s m. m\<lparr>msg_Topic := s\<rparr>) v m = Inr m'" by simp
    then show ?thesis by (rule set_string_inv) (use assms(3) in \<open>auto simp: message_ok_def\<close>)
  next
    case 3
    with assms(2,3) show ?thesis by (auto simp: set_raw_def message_ok_def)
  next
    case 4
    with assms(2) have "set_strings msg_Headers (\<lambda>h m. m\<lparr>msg_Headers := h\<rparr>) v m = Inr m'" by simp
    then show ?thesis by (rule set_strings_inv) (use assms(3) in \<open>auto simp: message_ok_def\<close>)
  next
    case 5
    with assms(2) have "set_time (\<lambda>t m. m\<lparr>msg_Timestamp := t\<rparr>) v m = Inr m'" by simp
    then show ?thesis by (rule set_time_inv) (use assms(3) in \<open>auto simp: message_ok_def\<close>)
  next
    case 6
    with assms(2) have "set_any msg_Metadata (\<lambda>h m. m\<lparr>msg_Metadata := h\<rparr>) v m = Inr m'" by simp
    then show ?thesis by (rule set_any_inv) (use assms(3) in \<open>auto simp: message_ok_def\<close>)
  qed
qed

lemma decode_message_ok: "decode_message j = Inr m \<Longrightarrow> message_ok m"
proof -
  assume d: "decode_message j = Inr m"
  have zero: "message_ok zero_Message"
    by (simp add: message_ok_def zero_Message_def zero_time_def)
  have "message_ok m" if "decode_members message_fields ms zero_Message = Inr m" for ms
    by (rule decode_members_inv [where P = message_ok, OF _ that zero]) (rule message_setter_ok)
  with d zero show ?thesis
    by (auto simp: decode_message_def decode_struct_def split: json.splits)
qed

lemma Unmarshal_message_ok: "Unmarshal_message x = Inr m \<Longrightarrow> message_ok m"
  by (cases x) (auto simp: Unmarshal_message_def Unmarshal_struct_def decode_message_ok
      simp flip: decode_message_def)

end
