(* ===== verification/RedisBackend.thy ===== *)
theory RedisBackend
  imports Message
begin

text \<open>
  The outside world of the queue service: a Redis server reached through go-redis, and the
  clock. Neither is part of the repository, so both are a parameter: a record of the commands
  the service sends, over an arbitrary type \<open>'w\<close> of worlds. What the service relies on is
  stated as the laws of two locales, in the words of the Redis command reference; a store
  kept in memory shows that the laws can be met.
\<close>

section \<open>The commands\<close>

text \<open>
  Every command takes the world and returns its reply and the new world; an error reply is
  \<open>Inl\<close>. \<open>Now\<close> reads the clock (\<open>time.Now\<close>).
\<close>

record 'w redis =
  LPush :: "string \<Rightarrow> gotext \<Rightarrow> 'w \<Rightarrow> (error + int) \<times> 'w"
  RPush :: "string \<Rightarrow> gotext \<Rightarrow> 'w \<Rightarrow> (error + int) \<times> 'w"
  BRPop :: "string \<Rightarrow> 'w \<Rightarrow> (error + gotext list) \<times> 'w"
  LLen :: "string \<Rightarrow> 'w \<Rightarrow> (error + int) \<times> 'w"
  ZAdd :: "string \<Rightarrow> int \<Rightarrow> gotext \<Rightarrow> 'w \<Rightarrow> (error + int) \<times> 'w"
  ZRem :: "string \<Rightarrow> gotext \<Rightarrow> 'w \<Rightarrow> (error + int) \<times> 'w"
  ZRange :: "string \<Rightarrow> 'w \<Rightarrow> (error + gotext list) \<times> 'w"
  ZRangeByScore :: "string \<Rightarrow> int \<Rightarrow> 'w \<Rightarrow> (error + gotext list) \<times> 'w"
  ZCard :: "string \<Rightarrow> 'w \<Rightarrow> (error + int) \<times> 'w"
  Keys :: "string \<Rightarrow> 'w \<Rightarrow> (error + string list) \<times> 'w"
  Now :: "'w \<Rightarrow> go_time"

section \<open>What the server holds\<close>

text \<open>
  The lists by key, from head (left) to tail (right), and the sorted sets by key, each a map
  from member to score.
\<close>

record store =
  lists :: "string \<Rightarrow> gotext list"
  zsets :: "string \<Rightarrow> gotext \<Rightarrow> int option"

definition push_left :: "string \<Rightarrow> gotext \<Rightarrow> store \<Rightarrow> store" where
  "push_left k v d = d\<lparr>lists := (lists d)(k := v # lists d k)\<rparr>"

definition push_right :: "string \<Rightarrow> gotext \<Rightarrow> store \<Rightarrow> store" where
  "push_right k v d = d\<lparr>lists := (lists d)(k := lists d k @ [v])\<rparr>"

definition pop_right :: "string \<Rightarrow> store \<Rightarrow> store" where
  "pop_right k d = d\<lparr>lists := (lists d)(k := butlast (lists d k))\<rparr>"

definition zset_add :: "string \<Rightarrow> int \<Rightarrow> gotext \<Rightarrow> store \<Rightarrow> store" where
  "zset_add k s m d = d\<lparr>zsets := (zsets d)(k := (zsets d k)(m \<mapsto> s))\<rparr>"

definition zset_remove :: "string \<Rightarrow> gotext \<Rightarrow> store \<Rightarrow> store" where
  "zset_remove k m d = d\<lparr>zsets := (zsets d)(k := (zsets d k)(m := None))\<rparr>"

lemma push_left_sel [simp]:
  "lists (push_left k v d) = (lists d)(k := v # lists d k)" "zsets (push_left k v d) = zsets d"
  by (simp_all add: push_left_def)

lemma push_right_sel [simp]:
  "lists (push_right k v d) = (lists d)(k := lists d k @ [v])" "zsets (push_right k v d) = zsets d"
  by (simp_all add: push_right_def)

lemma pop_right_sel [simp]:
  "lists (pop_right k d) = (lists d)(k := butlast (lists d k))" "zsets (pop_right k d) = zsets d"
  by (simp_all add: pop_right_def)

lemma zset_add_sel [simp]:
  "lists (zset_add k s m d) = lists d" "zsets (zset_add k s m d) = (zsets d)(k := (zsets d k)(m \<mapsto> s))"
  by (simp_all add: zset_add_def)

lemma zset_remove_sel [simp]:
  "lists (zset_remove k m d) = lists d"
  "zsets (zset_remove k m d) = (zsets d)(k := (zsets d k)(m := None))"
  by (simp_all add: zset_remove_def)

text \<open>Members come back in the order of their scores.\<close>

definition in_score_order :: "(gotext \<Rightarrow> int option) \<Rightarrow> gotext list \<Rightarrow> bool" where
  "in_score_order z ms \<longleftrightarrow> distinct ms \<and> sorted_wrt (\<lambda>a b. the (z a) \<le> the (z b)) ms"

section \<open>The laws\<close>

text \<open>
  A command that replies without an error did what the reference says. A command that ends in
  an error was refused, or was executed and the reply was lost: the data are as before, or as
  after a success. The clock's zone is a whole number of minutes away from UTC.
\<close>

locale redis_server =
  fixes R :: "'w redis" and data :: "'w \<Rightarrow> store"
  assumes LPush_ok: "LPush R k v w = (Inr n, w') \<Longrightarrow> data w' = push_left k v (data w)"
    and LPush_err: "LPush R k v w = (Inl e, w') \<Longrightarrow> data w' = data w \<or> data w' = push_left k v (data w)"
    and RPush_ok: "RPush R k v w = (Inr n, w') \<Longrightarrow> data w' = push_right k v (data w)"
    and RPush_err: "RPush R k v w = (Inl e, w') \<Longrightarrow> data w' = data w \<or> data w' = push_right k v (data w)"
    and BRPop_ok: "BRPop R k w = (Inr xs, w') \<Longrightarrow>
        lists (data w) k \<noteq> [] \<and> xs = [Plain k, last (lists (data w) k)] \<and> data w' = pop_right k (data w)"
    and BRPop_nil: "BRPop R k w = (Inl RedisNil, w') \<Longrightarrow> lists (data w) k = [] \<and> data w' = data w"
    and BRPop_err: "BRPop R k w = (Inl e, w') \<Longrightarrow> data w' = data w \<or> data w' = pop_right k (data w)"
    and LLen_ok: "LLen R k w = (Inr n, w') \<Longrightarrow> n = int (length (lists (data w) k)) \<and> data w' = data w"
    and LLen_err: "LLen R k w = (Inl e, w') \<Longrightarrow> data w' = data w"
    and ZAdd_ok: "ZAdd R k s m w = (Inr n, w') \<Longrightarrow> data w' = zset_add k s m (data w)"
    and ZAdd_err: "ZAdd R k s m w = (Inl e, w') \<Longrightarrow> data w' = data w \<or> data w' = zset_add k s m (data w)"
    and ZRem_ok: "ZRem R k m w = (Inr n, w') \<Longrightarrow> data w' = zset_remove k m (data w)"
    and ZRem_err: "ZRem R k m w = (Inl e, w') \<Longrightarrow> data w' = data w \<or> data w' = zset_remove k m (data w)"
    and ZRange_ok: "ZRange R k w = (Inr ms, w') \<Longrightarrow>
        in_score_order (zsets (data w) k) ms \<and> set ms = dom (zsets (data w) k) \<and> data w' = data w"
    and ZRange_err: "ZRange R k w = (Inl e, w') \<Longrightarrow> data w' = data w"
    and ZRangeByScore_ok: "ZRangeByScore R k mx w = (Inr ms, w') \<Longrightarrow>
        in_score_order (zsets (data w) k) ms
        \<and> set ms = {m. \<exists>s. zsets (data w) k m = Some s \<and> s \<le> mx} \<and> data w' = data w"
    and ZRangeByScore_err: "ZRangeByScore R k mx w = (Inl e, w') \<Longrightarrow> data w' = data w"
    and ZCard_ok: "ZCard R k w = (Inr n, w') \<Longrightarrow> n = int (card (dom (zsets (data w) k))) \<and> data w' = data w"
    and ZCard_err: "ZCard R k w = (Inl e, w') \<Longrightarrow> data w' = data w"
    and Keys_ok: "Keys R (p @ ''*'') w = (Inr ks, w') \<Longrightarrow>
        distinct ks \<and> data w' = data w
        \<and> set ks = {k. HasPrefix k p \<and> (lists (data w) k \<noteq> [] \<or> dom (zsets (data w) k) \<noteq> {})}"
    and Keys_err: "Keys R p w = (Inl e, w') \<Longrightarrow> data w' = data w"
    and Now_whole: "t_off (Now R w) mod 60 = 0"

text \<open>A server that answers every command: only the pop of an empty list replies with nil.\<close>

locale redis_reliable = redis_server +
  assumes LPush_total: "\<exists>n w'. LPush R k v w = (Inr n, w')"
    and RPush_total: "\<exists>n w'. RPush R k v w = (Inr n, w')"
    and BRPop_total: "(\<exists>xs w'. BRPop R k w = (Inr xs, w')) \<or> (\<exists>w'. BRPop R k w = (Inl RedisNil, w'))"
    and ZAdd_total: "\<exists>n w'. ZAdd R k s m w = (Inr n, w')"
    and ZRem_total: "\<exists>n w'. ZRem R k m w = (Inr n, w')"
    and ZRange_total: "\<exists>ms w'. ZRange R k w = (Inr ms, w')"
    and ZRangeByScore_total: "\<exists>ms w'. ZRangeByScore R k mx w = (Inr ms, w')"
    and Keys_total: "\<exists>ks w'. Keys R p w = (Inr ks, w')"

section \<open>A store that meets the laws\<close>

text \<open>
  Lists and sorted sets in memory, a clock that stands still (between 1970 and 2096), and a list of faults: each
  command takes the next fault, and a fault makes it reply with an error without being
  executed. No fault left means no error. The witnesses of the theorems run on this store.
\<close>

record mem =
  mem_lists :: "gotext list gomap"
  mem_zsets :: "(gotext \<times> int) list gomap"
  mem_now :: int
  mem_faults :: "bool list"

definition mem_list :: "mem \<Rightarrow> string \<Rightarrow> gotext list" where
  "mem_list w k = (case map_of (mem_lists w) k of None \<Rightarrow> [] | Some xs \<Rightarrow> xs)"

definition mem_zset :: "mem \<Rightarrow> string \<Rightarrow> (gotext \<times> int) list" where
  "mem_zset w k = (case map_of (mem_zsets w) k of None \<Rightarrow> [] | Some xs \<Rightarrow> xs)"

definition mem_data :: "mem \<Rightarrow> store" where
  "mem_data w = \<lparr>lists = mem_list w, zsets = (\<lambda>k. map_of (mem_zset w k))\<rparr>"

definition connection_refused :: error where
  "connection_refused = External ''connection refused''"

text \<open>Run a command unless the next fault stops it.\<close>

definition unless_fault :: "(mem \<Rightarrow> (error + 'a) \<times> mem) \<Rightarrow> mem \<Rightarrow> (error + 'a) \<times> mem" where
  "unless_fault f w =
     (case mem_faults w of [] \<Rightarrow> f w
      | b # bs \<Rightarrow> if b then (Inl connection_refused, w\<lparr>mem_faults := bs\<rparr>) else f (w\<lparr>mem_faults := bs\<rparr>))"

definition set_list :: "string \<Rightarrow> gotext list \<Rightarrow> mem \<Rightarrow> mem" where
  "set_list k xs w = w\<lparr>mem_lists := map_put k xs (mem_lists w)\<rparr>"

definition set_zset :: "string \<Rightarrow> (gotext \<times> int) list \<Rightarrow> mem \<Rightarrow> mem" where
  "set_zset k xs w = w\<lparr>mem_zsets := map_put k xs (mem_zsets w)\<rparr>"

fun zput :: "gotext \<Rightarrow> int \<Rightarrow> (gotext \<times> int) list \<Rightarrow> (gotext \<times> int) list" where
  "zput m s [] = [(m, s)]"
| "zput m s ((m', s') # xs) = (if m = m' then (m, s) # xs else (m', s') # zput m s xs)"

definition zmembers :: "(gotext \<times> int) list \<Rightarrow> gotext list" where
  "zmembers xs = sort_key (\<lambda>m. the (map_of xs m)) (remdups (map fst xs))"

definition mem_redis :: "mem redis" where
  "mem_redis = \<lparr>
     LPush = (\<lambda>k v. unless_fault (\<lambda>w. (Inr (int (length (mem_list w k)) + 1), set_list k (v # mem_list w k) w))),
     RPush = (\<lambda>k v. unless_fault (\<lambda>w. (Inr (int (length (mem_list w k)) + 1), set_list k (mem_list w k @ [v]) w))),
     BRPop = (\<lambda>k. unless_fault (\<lambda>w. if mem_list w k = [] then (Inl RedisNil, w)
        else (Inr [Plain k, last (mem_list w k)], set_list k (butlast (mem_list w k)) w))),
     LLen = (\<lambda>k. unless_fault (\<lambda>w. (Inr (int (length (mem_list w k))), w))),
     ZAdd = (\<lambda>k s m. unless_fault (\<lambda>w. (Inr 1, set_zset k (zput m s (mem_zset w k)) w))),
     ZRem = (\<lambda>k m. unless_fault (\<lambda>w. (Inr 1, set_zset k (filter (\<lambda>(m', s). m' \<noteq> m) (mem_zset w k)) w))),
     ZRange = (\<lambda>k. unless_fault (\<lambda>w. (Inr (zmembers (mem_zset w k)), w))),
     ZRangeByScore = (\<lambda>k mx. unless_fault
        (\<lambda>w. (Inr (filter (\<lambda>m. the (map_of (mem_zset w k) m) \<le> mx) (zmembers (mem_zset w k))), w))),
     ZCard = (\<lambda>k. unless_fault (\<lambda>w. (Inr (int (length (zmembers (mem_zset w k)))), w))),
     Keys = (\<lambda>p. unless_fault (\<lambda>w. (Inr (filter (\<lambda>k. HasPrefix k (butlast p)
        \<and> (mem_list w k \<noteq> [] \<or> mem_zset w k \<noteq> []))
        (remdups (map fst (mem_lists w) @ map fst (mem_zsets w)))), w))),
     Now = (\<lambda>w. \<lparr>t_ns = max 0 (min (mem_now w) (4000000000 * second)), t_off = 0\<rparr>)\<rparr>"

text \<open>The store in memory meets the laws.\<close>

lemma mem_data_set_list: "mem_data (set_list k xs w) = (mem_data w)\<lparr>lists := (lists (mem_data w))(k := xs)\<rparr>"
  by (simp add: mem_data_def set_list_def mem_list_def mem_zset_def fun_eq_iff)

lemma mem_data_set_zset:
  "mem_data (set_zset k xs w) = (mem_data w)\<lparr>zsets := (zsets (mem_data w))(k := map_of xs)\<rparr>"
  by (simp add: mem_data_def set_zset_def mem_list_def mem_zset_def fun_eq_iff)

lemma mem_data_sel [simp]: "lists (mem_data w) k = mem_list w k" "zsets (mem_data w) k = map_of (mem_zset w k)"
  by (simp_all add: mem_data_def)

lemma mem_data_faults [simp]: "mem_data (w\<lparr>mem_faults := bs\<rparr>) = mem_data w"
  by (simp add: mem_data_def mem_list_def mem_zset_def fun_eq_iff)

lemma mem_faults_sel [simp]:
  "mem_list (w\<lparr>mem_faults := bs\<rparr>) k = mem_list w k" "mem_zset (w\<lparr>mem_faults := bs\<rparr>) k = mem_zset w k"
  by (simp_all add: mem_list_def mem_zset_def)

lemma map_of_zput [simp]: "map_of (zput m s xs) = (map_of xs)(m \<mapsto> s)"
  by (induction m s xs rule: zput.induct) auto

lemma map_of_zrem [simp]: "map_of (filter (\<lambda>(m', s). m' \<noteq> m) xs) = (map_of xs)(m := None)"
  by (induction xs) (auto simp: fun_eq_iff)

lemma zmembers_props: "in_score_order (map_of xs) (zmembers xs)" "set (zmembers xs) = dom (map_of xs)"
proof -
  have "sorted (map (\<lambda>m. the (map_of xs m)) (zmembers xs))" by (simp add: zmembers_def)
  then show "in_score_order (map_of xs) (zmembers xs)"
    by (simp add: in_score_order_def zmembers_def sorted_map)
  show "set (zmembers xs) = dom (map_of xs)" by (simp add: zmembers_def dom_map_of_conv_image_fst)
qed

lemma length_zmembers: "length (zmembers xs) = card (dom (map_of xs))"
  using zmembers_props [of xs] by (metis distinct_card in_score_order_def)

lemma mem_keys:
  "mem_list w k \<noteq> [] \<Longrightarrow> k \<in> fst ` set (mem_lists w)"
  "mem_zset w k \<noteq> [] \<Longrightarrow> k \<in> fst ` set (mem_zsets w)"
  by (force simp: mem_list_def mem_zset_def split: option.splits dest: map_of_SomeD)+

lemma in_score_order_filter: "in_score_order z ms \<Longrightarrow> in_score_order z (filter P ms)"
  by (auto simp: in_score_order_def intro: sorted_wrt_filter)

lemma unless_fault_cases:
  assumes "unless_fault f w = (r, w')"
  obtains (fault) bs where "r = Inl connection_refused" "w' = w\<lparr>mem_faults := bs\<rparr>"
  | (run) bs where "f (w\<lparr>mem_faults := bs\<rparr>) = (r, w')"
proof (cases "mem_faults w")
  case Nil
  then have "w = w\<lparr>mem_faults := []\<rparr>" by simp
  with Nil assms run [of "[]"] show ?thesis by (simp add: unless_fault_def)
next
  case (Cons b bs)
  with assms fault [of bs] run [of bs] show ?thesis
    by (cases b) (auto simp: unless_fault_def)
qed

interpretation mem: redis_server mem_redis mem_data
proof (unfold_locales, goal_cases)
  case (1 k v w n w')
  then show ?case
    by (auto simp: mem_redis_def mem_data_set_list push_left_def elim!: unless_fault_cases)
qed (auto simp: mem_redis_def mem_data_set_list mem_data_set_zset push_left_def push_right_def
      pop_right_def zset_add_def zset_remove_def connection_refused_def zmembers_props
      in_score_order_filter length_zmembers dest: mem_keys elim!: unless_fault_cases split: if_splits)

text \<open>The same store without faults: it answers every command.\<close>

definition calm :: "mem \<Rightarrow> mem" where
  "calm w = w\<lparr>mem_faults := []\<rparr>"

definition calm_redis :: "mem redis" where
  "calm_redis = \<lparr>
     LPush = (\<lambda>k v w. LPush mem_redis k v (calm w)),
     RPush = (\<lambda>k v w. RPush mem_redis k v (calm w)),
     BRPop = (\<lambda>k w. BRPop mem_redis k (calm w)),
     LLen = (\<lambda>k w. LLen mem_redis k (calm w)),
     ZAdd = (\<lambda>k s m w. ZAdd mem_redis k s m (calm w)),
     ZRem = (\<lambda>k m w. ZRem mem_redis k m (calm w)),
     ZRange = (\<lambda>k w. ZRange mem_redis k (calm w)),
     ZRangeByScore = (\<lambda>k mx w. ZRangeByScore mem_redis k mx (calm w)),
     ZCard = (\<lambda>k w. ZCard mem_redis k (calm w)),
     Keys = (\<lambda>p w. Keys mem_redis p (calm w)),
     Now = Now mem_redis\<rparr>"

lemma calm_data [simp]: "mem_data (calm w) = mem_data w"
  by (simp add: calm_def)

lemma calm_sel [simp]: "mem_list (calm w) k = mem_list w k" "mem_zset (calm w) k = mem_zset w k"
  "mem_lists (calm w) = mem_lists w" "mem_zsets (calm w) = mem_zsets w"
  by (simp_all add: calm_def)

lemma unless_fault_calm [simp]: "unless_fault f (calm w) = f (calm w)"
  by (simp add: unless_fault_def calm_def)

interpretation calm: redis_reliable calm_redis mem_data
  by unfold_locales (auto simp: calm_redis_def mem_redis_def mem_data_set_list mem_data_set_zset
      push_left_def push_right_def pop_right_def zset_add_def zset_remove_def zmembers_props
      in_score_order_filter length_zmembers split: if_splits dest: mem_keys)

end
