(* ===== verification/RedisQueue.thy ===== *)
theory RedisQueue
  imports RedisBackend
begin

text \<open>
  The competing-consumer queue, \<open>internal/queueservice/redis_queue.go\<close>: messages wait in one
  Redis list per topic, delivered messages wait for their acknowledgement in one sorted set per
  topic and consumer group (the pending entries), and expired entries go back to the list or to
  the dead letter queue. Logging and the always empty \<open>notifyConsumers\<close> leave no trace.
\<close>

section \<open>Data\<close>

record QueueConsumer =
  qc_ID :: string
  qc_EventsCh :: "Message list"  \<comment> \<open>buffered, 100 messages\<close>

record QueueConsumerGroup =
  qg_Name :: string
  qg_Consumers :: "QueueConsumer gomap"

record PendingEntry =
  pe_Message :: "Message option"
  pe_ConsumerGroup :: string
  pe_ConsumerID :: string
  pe_VisibleAt :: go_time
  pe_DeliveryCount :: int

text \<open>
  The fields of the service that are not connections or locks. \<open>rq_deliverers\<close> records the
  delivery goroutines that were started, one entry per start.
\<close>

record RedisQueue =
  rq_visibilityTimeout :: duration
  rq_maxRetries :: int
  rq_consumerGroups :: "QueueConsumerGroup gomap gomap"
  rq_deadLetterQueue :: "PendingEntry list"
  rq_deliverers :: "(string \<times> string) list"

definition NewRedisQueue :: "duration \<Rightarrow> int \<Rightarrow> RedisQueue" where
  "NewRedisQueue visibilityTimeout maxRetries =
     \<lparr>rq_visibilityTimeout = visibilityTimeout, rq_maxRetries = maxRetries,
      rq_consumerGroups = [], rq_deadLetterQueue = [], rq_deliverers = []\<rparr>"

definition queueKey :: "string \<Rightarrow> string" where
  "queueKey topic = ''queue:'' @ topic"

definition pelKey :: "string \<Rightarrow> string \<Rightarrow> string" where
  "pelKey topic consumerGroup = ''pel:'' @ topic @ '':'' @ consumerGroup"

section \<open>The JSON form of a pending entry\<close>

definition entry_json :: "PendingEntry \<Rightarrow> error + json" where
  "entry_json e =
     (case (case pe_Message e of None \<Rightarrow> Inr JNull | Some m \<Rightarrow> message_json m) of Inl er \<Rightarrow> Inl er
      | Inr mj \<Rightarrow> (case time_json (pe_VisibleAt e) of Inl er \<Rightarrow> Inl er
      | Inr ts \<Rightarrow> Inr (JObj [(''Message'', mj), (''ConsumerGroup'', JStr (pe_ConsumerGroup e)),
          (''ConsumerID'', JStr (pe_ConsumerID e)), (''VisibleAt'', ts),
          (''DeliveryCount'', JInt (pe_DeliveryCount e))])))"

definition zero_PendingEntry :: PendingEntry where
  "zero_PendingEntry = \<lparr>pe_Message = None, pe_ConsumerGroup = [], pe_ConsumerID = [],
     pe_VisibleAt = zero_time, pe_DeliveryCount = 0\<rparr>"

definition entry_fields :: "(string \<times> PendingEntry setter) list" where
  "entry_fields =
     [(''Message'', set_pointer message_fields zero_Message pe_Message (\<lambda>m e. e\<lparr>pe_Message := m\<rparr>)),
      (''ConsumerGroup'', set_string (\<lambda>s e. e\<lparr>pe_ConsumerGroup := s\<rparr>)),
      (''ConsumerID'', set_string (\<lambda>s e. e\<lparr>pe_ConsumerID := s\<rparr>)),
      (''VisibleAt'', set_time (\<lambda>t e. e\<lparr>pe_VisibleAt := t\<rparr>)),
      (''DeliveryCount'', set_int (\<lambda>i e. e\<lparr>pe_DeliveryCount := i\<rparr>))]"

definition Unmarshal_entry :: "gotext \<Rightarrow> error + PendingEntry" where
  "Unmarshal_entry = Unmarshal_struct entry_fields zero_PendingEntry"

section \<open>Publishing and popping\<close>

definition Publish :: "'w redis \<Rightarrow> Message \<Rightarrow> 'w \<Rightarrow> error option \<times> 'w" where
  "Publish R msg w =
     (case message_json msg of Inl e \<Rightarrow> (Some (Wrapf ''failed to marshal message'' e), w)
      | Inr j \<Rightarrow> (case LPush R (queueKey (msg_Topic msg)) (Json j) w of
            (Inl e, w1) \<Rightarrow> (Some (Wrapf ''failed to publish message'' e), w1)
          | (Inr n, w1) \<Rightarrow> (None, w1)))"

text \<open>A nil message with a nil error means that the wait for a message timed out.\<close>

definition popMessage :: "'w redis \<Rightarrow> string \<Rightarrow> 'w \<Rightarrow> (error + Message option) \<times> 'w" where
  "popMessage R topic w =
     (case BRPop R (queueKey topic) w of
        (Inl e, w1) \<Rightarrow> if e = RedisNil then (Inr None, w1)
                      else (Inl (Wrapf ''failed to pop message'' e), w1)
      | (Inr result, w1) \<Rightarrow>
          if length result < 2 then (Inr None, w1)
          else (case Unmarshal_message (result ! 1) of
              Inl e \<Rightarrow> (Inl (Wrapf ''failed to unmarshal message'' e), w1)
            | Inr msg \<Rightarrow> (Inr (Some msg), w1)))"

text \<open>The message is a pointer; a nil one is dereferenced for its topic.\<close>

definition newEntry :: "Message \<Rightarrow> string \<Rightarrow> string \<Rightarrow> go_time \<Rightarrow> PendingEntry" where
  "newEntry msg consumerGroup consumerID visibleAt =
     \<lparr>pe_Message = Some msg, pe_ConsumerGroup = consumerGroup, pe_ConsumerID = consumerID,
      pe_VisibleAt = visibleAt, pe_DeliveryCount = 1\<rparr>"

definition addToPEL :: "'w redis \<Rightarrow> duration \<Rightarrow> Message option \<Rightarrow> string \<Rightarrow> string \<Rightarrow> 'w
    \<Rightarrow> error option outcome \<times> 'w" where
  "addToPEL R visibilityTimeout mp consumerGroup consumerID w =
     (case mp of None \<Rightarrow> (Panics NilDereference, w)
      | Some msg \<Rightarrow>
         (let visibleAt = time_Add (Now R w) visibilityTimeout
          in case entry_json (newEntry msg consumerGroup consumerID visibleAt) of
               Inl e \<Rightarrow> (Returns (Some (Wrapf ''failed to marshal PEL entry'' e)), w)
             | Inr j \<Rightarrow> (case ZAdd R (pelKey (msg_Topic msg) consumerGroup) (Unix visibleAt) (Json j) w of
                   (Inl e, w1) \<Rightarrow> (Returns (Some (Wrapf ''failed to add to PEL'' e)), w1)
                 | (Inr n, w1) \<Rightarrow> (Returns None, w1))))"

definition requeueMessage :: "'w redis \<Rightarrow> Message option \<Rightarrow> 'w \<Rightarrow> error option outcome \<times> 'w" where
  "requeueMessage R mp w =
     (case mp of None \<Rightarrow> (Panics NilDereference, w)
      | Some msg \<Rightarrow>
         (case message_json msg of Inl e \<Rightarrow> (Returns (Some (Wrapf ''failed to marshal message'' e)), w)
          | Inr j \<Rightarrow> (case RPush R (queueKey (msg_Topic msg)) (Json j) w of
                (Inl e, w1) \<Rightarrow> (Returns (Some (Wrapf ''failed to requeue message'' e)), w1)
              | (Inr n, w1) \<Rightarrow> (Returns None, w1))))"

section \<open>Fetching a batch\<close>

text \<open>
  The loop of \<open>FetchBatch\<close>, with the number of rounds left and the messages collected so far.
  An error of the pop ends the loop; a nil message is passed on to \<open>addToPEL\<close>; the result of the
  requeue is dropped.
\<close>

fun fetchLoop :: "'w redis \<Rightarrow> duration \<Rightarrow> string \<Rightarrow> string \<Rightarrow> string \<Rightarrow> nat \<Rightarrow> Message list \<Rightarrow> 'w
    \<Rightarrow> Message list outcome \<times> 'w" where
  "fetchLoop R vt topic g c 0 messages w = (Returns messages, w)"
| "fetchLoop R vt topic g c (Suc n) messages w =
     (case popMessage R topic w of
        (Inl e, w1) \<Rightarrow> (Returns messages, w1)
      | (Inr msg, w1) \<Rightarrow>
         (case addToPEL R vt msg g c w1 of
            (Panics p, w2) \<Rightarrow> (Panics p, w2)
          | (Returns (Some e), w2) \<Rightarrow>
             (case requeueMessage R msg w2 of
                (Panics p, w3) \<Rightarrow> (Panics p, w3)
              | (Returns r, w3) \<Rightarrow> fetchLoop R vt topic g c n messages w3)
          | (Returns None, w2) \<Rightarrow> fetchLoop R vt topic g c n (messages @ [the msg]) w2))"

definition FetchBatch :: "'w redis \<Rightarrow> RedisQueue \<Rightarrow> string \<Rightarrow> string \<Rightarrow> string \<Rightarrow> int \<Rightarrow> 'w
    \<Rightarrow> (error + Message list) outcome \<times> 'w" where
  "FetchBatch R q topic consumerGroup consumerID cnt w =
     (if cnt < 0 then (Panics MakesliceOutOfRange, w)
      else case fetchLoop R (rq_visibilityTimeout q) topic consumerGroup consumerID (nat cnt) [] w of
          (Panics p, w1) \<Rightarrow> (Panics p, w1)
        | (Returns messages, w1) \<Rightarrow> (Returns (Inr messages), w1))"

section \<open>Acknowledging\<close>

text \<open>
  The scan that \<open>Ack\<close> and \<open>Nack\<close> share: the first entry that decodes and holds the message, as
  the stored text and the decoded entry. An entry with a nil message makes the scan panic.
\<close>

fun find_entry :: "string \<Rightarrow> gotext list \<Rightarrow> (gotext \<times> PendingEntry) option outcome" where
  "find_entry messageID [] = Returns None"
| "find_entry messageID (x # xs) =
     (case Unmarshal_entry x of Inl e \<Rightarrow> find_entry messageID xs
      | Inr entry \<Rightarrow> (case pe_Message entry of None \<Rightarrow> Panics NilDereference
          | Some m \<Rightarrow> if msg_ID m = messageID then Returns (Some (x, entry))
                     else find_entry messageID xs))"

definition Ack :: "'w redis \<Rightarrow> string \<Rightarrow> string \<Rightarrow> string \<Rightarrow> 'w \<Rightarrow> error option outcome \<times> 'w" where
  "Ack R topic consumerGroup messageID w =
     (let key = pelKey topic consumerGroup
      in case ZRange R key w of
           (Inl e, w1) \<Rightarrow> (Returns (Some (Wrapf ''failed to get PEL entries'' e)), w1)
         | (Inr entries, w1) \<Rightarrow>
            (case find_entry messageID entries of
               Panics p \<Rightarrow> (Panics p, w1)
             | Returns None \<Rightarrow> (Returns (Some (Errorf (''message not found in PEL: '' @ messageID))), w1)
             | Returns (Some (x, entry)) \<Rightarrow>
                (case ZRem R key x w1 of
                   (Inl e, w2) \<Rightarrow> (Returns (Some (Wrapf ''failed to remove from PEL'' e)), w2)
                 | (Inr n, w2) \<Rightarrow> (Returns None, w2))))"

definition Nack :: "'w redis \<Rightarrow> string \<Rightarrow> string \<Rightarrow> string \<Rightarrow> 'w \<Rightarrow> error option outcome \<times> 'w" where
  "Nack R topic consumerGroup messageID w =
     (let key = pelKey topic consumerGroup
      in case ZRange R key w of
           (Inl e, w1) \<Rightarrow> (Returns (Some (Wrapf ''failed to get PEL entries'' e)), w1)
         | (Inr entries, w1) \<Rightarrow>
            (case find_entry messageID entries of
               Panics p \<Rightarrow> (Panics p, w1)
             | Returns None \<Rightarrow> (Returns (Some (Errorf (''message not found in PEL: '' @ messageID))), w1)
             | Returns (Some (x, entry)) \<Rightarrow>
                (case ZRem R key x w1 of
                   (Inl e, w2) \<Rightarrow> (Returns (Some (Wrapf ''failed to remove from PEL'' e)), w2)
                 | (Inr n, w2) \<Rightarrow>
                    (case requeueMessage R (pe_Message entry) w2 of
                       (Panics p, w3) \<Rightarrow> (Panics p, w3)
                     | (Returns (Some e), w3) \<Rightarrow> (Returns (Some (Wrapf ''failed to requeue message'' e)), w3)
                     | (Returns None, w3) \<Rightarrow> (Returns None, w3)))))"

section \<open>Expiry\<close>

text \<open>
  The body of the loop over the expired entries of one key. The replies of the removals are not
  looked at. The incremented delivery count lives in the decoded entry only, which is dropped.
\<close>

definition expireEntry :: "'w redis \<Rightarrow> string \<Rightarrow> gotext \<Rightarrow> RedisQueue \<Rightarrow> 'w
    \<Rightarrow> RedisQueue outcome \<times> 'w" where
  "expireEntry R key x q w =
     (case Unmarshal_entry x of Inl e \<Rightarrow> (Returns q, w)
      | Inr entry \<Rightarrow>
         if pe_DeliveryCount entry \<ge> rq_maxRetries q
         then let q1 = q\<lparr>rq_deadLetterQueue := rq_deadLetterQueue q @ [entry]\<rparr>;
                  (r, w1) = ZRem R key x w
              in (case pe_Message entry of None \<Rightarrow> (Panics NilDereference, w1)
                  | Some m \<Rightarrow> (Returns q1, w1))
         else let (r, w1) = ZRem R key x w
              in (case requeueMessage R (pe_Message entry) w1 of
                    (Panics p, w2) \<Rightarrow> (Panics p, w2)
                  | (Returns e, w2) \<Rightarrow> (Returns q, w2)))"

fun expireEntries :: "'w redis \<Rightarrow> string \<Rightarrow> gotext list \<Rightarrow> RedisQueue \<Rightarrow> 'w
    \<Rightarrow> RedisQueue outcome \<times> 'w" where
  "expireEntries R key [] q w = (Returns q, w)"
| "expireEntries R key (x # xs) q w =
     (case expireEntry R key x q w of
        (Panics p, w1) \<Rightarrow> (Panics p, w1)
      | (Returns q1, w1) \<Rightarrow> expireEntries R key xs q1 w1)"

fun expireKeys :: "'w redis \<Rightarrow> go_time \<Rightarrow> string list \<Rightarrow> RedisQueue \<Rightarrow> 'w
    \<Rightarrow> RedisQueue outcome \<times> 'w" where
  "expireKeys R now [] q w = (Returns q, w)"
| "expireKeys R now (key # keys) q w =
     (case ZRangeByScore R key (Unix now) w of
        (Inl e, w1) \<Rightarrow> expireKeys R now keys q w1
      | (Inr entries, w1) \<Rightarrow>
         (case expireEntries R key entries q w1 of
            (Panics p, w2) \<Rightarrow> (Panics p, w2)
          | (Returns q1, w2) \<Rightarrow> expireKeys R now keys q1 w2))"

definition checkExpiredMessages :: "'w redis \<Rightarrow> RedisQueue \<Rightarrow> 'w \<Rightarrow> RedisQueue outcome \<times> 'w" where
  "checkExpiredMessages R q w =
     (case Keys R ''pel:*'' w of
        (Inl e, w1) \<Rightarrow> (Returns q, w1)
      | (Inr keys, w1) \<Rightarrow> expireKeys R (Now R w1) keys q w1)"

section \<open>Entries and their texts\<close>

lemma int64_small [simp]: "int64_range 1" "int64_range 0"
  by (simp_all add: int64_range_def)

lemma decode_message_Obj: "message_json m = Inr j \<Longrightarrow> \<exists>ms. j = JObj ms"
  by (auto simp: message_json_def split: sum.splits)

lemma entry_roundtrip [wire]:
  assumes "entry_json e = Inr j" and "pe_Message e = Some m" and "message_ok m"
    and "t_off (pe_VisibleAt e) mod 60 = 0" and "int64_range (pe_DeliveryCount e)"
  shows "Unmarshal_entry (Json j) = Inr (e\<lparr>pe_Message := Some (wire_form m)\<rparr>)"
proof -
  obtain mj ts where mj: "message_json m = Inr mj" and ts: "time_json (pe_VisibleAt e) = Inr ts"
    and j: "j = JObj [(''Message'', mj), (''ConsumerGroup'', JStr (pe_ConsumerGroup e)),
          (''ConsumerID'', JStr (pe_ConsumerID e)), (''VisibleAt'', ts),
          (''DeliveryCount'', JInt (pe_DeliveryCount e))]"
    using assms(1,2) by (auto simp: entry_json_def split: sum.splits)
  obtain ms where ms: "mj = JObj ms" using decode_message_Obj [OF mj] by blast
  have dec: "decode_struct message_fields zero_Message mj = Inr (wire_form m)"
    using message_roundtrip [OF mj assms(3)] by (simp add: decode_message_def)
  have ptr: "set_pointer message_fields zero_Message pe_Message upd mj r = Inr (upd (Some (wire_form m)) r)"
    if "pe_Message r = None" for upd and r :: PendingEntry
    using that dec by (simp add: set_pointer_def ms)
  show ?thesis
    unfolding j using assms(5)
    by (cases e) (simp add: Unmarshal_entry_def Unmarshal_struct_def decode_struct_def entry_fields_def
        find_field_def ptr set_time_json [OF ts assms(4)] zero_PendingEntry_def)
qed

text \<open>Decoding an entry and encoding it give the same text, so equal entries are the same member.\<close>

lemma entry_json_wire_form:
  "entry_json (e\<lparr>pe_Message := Some (wire_form m)\<rparr>) = entry_json (e\<lparr>pe_Message := Some m\<rparr>)"
  by (simp add: entry_json_def split: sum.splits)

section \<open>What a well-formed store holds\<close>

text \<open>
  A queued text is the JSON form of a message of its list's topic; a pending text is the JSON
  form of an entry of its set's topic and group that was delivered once.
\<close>

definition queued_ok :: "string \<Rightarrow> gotext \<Rightarrow> bool" where
  "queued_ok topic x \<longleftrightarrow>
     (\<exists>m j. x = Json j \<and> message_json m = Inr j \<and> message_ok m \<and> msg_Topic m = topic)"

definition pending_ok :: "string \<Rightarrow> int \<Rightarrow> gotext \<Rightarrow> bool" where
  "pending_ok key s x \<longleftrightarrow>
     (\<exists>e j m. x = Json j \<and> entry_json e = Inr j \<and> pe_Message e = Some m \<and> message_ok m
        \<and> t_off (pe_VisibleAt e) mod 60 = 0 \<and> pe_DeliveryCount e = 1
        \<and> s = Unix (pe_VisibleAt e) \<and> key = pelKey (msg_Topic m) (pe_ConsumerGroup e))"

definition store_ok :: "store \<Rightarrow> bool" where
  "store_ok d \<longleftrightarrow>
     (\<forall>topic. \<forall>x \<in> set (lists d (queueKey topic)). queued_ok topic x)
     \<and> (\<forall>key x s. HasPrefix key ''pel:'' \<longrightarrow> zsets d key x = Some s \<longrightarrow> pending_ok key s x)"

lemma queueKey_inj [simp]: "queueKey t = queueKey t' \<longleftrightarrow> t = t'"
  by (simp add: queueKey_def)

lemma pelKey_prefix [simp]: "HasPrefix (pelKey t g) ''pel:''"
  by (simp add: HasPrefix_def pelKey_def)

text \<open>The message a text of a well-formed list stands for, and the entry a pending text stands for.\<close>

definition text_message :: "gotext \<Rightarrow> Message" where
  "text_message x = (case Unmarshal_message x of Inr m \<Rightarrow> m | Inl e \<Rightarrow> zero_Message)"

definition text_entry :: "gotext \<Rightarrow> PendingEntry" where
  "text_entry x = (case Unmarshal_entry x of Inr e \<Rightarrow> e | Inl er \<Rightarrow> zero_PendingEntry)"

definition entry_message :: "PendingEntry \<Rightarrow> Message" where
  "entry_message e = (case pe_Message e of Some m \<Rightarrow> m | None \<Rightarrow> zero_Message)"

lemma queued_okD:
  assumes "queued_ok topic x"
  shows "Unmarshal_message x = Inr (text_message x)" and "msg_Topic (text_message x) = topic"
    and "message_ok (text_message x)" and "wire_form (text_message x) = text_message x"
    and "map_sum id Json (message_json (text_message x)) = Inr x"
proof -
  obtain m j where x: "x = Json j" "message_json m = Inr j" "message_ok m" "msg_Topic m = topic"
    using assms by (auto simp: queued_ok_def)
  have "text_message x = wire_form m"
    using message_roundtrip [OF x(2,3)] by (simp add: text_message_def x(1))
  then show "Unmarshal_message x = Inr (text_message x)" "msg_Topic (text_message x) = topic"
    "message_ok (text_message x)" "wire_form (text_message x) = text_message x"
    "map_sum id Json (message_json (text_message x)) = Inr x"
    using x message_roundtrip [OF x(2,3)] by simp_all
qed

lemma queued_ok_json: "queued_ok topic x \<Longrightarrow> \<exists>j. message_json (text_message x) = Inr j \<and> x = Json j"
  using queued_okD(5) [of topic x] by (cases "message_json (text_message x)") auto

lemma queued_ok_message: "message_json m = Inr j \<Longrightarrow> message_ok m \<Longrightarrow> queued_ok (msg_Topic m) (Json j)"
  by (auto simp: queued_ok_def)

lemma text_message_Json [simp]:
  "message_json m = Inr j \<Longrightarrow> message_ok m \<Longrightarrow> text_message (Json j) = wire_form m"
  by (simp add: text_message_def message_roundtrip)

lemma pending_okD:
  assumes "pending_ok key s x"
  obtains e m j where "x = Json j" "Unmarshal_entry x = Inr e" "text_entry x = e" "pe_Message e = Some m"
    "entry_message e = m" "message_ok m" "wire_form m = m" "pe_DeliveryCount e = 1"
    "s = Unix (pe_VisibleAt e)" "key = pelKey (msg_Topic m) (pe_ConsumerGroup e)" "entry_json e = Inr j"
    "t_off (pe_VisibleAt e) mod 60 = 0"
proof -
  obtain e0 j m0 where x: "x = Json j" "entry_json e0 = Inr j" "pe_Message e0 = Some m0" "message_ok m0"
    "t_off (pe_VisibleAt e0) mod 60 = 0" "pe_DeliveryCount e0 = 1" "s = Unix (pe_VisibleAt e0)"
    "key = pelKey (msg_Topic m0) (pe_ConsumerGroup e0)"
    using assms by (auto simp: pending_ok_def)
  define e where "e = e0\<lparr>pe_Message := Some (wire_form m0)\<rparr>"
  have u: "Unmarshal_entry x = Inr e"
    using entry_roundtrip [OF x(2,3,4,5)] x(6) by (simp add: x(1) e_def)
  have "e0\<lparr>pe_Message := Some m0\<rparr> = e0" using x(3) by (cases e0) simp
  then have "entry_json e = Inr j"
    using entry_json_wire_form [where e = e0 and m = m0] x(2) by (simp add: e_def)
  with u x show ?thesis
    by (intro that [of j e "wire_form m0"]) (simp_all add: e_def text_entry_def entry_message_def)
qed

lemma newEntry_sel [simp]:
  "pe_Message (newEntry m g c va) = Some m" "pe_ConsumerGroup (newEntry m g c va) = g"
  "pe_ConsumerID (newEntry m g c va) = c" "pe_VisibleAt (newEntry m g c va) = va"
  "pe_DeliveryCount (newEntry m g c va) = 1"
  by (simp_all add: newEntry_def)

lemma pending_ok_newEntry:
  assumes "entry_json (newEntry m g c va) = Inr j" and "message_ok m" and "t_off va mod 60 = 0"
  shows "pending_ok (pelKey (msg_Topic m) g) (Unix va) (Json j)"
  unfolding pending_ok_def using assms
  by (intro exI [of _ "newEntry m g c va"] exI [of _ j] exI [of _ m]) simp

lemma store_ok_lists: "store_ok d \<Longrightarrow> x \<in> set (lists d (queueKey t)) \<Longrightarrow> queued_ok t x"
  by (auto simp: store_ok_def)

lemma store_ok_zsets: "store_ok d \<Longrightarrow> HasPrefix key ''pel:'' \<Longrightarrow> zsets d key x = Some s \<Longrightarrow> pending_ok key s x"
  by (auto simp: store_ok_def)

lemma store_ok_pel: "store_ok d \<Longrightarrow> zsets d (pelKey t g) x = Some s \<Longrightarrow> pending_ok (pelKey t g) s x"
  by (rule store_ok_zsets) simp_all

lemma store_ok_empty: "store_ok \<lparr>lists = (\<lambda>k. []), zsets = (\<lambda>k. Map.empty)\<rparr>"
  by (simp add: store_ok_def)

lemma store_ok_push_left: "store_ok d \<Longrightarrow> queued_ok t x \<Longrightarrow> store_ok (push_left (queueKey t) x d)"
  by (auto simp: store_ok_def)

lemma store_ok_push_right: "store_ok d \<Longrightarrow> queued_ok t x \<Longrightarrow> store_ok (push_right (queueKey t) x d)"
  by (auto simp: store_ok_def)

lemma store_ok_pop: "store_ok d \<Longrightarrow> store_ok (pop_right k d)"
  by (auto simp: store_ok_def dest: in_set_butlastD)

lemma store_ok_zset_add: "store_ok d \<Longrightarrow> pending_ok k s x \<Longrightarrow> store_ok (zset_add k s x d)"
  by (auto simp: store_ok_def)

lemma store_ok_zset_remove: "store_ok d \<Longrightarrow> store_ok (zset_remove k x d)"
  by (auto simp: store_ok_def)

lemmas store_ok_intros =
  store_ok_push_left store_ok_push_right store_ok_pop store_ok_zset_add store_ok_zset_remove

end
