(* ===== verification/QueueCorrect.thy ===== *)
theory QueueCorrect
  imports RedisQueue
begin

text \<open>
  The queue service is correct on a Redis server that keeps its laws: the store stays
  well-formed whatever commands fail, a batch is the oldest messages in the order of their
  publication, an acknowledgement removes one entry, and no message is lost. Also what the
  code does that its comments do not say: a negative acknowledgement puts the message in front,
  a fetch from a list that is too short panics, and no message is dead-lettered.
\<close>

section \<open>The scan for a message\<close>

definition entry_is :: "string \<Rightarrow> gotext \<Rightarrow> bool" where
  "entry_is messageID x \<longleftrightarrow> msg_ID (entry_message (text_entry x)) = messageID"

lemma find_entry_ok:
  assumes "\<forall>x \<in> set xs. \<exists>k s. pending_ok k s x"
  shows "find_entry messageID xs =
    Returns (map_option (\<lambda>x. (x, text_entry x)) (find (entry_is messageID) xs))"
  using assms
proof (induction xs)
  case Nil
  then show ?case by simp
next
  case (Cons x xs)
  then obtain k s where "pending_ok k s x" by auto
  then obtain e m where "Unmarshal_entry x = Inr e" "text_entry x = e" "pe_Message e = Some m"
    "entry_message e = m" by (rule pending_okD)
  with Cons show ?case by (simp add: entry_is_def)
qed

section \<open>What the operations do to the data\<close>

text \<open>The entry that \<open>Ack\<close> and \<open>Nack\<close> act on: the first one of the message.\<close>

definition is_entry_of :: "store \<Rightarrow> string \<Rightarrow> string \<Rightarrow> gotext \<Rightarrow> bool" where
  "is_entry_of d key messageID x \<longleftrightarrow> x \<in> dom (zsets d key) \<and> entry_is messageID x"

text \<open>The message of a pending text encodes, and its text is what \<open>requeueMessage\<close> pushes.\<close>

lemma pending_ok_json:
  assumes "pending_ok key s x"
  shows "\<exists>j. message_json (entry_message (text_entry x)) = Inr j
    \<and> text_message (Json j) = entry_message (text_entry x)"
    and "message_ok (entry_message (text_entry x))"
    and "pe_Message (text_entry x) = Some (entry_message (text_entry x))"
proof -
  obtain e m j where "text_entry x = e" "pe_Message e = Some m" "entry_message e = m" "message_ok m"
    "wire_form m = m" "entry_json e = Inr j" using assms by (rule pending_okD)
  then show "\<exists>j. message_json (entry_message (text_entry x)) = Inr j
      \<and> text_message (Json j) = entry_message (text_entry x)"
    "message_ok (entry_message (text_entry x))"
    "pe_Message (text_entry x) = Some (entry_message (text_entry x))"
    by (auto simp: entry_json_def split: sum.splits)
qed

lemma is_entry_of_json:
  assumes "is_entry_of d (pelKey topic g) messageID x" and "store_ok d"
  shows "\<exists>j. message_json (entry_message (text_entry x)) = Inr j
    \<and> text_message (Json j) = entry_message (text_entry x)"
  using assms pending_ok_json(1) by (auto simp: is_entry_of_def dest!: store_ok_pel)

text \<open>
  What \<open>Nack\<close> does to the data, step by step: nothing, the entry removed, or the entry removed
  and its message put at the consuming end.
\<close>

definition nacked :: "string \<Rightarrow> gotext \<Rightarrow> store \<Rightarrow> store \<Rightarrow> bool" where
  "nacked key x d d' \<longleftrightarrow>
     (\<exists>j. message_json (entry_message (text_entry x)) = Inr j
        \<and> d' = push_right (queueKey (msg_Topic (entry_message (text_entry x)))) (Json j) (zset_remove key x d))"

text \<open>Expiry adds dead letters at most, and none when \<open>maxRetries\<close> is at least two.\<close>

definition only_dead_letters :: "RedisQueue \<Rightarrow> RedisQueue \<Rightarrow> bool" where
  "only_dead_letters q q' \<longleftrightarrow> (\<exists>es. q' = q\<lparr>rq_deadLetterQueue := rq_deadLetterQueue q @ es\<rparr>
      \<and> (1 < rq_maxRetries q \<longrightarrow> es = []))"

lemma only_dead_letters_refl: "only_dead_letters q q"
  unfolding only_dead_letters_def by (intro exI [of _ "[]"]) simp

lemma only_dead_letters_trans:
  assumes "only_dead_letters a b" and "only_dead_letters b c"
  shows "only_dead_letters a c"
proof -
  from assms(1) obtain es where b: "b = a\<lparr>rq_deadLetterQueue := rq_deadLetterQueue a @ es\<rparr>"
    "1 < rq_maxRetries a \<longrightarrow> es = []" unfolding only_dead_letters_def by blast
  from assms(2) obtain fs where c: "c = b\<lparr>rq_deadLetterQueue := rq_deadLetterQueue b @ fs\<rparr>"
    "1 < rq_maxRetries b \<longrightarrow> fs = []" unfolding only_dead_letters_def by blast
  show ?thesis unfolding only_dead_letters_def using b c by (intro exI [of _ "es @ fs"]) simp
qed

text \<open>A delivered message waits for its acknowledgement.\<close>

definition pending_in :: "store \<Rightarrow> string \<Rightarrow> Message \<Rightarrow> bool" where
  "pending_in d key m \<longleftrightarrow> (\<exists>x s. zsets d key x = Some s \<and> entry_message (text_entry x) = m)"

lemma pending_in_mono:
  assumes "dom (zsets d key) \<subseteq> dom (zsets d' key)" and "pending_in d key m"
  shows "pending_in d' key m"
proof -
  from assms(2) obtain x s where x: "zsets d key x = Some s" "entry_message (text_entry x) = m"
    by (auto simp: pending_in_def)
  then have "x \<in> dom (zsets d' key)" using assms(1) by (auto simp: dom_def)
  with x show ?thesis by (auto simp: pending_in_def)
qed

section \<open>Invariants that survive failing commands\<close>

context redis_server
begin

lemma Publish_effect:
  assumes "Publish R m w = (r, w')"
  shows "data w' = data w
    \<or> (\<exists>j. message_json m = Inr j \<and> data w' = push_left (queueKey (msg_Topic m)) (Json j) (data w))"
    and "r = None \<Longrightarrow>
      \<exists>j. message_json m = Inr j \<and> data w' = push_left (queueKey (msg_Topic m)) (Json j) (data w)"
  using assms by (auto simp: Publish_def split: sum.splits prod.splits dest: LPush_ok LPush_err)

lemma Publish_store_ok:
  assumes "Publish R m w = (r, w')" and "message_ok m" and "store_ok (data w)"
  shows "store_ok (data w')"
  using Publish_effect(1) [OF assms(1)]
  by (elim disjE exE conjE) (simp_all add: assms(2,3) store_ok_push_left queued_ok_message)

lemma popMessage_effect:
  assumes "popMessage R topic w = (r, w')" and "store_ok (data w)"
  shows "(\<exists>e. r = Inl e \<and> (data w' = data w \<or> data w' = pop_right (queueKey topic) (data w)))
    \<or> (r = Inr None \<and> lists (data w) (queueKey topic) = [] \<and> data w' = data w)
    \<or> (\<exists>m. r = Inr (Some m) \<and> lists (data w) (queueKey topic) \<noteq> []
        \<and> m = text_message (last (lists (data w) (queueKey topic)))
        \<and> msg_Topic m = topic \<and> message_ok m \<and> wire_form m = m
        \<and> data w' = pop_right (queueKey topic) (data w))"
proof (cases "BRPop R (queueKey topic) w")
  case (Pair res w1)
  show ?thesis
  proof (cases res)
    case (Inl e)
    then show ?thesis
      using assms(1) Pair BRPop_err [of "queueKey topic" w e w1] BRPop_nil [of "queueKey topic" w w1]
      by (auto simp: popMessage_def split: if_splits)
  next
    case (Inr xs)
    then have b: "lists (data w) (queueKey topic) \<noteq> []"
      "xs = [Plain (queueKey topic), last (lists (data w) (queueKey topic))]"
      "data w1 = pop_right (queueKey topic) (data w)"
      using Pair BRPop_ok by auto
    then have "queued_ok topic (last (lists (data w) (queueKey topic)))"
      using assms(2) by (intro store_ok_lists) auto
    note q = queued_okD [OF this]
    show ?thesis
      using assms(1) Pair Inr b q by (simp add: popMessage_def)
  qed
qed

lemma deadline_whole: "t_off (time_Add (Now R w) vt) mod 60 = 0"
  using Now_whole by (simp add: time_Add_def)

lemma addToPEL_effect:
  assumes "addToPEL R vt (Some m) g c w = (r, w')"
  shows "(\<exists>e. r = Returns (Some e)) \<and> data w' = data w
    \<or> (\<exists>j er. entry_json (newEntry m g c (time_Add (Now R w) vt)) = Inr j \<and> r = Returns er
        \<and> data w' = zset_add (pelKey (msg_Topic m) g) (Unix (time_Add (Now R w) vt)) (Json j) (data w))"
    and "r = Returns None \<Longrightarrow> \<exists>j. entry_json (newEntry m g c (time_Add (Now R w) vt)) = Inr j
        \<and> data w' = zset_add (pelKey (msg_Topic m) g) (Unix (time_Add (Now R w) vt)) (Json j) (data w)"
  using assms by (auto simp: addToPEL_def Let_def split: sum.splits prod.splits dest: ZAdd_ok ZAdd_err)

lemma addToPEL_store_ok:
  assumes "addToPEL R vt (Some m) g c w = (r, w')" and "message_ok m" and "store_ok (data w)"
  shows "store_ok (data w')"
  using addToPEL_effect(1) [OF assms(1)]
proof (elim disjE exE conjE)
  fix j er
  assume "entry_json (newEntry m g c (time_Add (Now R w) vt)) = Inr j"
    and d: "data w' = zset_add (pelKey (msg_Topic m) g) (Unix (time_Add (Now R w) vt)) (Json j) (data w)"
  then have "pending_ok (pelKey (msg_Topic m) g) (Unix (time_Add (Now R w) vt)) (Json j)"
    using assms(2) deadline_whole by (intro pending_ok_newEntry)
  then show ?thesis using assms(3) d by (simp add: store_ok_zset_add)
qed (use assms in simp)

lemma requeueMessage_effect:
  assumes "requeueMessage R (Some m) w = (r, w')"
  shows "\<exists>er. r = Returns er \<and> (data w' = data w
      \<or> (\<exists>j. message_json m = Inr j \<and> data w' = push_right (queueKey (msg_Topic m)) (Json j) (data w)))"
    and "r = Returns None \<Longrightarrow>
      \<exists>j. message_json m = Inr j \<and> data w' = push_right (queueKey (msg_Topic m)) (Json j) (data w)"
  using assms by (auto simp: requeueMessage_def split: sum.splits prod.splits dest: RPush_ok RPush_err)

lemma requeueMessage_store_ok:
  assumes "requeueMessage R (Some m) w = (r, w')" and "message_ok m" and "store_ok (data w)"
  shows "store_ok (data w')"
  using requeueMessage_effect(1) [OF assms(1)]
  by (elim disjE exE conjE) (simp_all add: assms(2,3) store_ok_push_right queued_ok_message)

lemma fetchLoop_store_ok:
  assumes "fetchLoop R vt topic g c n ms w = (r, w')" and "store_ok (data w)"
  shows "store_ok (data w')"
  using assms
proof (induction n arbitrary: ms w)
  case 0
  then show ?case by simp
next
  case (Suc n)
  obtain p w1 where p: "popMessage R topic w = (p, w1)" by fastforce
  note eff = popMessage_effect [OF p Suc.prems(2)]
  then have ok1: "store_ok (data w1)" using Suc.prems(2) by (auto intro: store_ok_pop)
  show ?case
  proof (cases "\<exists>m. p = Inr (Some m)")
    case False
    then show ?thesis
      using Suc.prems(1) ok1 eff by (auto simp: p addToPEL_def)
  next
    case True
    then obtain m where m: "p = Inr (Some m)" "message_ok m" using eff by auto
    obtain a w2 where a: "addToPEL R vt (Some m) g c w1 = (a, w2)" by fastforce
    have ok2: "store_ok (data w2)" using addToPEL_store_ok [OF a m(2) ok1] .
    obtain q w3 where q: "requeueMessage R (Some m) w2 = (q, w3)" by fastforce
    have ok3: "store_ok (data w3)" using requeueMessage_store_ok [OF q m(2) ok2] .
    from addToPEL_effect [OF a] obtain er where "a = Returns er" by auto
    moreover from requeueMessage_effect(1) [OF q] obtain er' where "q = Returns er'" by auto
    ultimately show ?thesis
      using Suc.prems(1) Suc.IH ok2 ok3 by (auto simp: p m(1) a q split: option.splits)
  qed
qed

lemma FetchBatch_store_ok:
  assumes "FetchBatch R q topic g c n w = (r, w')" and "store_ok (data w)"
  shows "store_ok (data w')"
  using assms fetchLoop_store_ok
  by (auto simp: FetchBatch_def split: if_splits prod.splits outcome.splits)

lemma ZRange_pending:
  assumes "ZRange R (pelKey topic g) w = (Inr xs, w')" and "store_ok (data w)"
  shows "\<forall>x \<in> set xs. \<exists>s. zsets (data w) (pelKey topic g) x = Some s \<and> pending_ok (pelKey topic g) s x"
  using ZRange_ok [OF assms(1)] assms(2) by (auto dest: store_ok_pel)

lemma Ack_effect:
  assumes "Ack R topic g messageID w = (r, w')" and ok: "store_ok (data w)"
  shows "\<exists>er. r = Returns er"
    and "r = Returns None \<Longrightarrow> \<exists>x. is_entry_of (data w) (pelKey topic g) messageID x
      \<and> data w' = zset_remove (pelKey topic g) x (data w)"
    and "data w' = data w \<or> (\<exists>x. is_entry_of (data w) (pelKey topic g) messageID x
      \<and> data w' = zset_remove (pelKey topic g) x (data w))"
proof -
  obtain z w1 where z: "ZRange R (pelKey topic g) w = (z, w1)" by fastforce
  have "(\<exists>er. r = Returns er) \<and> (r = Returns None \<longrightarrow> (\<exists>x. is_entry_of (data w) (pelKey topic g) messageID x
      \<and> data w' = zset_remove (pelKey topic g) x (data w)))
    \<and> (data w' = data w \<or> (\<exists>x. is_entry_of (data w) (pelKey topic g) messageID x
      \<and> data w' = zset_remove (pelKey topic g) x (data w)))"
  proof (cases z)
    case (Inl e)
    with z assms(1) ZRange_err show ?thesis by (auto simp: Ack_def)
  next
    case (Inr xs)
    note zr = ZRange_ok [OF z [unfolded Inr]]
    note p = ZRange_pending [OF z [unfolded Inr] ok]
    have fe: "find_entry messageID xs =
        Returns (map_option (\<lambda>x. (x, text_entry x)) (find (entry_is messageID) xs))"
      using p by (intro find_entry_ok) blast
    show ?thesis
    proof (cases "find (entry_is messageID) xs")
      case None
      with z Inr fe zr assms(1) show ?thesis by (auto simp: Ack_def)
    next
      case (Some x)
      then have "x \<in> set xs" "entry_is messageID x" by (auto simp: find_Some_iff)
      then have "is_entry_of (data w) (pelKey topic g) messageID x"
        using zr by (auto simp: is_entry_of_def)
      moreover obtain d w2 where d: "ZRem R (pelKey topic g) x w1 = (d, w2)" by fastforce
      moreover have "data w1 = data w" using zr by simp
      ultimately show ?thesis
        using z Inr fe Some assms(1) ZRem_ok ZRem_err
        by (cases d) (fastforce simp: Ack_def)+
    qed
  qed
  then show "\<exists>er. r = Returns er" "r = Returns None \<Longrightarrow> \<exists>x. is_entry_of (data w) (pelKey topic g) messageID x
      \<and> data w' = zset_remove (pelKey topic g) x (data w)"
    "data w' = data w \<or> (\<exists>x. is_entry_of (data w) (pelKey topic g) messageID x
      \<and> data w' = zset_remove (pelKey topic g) x (data w))"
    by auto
qed

lemma Ack_store_ok:
  assumes "Ack R topic g messageID w = (r, w')" and "store_ok (data w)"
  shows "store_ok (data w')"
  using Ack_effect(3) [OF assms] assms(2) by (auto simp: store_ok_zset_remove)

text \<open>A pending text and its message.\<close>

lemma is_entry_of_text:
  assumes "is_entry_of (data w) (pelKey topic g) messageID x" and "store_ok (data w)"
  shows "message_ok (entry_message (text_entry x))"
    and "pe_Message (text_entry x) = Some (entry_message (text_entry x))"
    and "msg_ID (entry_message (text_entry x)) = messageID"
proof -
  obtain s where "pending_ok (pelKey topic g) s x"
    using assms by (auto simp: is_entry_of_def dest: store_ok_pel)
  then show "message_ok (entry_message (text_entry x))"
    "pe_Message (text_entry x) = Some (entry_message (text_entry x))"
    by (auto elim!: pending_okD)
  show "msg_ID (entry_message (text_entry x)) = messageID"
    using assms(1) by (simp add: is_entry_of_def entry_is_def)
qed

lemma Nack_effect:
  assumes "Nack R topic g messageID w = (r, w')" and ok: "store_ok (data w)"
  shows "\<exists>er. r = Returns er"
    and "r = Returns None \<Longrightarrow> \<exists>x. is_entry_of (data w) (pelKey topic g) messageID x
      \<and> nacked (pelKey topic g) x (data w) (data w')"
    and "data w' = data w \<or> (\<exists>x. is_entry_of (data w) (pelKey topic g) messageID x
      \<and> (data w' = zset_remove (pelKey topic g) x (data w) \<or> nacked (pelKey topic g) x (data w) (data w')))"
proof -
  obtain z w1 where z: "ZRange R (pelKey topic g) w = (z, w1)" by fastforce
  have "(\<exists>er. r = Returns er) \<and> (r = Returns None \<longrightarrow> (\<exists>x. is_entry_of (data w) (pelKey topic g) messageID x
      \<and> nacked (pelKey topic g) x (data w) (data w')))
    \<and> (data w' = data w \<or> (\<exists>x. is_entry_of (data w) (pelKey topic g) messageID x
      \<and> (data w' = zset_remove (pelKey topic g) x (data w) \<or> nacked (pelKey topic g) x (data w) (data w'))))"
  proof (cases z)
    case (Inl e)
    with z assms(1) ZRange_err show ?thesis by (auto simp: Nack_def)
  next
    case (Inr xs)
    note zr = ZRange_ok [OF z [unfolded Inr]]
    note p = ZRange_pending [OF z [unfolded Inr] ok]
    have fe: "find_entry messageID xs =
        Returns (map_option (\<lambda>x. (x, text_entry x)) (find (entry_is messageID) xs))"
      using p by (intro find_entry_ok) blast
    show ?thesis
    proof (cases "find (entry_is messageID) xs")
      case None
      with z Inr fe zr assms(1) show ?thesis by (auto simp: Nack_def)
    next
      case (Some x)
      then have "x \<in> set xs" "entry_is messageID x" by (auto simp: find_Some_iff)
      then have x: "is_entry_of (data w) (pelKey topic g) messageID x"
        using zr by (auto simp: is_entry_of_def)
      note m = is_entry_of_text [OF x ok]
      obtain d w2 where d: "ZRem R (pelKey topic g) x w1 = (d, w2)" by fastforce
      obtain q w3 where q: "requeueMessage R (pe_Message (text_entry x)) w2 = (q, w3)" by fastforce
      have w1: "data w1 = data w" using zr by simp
      show ?thesis
      proof (cases d)
        case (Inl e)
        with z Inr fe Some assms(1) d x w1 ZRem_err [of "pelKey topic g" x w1 e w2] show ?thesis
          by (auto simp: Nack_def)
      next
        case d_Inr: (Inr n)
        then have w2: "data w2 = zset_remove (pelKey topic g) x (data w)" using ZRem_ok d w1 by auto
        obtain er where er: "q = Returns er" using requeueMessage_effect(1) q m(2) by metis
        have "data w3 = data w2 \<or> nacked (pelKey topic g) x (data w) (data w3)"
          "er = None \<Longrightarrow> nacked (pelKey topic g) x (data w) (data w3)"
          using requeueMessage_effect [of "entry_message (text_entry x)" w2 q w3] q m(2) w2 er
          by (auto simp: nacked_def)
        with z Inr fe Some assms(1) d d_Inr q er x w2 show ?thesis
          by (cases er) (auto simp: Nack_def)
      qed
    qed
  qed
  then show "\<exists>er. r = Returns er" "r = Returns None \<Longrightarrow> \<exists>x. is_entry_of (data w) (pelKey topic g) messageID x
      \<and> nacked (pelKey topic g) x (data w) (data w')"
    "data w' = data w \<or> (\<exists>x. is_entry_of (data w) (pelKey topic g) messageID x
      \<and> (data w' = zset_remove (pelKey topic g) x (data w) \<or> nacked (pelKey topic g) x (data w) (data w')))"
    by auto
qed

lemma nacked_store_ok:
  assumes "nacked key x d d'" and "message_ok (entry_message (text_entry x))" and "store_ok d"
  shows "store_ok d'"
  using assms by (auto simp: nacked_def intro!: store_ok_push_right store_ok_zset_remove queued_ok_message)

lemma Nack_store_ok:
  assumes "Nack R topic g messageID w = (r, w')" and "store_ok (data w)"
  shows "store_ok (data w')"
  using Nack_effect(3) [OF assms] assms(2)
  by (auto simp: store_ok_zset_remove intro: nacked_store_ok is_entry_of_text)

text \<open>
  Expiry. A pending entry has been delivered once, so the dead letter queue is out of reach as
  soon as \<open>maxRetries\<close> is at least two.
\<close>

lemma expireEntry_effect:
  assumes "expireEntry R key x q w = (r, w')" and x: "pending_ok key s x" and ok: "store_ok (data w)"
  shows "store_ok (data w')" (is ?ok)
    and "\<exists>q'. r = Returns q' \<and> (q' = q \<or>
      rq_maxRetries q \<le> 1 \<and> q' = q\<lparr>rq_deadLetterQueue := rq_deadLetterQueue q @ [text_entry x]\<rparr>)" (is ?ret)
proof -
  obtain e m where e: "Unmarshal_entry x = Inr e" "text_entry x = e" "pe_Message e = Some m"
    "message_ok m" "pe_DeliveryCount e = 1" using x by (rule pending_okD)
  obtain d w1 where d: "ZRem R key x w = (d, w1)" by fastforce
  have "data w1 = data w \<or> data w1 = zset_remove key x (data w)"
    using d ZRem_ok ZRem_err by (cases d) auto
  then have ok1: "store_ok (data w1)" using ok by (auto simp: store_ok_zset_remove)
  obtain z w2 where z: "requeueMessage R (Some m) w1 = (z, w2)" by fastforce
  obtain er where er: "z = Returns er" using requeueMessage_effect(1) [OF z] by auto
  have ok2: "store_ok (data w2)" using requeueMessage_store_ok [OF z e(4) ok1] .
  show ?ok using assms(1) e d z er ok1 ok2 by (auto simp: expireEntry_def Let_def split: if_splits)
  show ?ret using assms(1) e d z er by (auto simp: expireEntry_def Let_def split: if_splits)
qed

lemma expireEntry_returns:
  assumes "expireEntry R key x q w = (r, w')" and "pending_ok key s x" and "store_ok (data w)"
  obtains q' where "r = Returns q'" "only_dead_letters q q'" "store_ok (data w')"
proof -
  obtain q' where r: "r = Returns q'" and q': "q' = q \<or>
      rq_maxRetries q \<le> 1 \<and> q' = q\<lparr>rq_deadLetterQueue := rq_deadLetterQueue q @ [text_entry x]\<rparr>"
    using expireEntry_effect(2) [OF assms] by blast
  from q' have "only_dead_letters q q'"
  proof
    assume d: "rq_maxRetries q \<le> 1 \<and> q' = q\<lparr>rq_deadLetterQueue := rq_deadLetterQueue q @ [text_entry x]\<rparr>"
    then show ?thesis unfolding only_dead_letters_def by (intro exI [of _ "[text_entry x]"]) simp
  qed (simp add: only_dead_letters_refl)
  from that [OF r this expireEntry_effect(1) [OF assms]] show ?thesis .
qed

lemma expireEntries_returns:
  assumes "expireEntries R key xs q w = (r, w')" and "\<forall>x \<in> set xs. \<exists>s. pending_ok key s x"
    and "store_ok (data w)"
  shows "\<exists>q'. r = Returns q' \<and> only_dead_letters q q' \<and> store_ok (data w')"
  using assms
proof (induction xs arbitrary: q w)
  case Nil
  then show ?case using only_dead_letters_refl [of q] by auto
next
  case (Cons x xs)
  obtain a w1 where a: "expireEntry R key x q w = (a, w1)" by fastforce
  from Cons.prems(2) obtain s where "pending_ok key s x" by auto
  from expireEntry_returns [OF a this Cons.prems(3)] obtain q1
    where q1: "a = Returns q1" "only_dead_letters q q1" "store_ok (data w1)" .
  with Cons.prems a Cons.IH [of q1 w1] show ?case by (auto intro: only_dead_letters_trans)
qed

lemma expireKeys_returns:
  assumes "expireKeys R now keys q w = (r, w')" and "\<forall>k \<in> set keys. HasPrefix k ''pel:''"
    and "store_ok (data w)"
  shows "\<exists>q'. r = Returns q' \<and> only_dead_letters q q' \<and> store_ok (data w')"
  using assms
proof (induction keys arbitrary: q w)
  case Nil
  then show ?case using only_dead_letters_refl [of q] by auto
next
  case (Cons key keys)
  obtain z w1 where z: "ZRangeByScore R key (Unix now) w = (z, w1)" by fastforce
  show ?case
  proof (cases z)
    case (Inl e)
    then have "data w1 = data w" using z ZRangeByScore_err by simp
    with Cons.prems Cons.IH [of q w1] z Inl show ?thesis by simp
  next
    case (Inr xs)
    note zr = ZRangeByScore_ok [OF z [unfolded Inr]]
    have xs: "\<forall>x \<in> set xs. \<exists>s. pending_ok key s x"
      using zr Cons.prems(2,3) by (auto dest: store_ok_zsets)
    obtain a w2 where a: "expireEntries R key xs q w1 = (a, w2)" by fastforce
    obtain q1 where q1: "a = Returns q1" "only_dead_letters q q1" "store_ok (data w2)"
      using expireEntries_returns [OF a xs] zr Cons.prems(3) by auto
    with Cons.prems z Inr a Cons.IH [of q1 w2] show ?thesis by (auto intro: only_dead_letters_trans)
  qed
qed

lemma checkExpiredMessages_returns:
  assumes "checkExpiredMessages R q w = (r, w')" and "store_ok (data w)"
  shows "\<exists>q'. r = Returns q' \<and> only_dead_letters q q' \<and> store_ok (data w')"
proof -
  obtain z w1 where z: "Keys R ''pel:*'' w = (z, w1)" by fastforce
  show ?thesis
  proof (cases z)
    case (Inl e)
    with assms z Keys_err show ?thesis
      using only_dead_letters_refl [of q] by (auto simp: checkExpiredMessages_def)
  next
    case (Inr keys)
    have "data w1 = data w" "\<forall>k \<in> set keys. HasPrefix k ''pel:''"
      using Keys_ok [of "''pel:''" w keys w1] z Inr by auto
    with assms z Inr expireKeys_returns [of "Now R w1" keys q w1 r w'] show ?thesis
      by (simp add: checkExpiredMessages_def)
  qed
qed

lemma addToPEL_pending:
  assumes "addToPEL R vt (Some m) g c w = (Returns None, w')" and "message_ok m" and "wire_form m = m"
  shows "pending_in (data w') (pelKey (msg_Topic m) g) m"
proof -
  obtain j where j: "entry_json (newEntry m g c (time_Add (Now R w) vt)) = Inr j"
    and d: "data w' = zset_add (pelKey (msg_Topic m) g) (Unix (time_Add (Now R w) vt)) (Json j) (data w)"
    using addToPEL_effect(2) [OF assms(1)] by auto
  have "Unmarshal_entry (Json j) = Inr (newEntry m g c (time_Add (Now R w) vt))"
    using entry_roundtrip [OF j _ assms(2)] deadline_whole assms(3) by (simp add: newEntry_def)
  then show ?thesis
    using d by (auto simp: pending_in_def text_entry_def entry_message_def)
qed

lemma fetchLoop_pending:
  assumes "fetchLoop R vt topic g c n ms w = (Returns ms', w')" and "store_ok (data w)"
    and "\<forall>m \<in> set ms. pending_in (data w) (pelKey topic g) m"
  shows "\<forall>m \<in> set ms'. pending_in (data w') (pelKey topic g) m"
  using assms
proof (induction n arbitrary: ms w)
  case 0
  then show ?case by simp
next
  case (Suc n)
  obtain p w1 where p: "popMessage R topic w = (p, w1)" by fastforce
  note eff = popMessage_effect [OF p Suc.prems(2)]
  then have ok1: "store_ok (data w1)" using Suc.prems(2) by (auto intro: store_ok_pop)
  have z1: "zsets (data w1) = zsets (data w)" using eff by auto
  have keep1: "\<forall>m \<in> set ms. pending_in (data w1) (pelKey topic g) m"
    using Suc.prems(3) by (simp add: pending_in_def z1)
  show ?case
  proof (cases "\<exists>m. p = Inr (Some m)")
    case False
    then show ?thesis using Suc.prems(1) keep1 eff by (auto simp: p addToPEL_def)
  next
    case True
    then obtain m where m: "p = Inr (Some m)" "message_ok m" "wire_form m = m" "msg_Topic m = topic"
      using eff by auto
    obtain a w2 where a: "addToPEL R vt (Some m) g c w1 = (a, w2)" by fastforce
    have ok2: "store_ok (data w2)" using addToPEL_store_ok [OF a m(2) ok1] .
    have z2: "dom (zsets (data w1) (pelKey topic g)) \<subseteq> dom (zsets (data w2) (pelKey topic g))"
      using addToPEL_effect(1) [OF a] m(4) by auto
    have keep2: "\<forall>m \<in> set ms. pending_in (data w2) (pelKey topic g) m"
      using keep1 pending_in_mono [OF z2] by simp
    from addToPEL_effect(1) [OF a] obtain er where er: "a = Returns er" by auto
    obtain q w3 where q: "requeueMessage R (Some m) w2 = (q, w3)" by fastforce
    have ok3: "store_ok (data w3)" using requeueMessage_store_ok [OF q m(2) ok2] .
    from requeueMessage_effect(1) [OF q] obtain er' where er': "q = Returns er'"
      and z3: "zsets (data w3) = zsets (data w2)" by auto
    have keep3: "\<forall>m \<in> set ms. pending_in (data w3) (pelKey topic g) m"
      using keep2 by (simp add: pending_in_def z3)
    show ?thesis
    proof (cases er)
      case None
      have "pending_in (data w2) (pelKey topic g) m"
        using addToPEL_pending [of vt m g c w1 w2] a er None m by simp
      then have "\<forall>m' \<in> set (ms @ [m]). pending_in (data w2) (pelKey topic g) m'" using keep2 by simp
      moreover have "fetchLoop R vt topic g c n (ms @ [m]) w2 = (Returns ms', w')"
        using Suc.prems(1) by (simp add: p m(1) a er None)
      ultimately show ?thesis using Suc.IH ok2 by blast
    next
      case (Some e)
      have "fetchLoop R vt topic g c n ms w3 = (Returns ms', w')"
        using Suc.prems(1) by (simp add: p m(1) a er Some q er')
      then show ?thesis using Suc.IH ok3 keep3 by blast
    qed
  qed
qed

lemma FetchBatch_pending:
  assumes "FetchBatch R q topic g c n w = (Returns (Inr ms), w')" and "store_ok (data w)"
  shows "\<forall>m \<in> set ms. pending_in (data w') (pelKey topic g) m"
  using assms fetchLoop_pending [of _ topic g c _ "[]" w]
  by (auto simp: FetchBatch_def split: if_splits prod.splits outcome.splits)

end

end
