(* ===== verification/QueueDelivery.thy ===== *)
theory QueueDelivery
  imports QueueCorrect
begin

text \<open>
  What the queue service delivers when the Redis server answers every command: the waiting
  messages of a topic form a queue, a batch is its front, a negative acknowledgement puts the
  message back in front, and no published message disappears before it is acknowledged.
\<close>

section \<open>The abstract view\<close>

text \<open>The messages waiting for a topic, in the order in which they will be delivered.\<close>

definition waiting :: "store \<Rightarrow> string \<Rightarrow> Message list" where
  "waiting d topic = map text_message (rev (lists d (queueKey topic)))"

text \<open>The messages the service has not let go of: those that wait and those that are pending.\<close>

definition held :: "store \<Rightarrow> Message set" where
  "held d = {m. \<exists>t. m \<in> set (waiting d t)} \<union> {m. \<exists>key. HasPrefix key ''pel:'' \<and> pending_in d key m}"

text \<open>The messages of the dead letter queue.\<close>

definition dead :: "RedisQueue \<Rightarrow> Message set" where
  "dead q = entry_message ` set (rq_deadLetterQueue q)"

lemma waiting_length [simp]: "length (waiting d topic) = length (lists d (queueKey topic))"
  by (simp add: waiting_def)

lemma waiting_push_left [simp]:
  "waiting (push_left (queueKey t) x d) t' = (if t' = t then waiting d t @ [text_message x] else waiting d t')"
  by (simp add: waiting_def)

lemma waiting_push_right [simp]:
  "waiting (push_right (queueKey t) x d) t' = (if t' = t then text_message x # waiting d t else waiting d t')"
  by (simp add: waiting_def)

lemma waiting_pop_right [simp]:
  "waiting (pop_right (queueKey t) d) t' = (if t' = t then tl (waiting d t) else waiting d t')"
  by (cases "lists d (queueKey t)" rule: rev_cases) (simp_all add: waiting_def)

lemma waiting_zset [simp]: "waiting (zset_add k s x d) = waiting d" "waiting (zset_remove k x d) = waiting d"
  by (simp_all add: waiting_def fun_eq_iff)

lemma pending_in_lists [simp]:
  "pending_in (push_left k x d) = pending_in d" "pending_in (push_right k x d) = pending_in d"
  "pending_in (pop_right k d) = pending_in d"
  by (simp_all add: pending_in_def fun_eq_iff)

lemma pending_in_zset_add: "pending_in (zset_add k s x d) key m \<longleftrightarrow>
    pending_in d key m \<or> key = k \<and> m = entry_message (text_entry x)"
  by (auto simp: pending_in_def)

lemma pending_in_zset_remove:
  "pending_in (zset_remove k x d) key m \<Longrightarrow> pending_in d key m"
  "pending_in d key m \<Longrightarrow> pending_in (zset_remove k x d) key m \<or> key = k \<and> m = entry_message (text_entry x)"
  by (auto simp: pending_in_def split: if_splits)

lemma held_push [simp]:
  "held (push_left (queueKey t) x d) = insert (text_message x) (held d)"
  "held (push_right (queueKey t) x d) = insert (text_message x) (held d)"
  by (auto simp: held_def)

lemma held_zset_remove:
  "held (zset_remove k x d) \<subseteq> held d" "held d \<subseteq> insert (entry_message (text_entry x)) (held (zset_remove k x d))"
  unfolding held_def waiting_zset using pending_in_zset_remove [where k = k and x = x and d = d] by blast+

lemma held_pending: "zsets d key x = Some s \<Longrightarrow> HasPrefix key ''pel:'' \<Longrightarrow> entry_message (text_entry x) \<in> held d"
  unfolding held_def pending_in_def by blast

lemma held_move:
  assumes "lists d (queueKey t) \<noteq> []" and "HasPrefix k ''pel:''"
    and "entry_message (text_entry y) = text_message (last (lists d (queueKey t)))"
  shows "held (zset_add k s y (pop_right (queueKey t) d)) = held d"
proof -
  have hd: "waiting d t = text_message (last (lists d (queueKey t))) # tl (waiting d t)"
    using assms(1) by (cases "lists d (queueKey t)" rule: rev_cases) (simp_all add: waiting_def)
  have "set (waiting d t) = insert (text_message (last (lists d (queueKey t)))) (set (tl (waiting d t)))"
    by (subst hd) simp
  then show ?thesis using assms(2,3) by (auto simp: held_def pending_in_zset_add)
qed

text \<open>The entries of a set that are past their deadline, taken out.\<close>

definition unexpired :: "int \<Rightarrow> (gotext \<Rightarrow> int option) \<Rightarrow> gotext \<Rightarrow> int option" where
  "unexpired now z x = (case z x of Some s \<Rightarrow> if s \<le> now then None else Some s | None \<Rightarrow> None)"

section \<open>Delivery on a server that answers\<close>

text \<open>
  A server that answers every command, with a clock whose deadlines have a four-digit year: the
  visibility timeout of the service is \<open>vt\<close>.
\<close>

locale redis_live = redis_reliable +
  fixes vt :: duration
  assumes deadline_json: "\<exists>ts. time_json (time_Add (Now R w) vt) = Inr ts"
begin

lemma Publish_live:
  assumes "message_json m = Inr j"
  obtains w' where "Publish R m w = (None, w')" "data w' = push_left (queueKey (msg_Topic m)) (Json j) (data w)"
proof -
  obtain n w' where "LPush R (queueKey (msg_Topic m)) (Json j) w = (Inr n, w')" using LPush_total by blast
  with assms LPush_ok show ?thesis by (intro that [of w']) (auto simp: Publish_def)
qed

lemma popMessage_live_empty:
  assumes "lists (data w) (queueKey topic) = []"
  obtains w' where "popMessage R topic w = (Inr None, w')" "data w' = data w"
proof -
  consider xs w' where "BRPop R (queueKey topic) w = (Inr xs, w')"
    | w' where "BRPop R (queueKey topic) w = (Inl RedisNil, w')" using BRPop_total by blast
  then show ?thesis
  proof cases
    case 1
    with BRPop_ok assms show ?thesis by blast
  next
    case (2 w')
    with BRPop_nil show ?thesis by (intro that [of w']) (auto simp: popMessage_def)
  qed
qed

lemma popMessage_live:
  assumes "store_ok (data w)" and "lists (data w) (queueKey topic) \<noteq> []"
  obtains w' where "popMessage R topic w = (Inr (Some (text_message (last (lists (data w) (queueKey topic))))), w')"
    "data w' = pop_right (queueKey topic) (data w)"
proof -
  obtain r w' where p: "popMessage R topic w = (r, w')" by fastforce
  have "\<nexists>e. r = Inl e"
  proof (rule notI, elim exE)
    fix e assume e: "r = Inl e"
    obtain xs w1 where b: "BRPop R (queueKey topic) w = (Inr xs, w1)"
      using BRPop_total BRPop_nil assms(2) by blast
    have "queued_ok topic (last (lists (data w) (queueKey topic)))"
      using assms by (intro store_ok_lists) auto
    from queued_okD(1) [OF this] p e b BRPop_ok [OF b] show False by (simp add: popMessage_def)
  qed
  with popMessage_effect [OF p assms(1)] assms(2) p show ?thesis by (auto intro: that)
qed

lemma newEntry_encodes:
  assumes "message_json m = Inr j"
  shows "\<exists>e. entry_json (newEntry m g c (time_Add (Now R w) vt)) = Inr e"
  using assms deadline_json [of w] by (auto simp: entry_json_def)

lemma addToPEL_live:
  assumes "message_json m = Inr j" and "message_ok m" and "wire_form m = m"
  obtains w' s y where "addToPEL R vt (Some m) g c w = (Returns None, w')"
    "data w' = zset_add (pelKey (msg_Topic m) g) s y (data w)" "entry_message (text_entry y) = m"
    "s = Unix (time_Add (Now R w) vt)"
proof -
  obtain e where e: "entry_json (newEntry m g c (time_Add (Now R w) vt)) = Inr e"
    using newEntry_encodes [OF assms(1)] by blast
  obtain n w' where z: "ZAdd R (pelKey (msg_Topic m) g) (Unix (time_Add (Now R w) vt)) (Json e) w = (Inr n, w')"
    using ZAdd_total by blast
  have "Unmarshal_entry (Json e) = Inr (newEntry m g c (time_Add (Now R w) vt))"
    using entry_roundtrip [OF e _ assms(2)] deadline_whole assms(3) by (simp add: newEntry_def)
  then have "entry_message (text_entry (Json e)) = m" by (simp add: text_entry_def entry_message_def)
  with e z ZAdd_ok [OF z] show ?thesis
    by (intro that [of w' _ "Json e"]) (auto simp: addToPEL_def Let_def)
qed

text \<open>One round of the loop on a list that has a message left.\<close>

lemma fetch_round:
  assumes ok: "store_ok (data w)" and ne: "lists (data w) (queueKey topic) \<noteq> []"
  obtains m rest w2 where "waiting (data w) topic = m # rest"
    "fetchLoop R vt topic g c (Suc n) ms w = fetchLoop R vt topic g c n (ms @ [m]) w2"
    "waiting (data w2) = (waiting (data w))(topic := rest)" "held (data w2) = held (data w)"
    "store_ok (data w2)"
proof -
  define x where "x = last (lists (data w) (queueKey topic))"
  have q: "queued_ok topic x" using ok ne unfolding x_def by (intro store_ok_lists) auto
  note x = queued_okD [OF q]
  obtain j where j: "message_json (text_message x) = Inr j" using queued_ok_json [OF q] by blast
  obtain w1 where p: "popMessage R topic w = (Inr (Some (text_message x)), w1)"
    "data w1 = pop_right (queueKey topic) (data w)"
    using popMessage_live [OF ok ne] unfolding x_def by blast
  obtain w2 s y where a: "addToPEL R vt (Some (text_message x)) g c w1 = (Returns None, w2)"
    "data w2 = zset_add (pelKey topic g) s y (data w1)" "entry_message (text_entry y) = text_message x"
    using addToPEL_live [OF j x(3,4)] x(2) by metis
  have "store_ok (data w2)"
    using addToPEL_store_ok [OF a(1) x(3)] p(2) ok by (simp add: store_ok_pop)
  moreover have "waiting (data w) topic = text_message x # tl (waiting (data w) topic)"
    using ne by (cases "lists (data w) (queueKey topic)" rule: rev_cases) (simp_all add: waiting_def x_def)
  moreover have "waiting (data w2) = (waiting (data w))(topic := tl (waiting (data w) topic))"
    by (simp add: a(2) p(2) fun_eq_iff)
  moreover have "held (data w2) = held (data w)"
    unfolding a(2) p(2) using ne a(3) by (intro held_move) (simp_all add: x_def)
  ultimately show ?thesis
    using p a by (intro that [of "text_message x" "tl (waiting (data w) topic)" w2]) simp_all
qed

lemma fetchLoop_full:
  assumes "n \<le> length (waiting (data w) topic)" and "store_ok (data w)"
  shows "\<exists>w'. fetchLoop R vt topic g c n ms w = (Returns (ms @ take n (waiting (data w) topic)), w')
    \<and> waiting (data w') = (waiting (data w))(topic := drop n (waiting (data w) topic))
    \<and> held (data w') = held (data w) \<and> store_ok (data w')"
  using assms
proof (induction n arbitrary: ms w)
  case 0
  then show ?case by simp
next
  case (Suc n)
  then have "lists (data w) (queueKey topic) \<noteq> []" by auto
  from fetch_round [OF Suc.prems(2) this, of g c n ms] obtain m rest w2
    where r: "waiting (data w) topic = m # rest"
      "fetchLoop R vt topic g c (Suc n) ms w = fetchLoop R vt topic g c n (ms @ [m]) w2"
      "waiting (data w2) = (waiting (data w))(topic := rest)" "held (data w2) = held (data w)"
      "store_ok (data w2)" .
  have "n \<le> length (waiting (data w2) topic)" using Suc.prems(1) unfolding r(1,3) by simp
  from Suc.IH [OF this r(5), of "ms @ [m]"] show ?case
    using r(3) unfolding r(2,1,4) by (simp only: fun_upd_upd fun_upd_same) simp
qed

text \<open>
  Asking for more than is there: the wait for the next message times out, and the nil message is
  dereferenced. The messages popped before that are pending, nobody received them.
\<close>

lemma fetchLoop_short:
  assumes "length (waiting (data w) topic) < n" and "store_ok (data w)"
  shows "\<exists>w'. fetchLoop R vt topic g c n ms w = (Panics NilDereference, w')
    \<and> waiting (data w') = (waiting (data w))(topic := [])
    \<and> held (data w') = held (data w) \<and> store_ok (data w')"
  using assms
proof (induction n arbitrary: ms w)
  case 0
  then show ?case by simp
next
  case (Suc n)
  show ?case
  proof (cases "lists (data w) (queueKey topic) = []")
    case True
    then obtain w1 where "popMessage R topic w = (Inr None, w1)" "data w1 = data w"
      by (rule popMessage_live_empty)
    with True Suc.prems(2) show ?thesis
      by (intro exI [of _ w1]) (simp add: addToPEL_def waiting_def fun_eq_iff)
  next
    case False
    from fetch_round [OF Suc.prems(2) this, of g c n ms] obtain m rest w2
      where r: "waiting (data w) topic = m # rest"
        "fetchLoop R vt topic g c (Suc n) ms w = fetchLoop R vt topic g c n (ms @ [m]) w2"
        "waiting (data w2) = (waiting (data w))(topic := rest)" "held (data w2) = held (data w)"
        "store_ok (data w2)" .
    have "length (waiting (data w2) topic) < n" using Suc.prems(1) unfolding r(1,3) by simp
    from Suc.IH [OF this r(5), of "ms @ [m]"] show ?thesis
      using r(3) unfolding r(2,4) by (simp only: fun_upd_upd)
  qed
qed

lemma FetchBatch_full:
  assumes "store_ok (data w)" and "rq_visibilityTimeout q = vt"
    and "0 \<le> n" and "n \<le> int (length (waiting (data w) topic))"
  shows "\<exists>w'. FetchBatch R q topic g c n w = (Returns (Inr (take (nat n) (waiting (data w) topic))), w')
    \<and> waiting (data w') = (waiting (data w))(topic := drop (nat n) (waiting (data w) topic))
    \<and> held (data w') = held (data w) \<and> store_ok (data w')"
proof -
  have "nat n \<le> length (waiting (data w) topic)" using assms(3,4) by linarith
  from fetchLoop_full [OF this assms(1), of g c "[]"] assms(2,3) show ?thesis
    by (auto simp: FetchBatch_def)
qed

lemma FetchBatch_short:
  assumes "store_ok (data w)" and "rq_visibilityTimeout q = vt"
    and "int (length (waiting (data w) topic)) < n"
  shows "\<exists>w'. FetchBatch R q topic g c n w = (Panics NilDereference, w')
    \<and> waiting (data w') = (waiting (data w))(topic := [])
    \<and> held (data w') = held (data w) \<and> store_ok (data w')"
proof -
  have "length (waiting (data w) topic) < nat n" "\<not> n < 0" using assms(3) by linarith+
  from fetchLoop_short [OF this(1) assms(1), of g c "[]"] this(2) assms(2) show ?thesis
    by (auto simp: FetchBatch_def)
qed

text \<open>
  \<open>Ack\<close> and \<open>Nack\<close> succeed exactly when the group has an entry of the message.
\<close>

lemma scan_live:
  assumes "store_ok (data w)"
  obtains xs w1 where "ZRange R (pelKey topic g) w = (Inr xs, w1)" "data w1 = data w"
    "set xs = dom (zsets (data w) (pelKey topic g))"
    "find_entry messageID xs =
      Returns (map_option (\<lambda>x. (x, text_entry x)) (find (entry_is messageID) xs))"
proof -
  obtain xs w1 where z: "ZRange R (pelKey topic g) w = (Inr xs, w1)" using ZRange_total by blast
  have "find_entry messageID xs =
      Returns (map_option (\<lambda>x. (x, text_entry x)) (find (entry_is messageID) xs))"
    using ZRange_pending [OF z assms] by (intro find_entry_ok) blast
  with z ZRange_ok [OF z] show ?thesis by (auto intro: that)
qed

lemma Ack_live:
  assumes "store_ok (data w)"
  shows "(\<nexists>x. is_entry_of (data w) (pelKey topic g) messageID x) \<Longrightarrow> \<exists>w'. data w' = data w \<and>
      Ack R topic g messageID w = (Returns (Some (Errorf (''message not found in PEL: '' @ messageID))), w')"
    and "is_entry_of (data w) (pelKey topic g) messageID x \<Longrightarrow> \<exists>y w'.
      Ack R topic g messageID w = (Returns None, w') \<and> is_entry_of (data w) (pelKey topic g) messageID y
      \<and> data w' = zset_remove (pelKey topic g) y (data w)"
proof -
  obtain xs w1 where z: "ZRange R (pelKey topic g) w = (Inr xs, w1)" "data w1 = data w"
    "set xs = dom (zsets (data w) (pelKey topic g))"
    and f: "find_entry messageID xs =
      Returns (map_option (\<lambda>x. (x, text_entry x)) (find (entry_is messageID) xs))"
    by (rule scan_live [OF assms, of topic g messageID])
  show "\<exists>w'. data w' = data w \<and>
      Ack R topic g messageID w = (Returns (Some (Errorf (''message not found in PEL: '' @ messageID))), w')"
    if "\<nexists>x. is_entry_of (data w) (pelKey topic g) messageID x"
  proof -
    have "find (entry_is messageID) xs = None"
      using that z(3) by (auto simp: find_None_iff is_entry_of_def)
    with f z(1,2) show ?thesis by (auto simp: Ack_def)
  qed
  show "\<exists>y w'. Ack R topic g messageID w = (Returns None, w') \<and> is_entry_of (data w) (pelKey topic g) messageID y
      \<and> data w' = zset_remove (pelKey topic g) y (data w)"
    if x: "is_entry_of (data w) (pelKey topic g) messageID x"
  proof -
    obtain y where y: "find (entry_is messageID) xs = Some y"
      using x z(3) by (cases "find (entry_is messageID) xs") (auto simp: find_None_iff is_entry_of_def)
    then have "is_entry_of (data w) (pelKey topic g) messageID y"
      using z(3) by (auto simp: find_Some_iff is_entry_of_def dest: nth_mem)
    moreover obtain n w' where "ZRem R (pelKey topic g) y w1 = (Inr n, w')" using ZRem_total by blast
    ultimately show ?thesis
      using f y z(1,2) ZRem_ok [of "pelKey topic g" y w1 n w']
      by (intro exI [of _ y] exI [of _ w']) (simp add: Ack_def)
  qed
qed

lemma requeue_live:
  assumes "message_json m = Inr j"
  obtains w' where "requeueMessage R (Some m) w = (Returns None, w')"
    "data w' = push_right (queueKey (msg_Topic m)) (Json j) (data w)"
proof -
  obtain n w' where "RPush R (queueKey (msg_Topic m)) (Json j) w = (Inr n, w')" using RPush_total by blast
  with assms RPush_ok show ?thesis by (intro that [of w']) (auto simp: requeueMessage_def)
qed

lemma Nack_live:
  assumes "store_ok (data w)" and "is_entry_of (data w) (pelKey topic g) messageID x"
  shows "\<exists>y w'. Nack R topic g messageID w = (Returns None, w')
      \<and> is_entry_of (data w) (pelKey topic g) messageID y \<and> nacked (pelKey topic g) y (data w) (data w')"
proof -
  obtain xs w1 where z: "ZRange R (pelKey topic g) w = (Inr xs, w1)" "data w1 = data w"
    "set xs = dom (zsets (data w) (pelKey topic g))"
    and f: "find_entry messageID xs =
      Returns (map_option (\<lambda>x. (x, text_entry x)) (find (entry_is messageID) xs))"
    by (rule scan_live [OF assms(1), of topic g messageID])
  obtain y where y: "find (entry_is messageID) xs = Some y"
    using assms(2) z(3) by (cases "find (entry_is messageID) xs") (auto simp: find_None_iff is_entry_of_def)
  then have e: "is_entry_of (data w) (pelKey topic g) messageID y"
    using z(3) by (auto simp: find_Some_iff is_entry_of_def dest: nth_mem)
  note m = is_entry_of_text [OF e assms(1)]
  obtain n w2 where r: "ZRem R (pelKey topic g) y w1 = (Inr n, w2)" using ZRem_total by blast
  obtain j where j: "message_json (entry_message (text_entry y)) = Inr j"
    using is_entry_of_json [OF e assms(1)] by blast
  obtain w3 where q: "requeueMessage R (Some (entry_message (text_entry y))) w2 = (Returns None, w3)"
    "data w3 = push_right (queueKey (msg_Topic (entry_message (text_entry y)))) (Json j) (data w2)"
    using requeue_live [OF j] by blast
  have "nacked (pelKey topic g) y (data w) (data w3)"
    using q(2) j ZRem_ok [OF r] z(2) by (simp add: nacked_def)
  with e f y z(1) m r q(1) show ?thesis
    by (intro exI [of _ y] exI [of _ w3]) (simp add: Nack_def)
qed

text \<open>
  Expiry. An expired entry leaves its set, and its message goes to the list or to the dead
  letters; entries that are not expired stay.
\<close>

lemma expireEntry_live:
  assumes "pending_ok key s x" and "HasPrefix key ''pel:''"
  shows "\<exists>q' w'. expireEntry R key x q w = (Returns q', w') \<and> rq_maxRetries q' = rq_maxRetries q
    \<and> held (data w') \<union> dead q' = insert (entry_message (text_entry x)) (held (data w) \<union> dead q)
    \<and> zsets (data w') = (zsets (data w))(key := (zsets (data w) key)(x := None))
    \<and> (1 < rq_maxRetries q \<longrightarrow> q' = q)"
proof -
  obtain e m where e: "Unmarshal_entry x = Inr e" "text_entry x = e" "pe_Message e = Some m"
    "entry_message e = m" "pe_DeliveryCount e = 1" using assms(1) by (rule pending_okD)
  obtain j where j: "message_json m = Inr j" "text_message (Json j) = m"
    using pending_ok_json(1) [OF assms(1)] e by auto
  obtain n w1 where z: "ZRem R key x w = (Inr n, w1)" using ZRem_total by blast
  have w1: "data w1 = zset_remove key x (data w)" using ZRem_ok [OF z] .
  obtain w2 where r: "requeueMessage R (Some m) w1 = (Returns None, w2)"
    "data w2 = push_right (queueKey (msg_Topic m)) (Json j) (data w1)"
    using requeue_live [OF j(1)] by blast
  note h = held_zset_remove [where k = key and x = x and d = "data w"]
  show ?thesis
  proof (cases "1 \<ge> rq_maxRetries q")
    case True
    then show ?thesis
      using e z w1 h by (auto simp: expireEntry_def dead_def)
  next
    case False
    then show ?thesis
      using e z w1 r h j by (auto simp: expireEntry_def)
  qed
qed

lemma expireEntries_live:
  assumes "\<forall>x \<in> set xs. \<exists>s. pending_ok key s x" and "HasPrefix key ''pel:''"
    and "held (data w) \<union> dead q = H" and "\<forall>x \<in> set xs. entry_message (text_entry x) \<in> H"
  shows "\<exists>q' w'. expireEntries R key xs q w = (Returns q', w')
    \<and> held (data w') \<union> dead q' = H \<and> rq_maxRetries q' = rq_maxRetries q \<and> (1 < rq_maxRetries q \<longrightarrow> q' = q)
    \<and> zsets (data w') = (zsets (data w))(key := \<lambda>x. if x \<in> set xs then None else zsets (data w) key x)"
  using assms
proof (induction xs arbitrary: q w)
  case Nil
  then show ?case by simp
next
  case (Cons x xs)
  obtain s where "pending_ok key s x" using Cons.prems(1) by auto
  from expireEntry_live [OF this Cons.prems(2), of q w] obtain q1 w1
    where a: "expireEntry R key x q w = (Returns q1, w1)" "rq_maxRetries q1 = rq_maxRetries q"
      "held (data w1) \<union> dead q1 = insert (entry_message (text_entry x)) (held (data w) \<union> dead q)"
      "zsets (data w1) = (zsets (data w))(key := (zsets (data w) key)(x := None))"
      "1 < rq_maxRetries q \<longrightarrow> q1 = q" by - (elim exE conjE, rule that)
  have xs: "\<forall>x \<in> set xs. \<exists>s. pending_ok key s x" and inH: "\<forall>x \<in> set xs. entry_message (text_entry x) \<in> H"
    using Cons.prems(1,4) by simp_all
  have H: "held (data w1) \<union> dead q1 = H" unfolding a(3) Cons.prems(3) using Cons.prems(4) by (simp add: insert_absorb)
  obtain q2 w2 where b: "expireEntries R key xs q1 w1 = (Returns q2, w2)" "held (data w2) \<union> dead q2 = H"
    "rq_maxRetries q2 = rq_maxRetries q1" "1 < rq_maxRetries q1 \<longrightarrow> q2 = q1"
    "zsets (data w2) = (zsets (data w1))(key := \<lambda>x. if x \<in> set xs then None else zsets (data w1) key x)"
    using Cons.IH [OF xs Cons.prems(2) H inH] by - (elim exE conjE, rule that)
  have "zsets (data w2) = (zsets (data w))(key := \<lambda>y. if y \<in> set (x # xs) then None else zsets (data w) key y)"
    by (auto simp: b(5) a(4) fun_eq_iff)
  with a b show ?case by auto
qed

lemma expireKeys_live:
  assumes "\<forall>k \<in> set keys. HasPrefix k ''pel:''" and "store_ok (data w)" and "held (data w) \<union> dead q = H"
  shows "\<exists>q' w'. expireKeys R now keys q w = (Returns q', w') \<and> held (data w') \<union> dead q' = H
    \<and> (1 < rq_maxRetries q \<longrightarrow> q' = q)
    \<and> (\<forall>k. zsets (data w') k = (if k \<in> set keys then unexpired (Unix now) (zsets (data w) k) else zsets (data w) k))"
  using assms
proof (induction keys arbitrary: q w)
  case Nil
  then show ?case by simp
next
  case (Cons key keys)
  have key: "HasPrefix key ''pel:''" using Cons.prems(1) by simp
  obtain xs w1 where z: "ZRangeByScore R key (Unix now) w = (Inr xs, w1)" using ZRangeByScore_total by blast
  note zr = ZRangeByScore_ok [OF z]
  then have w1: "data w1 = data w" and xs: "set xs = {m. \<exists>s. zsets (data w) key m = Some s \<and> s \<le> Unix now}" by auto
  have ok: "\<forall>x \<in> set xs. \<exists>s. pending_ok key s x" using xs key Cons.prems(2) by (auto dest: store_ok_zsets)
  have inH: "\<forall>x \<in> set xs. entry_message (text_entry x) \<in> H"
    using xs key Cons.prems(3) held_pending [of "data w" key] by auto
  have "held (data w1) \<union> dead q = H" using Cons.prems(3) w1 by simp
  from expireEntries_live [OF ok key this inH] obtain q1 w2
    where a: "expireEntries R key xs q w1 = (Returns q1, w2)" "held (data w2) \<union> dead q1 = H"
      "rq_maxRetries q1 = rq_maxRetries q" "1 < rq_maxRetries q \<longrightarrow> q1 = q"
      "zsets (data w2) = (zsets (data w))(key := \<lambda>x. if x \<in> set xs then None else zsets (data w) key x)"
    unfolding w1 by - (elim exE conjE, rule that)
  have zk: "zsets (data w2) key = unexpired (Unix now) (zsets (data w) key)"
    by (auto simp: a(5) xs unexpired_def fun_eq_iff split: option.splits)
  have keys: "\<forall>k \<in> set keys. HasPrefix k ''pel:''" using Cons.prems(1) by simp
  have ok2: "store_ok (data w2)"
    using expireEntries_returns [OF a(1) ok] w1 Cons.prems(2) by auto
  obtain q2 w3 where b: "expireKeys R now keys q1 w2 = (Returns q2, w3)" "held (data w3) \<union> dead q2 = H"
    "1 < rq_maxRetries q1 \<longrightarrow> q2 = q1"
    "\<forall>k. zsets (data w3) k = (if k \<in> set keys then unexpired (Unix now) (zsets (data w2) k) else zsets (data w2) k)"
    using Cons.IH [OF keys ok2 a(2)] by - (elim exE conjE, rule that)
  have "zsets (data w3) k = (if k \<in> set (key # keys) then unexpired (Unix now) (zsets (data w) k) else zsets (data w) k)" for k
  proof (cases "k = key")
    case True
    have "unexpired (Unix now) (unexpired (Unix now) z) = unexpired (Unix now) z" for z
      by (auto simp: unexpired_def fun_eq_iff split: option.splits)
    with True zk b(4) show ?thesis by simp
  next
    case False
    then show ?thesis using b(4) a(5) by simp
  qed
  with a b z show ?case by auto
qed

lemma checkExpiredMessages_live:
  assumes "store_ok (data w)"
  shows "\<exists>q' w' wc. checkExpiredMessages R q w = (Returns q', w') \<and> data wc = data w
    \<and> held (data w') \<union> dead q' = held (data w) \<union> dead q \<and> (1 < rq_maxRetries q \<longrightarrow> q' = q)
    \<and> (\<forall>k. HasPrefix k ''pel:'' \<longrightarrow> zsets (data w') k = unexpired (Unix (Now R wc)) (zsets (data w) k))"
proof -
  obtain ks w1 where k: "Keys R ''pel:*'' w = (Inr ks, w1)" using Keys_total by blast
  have kk: "data w1 = data w"
    "set ks = {k. HasPrefix k ''pel:'' \<and> (lists (data w) k \<noteq> [] \<or> dom (zsets (data w) k) \<noteq> {})}"
    using Keys_ok [of "''pel:''" w ks w1] k by auto
  obtain q' w' where a: "expireKeys R (Now R w1) ks q w1 = (Returns q', w')"
    "held (data w') \<union> dead q' = held (data w1) \<union> dead q" "1 < rq_maxRetries q \<longrightarrow> q' = q"
    "\<And>k. zsets (data w') k = (if k \<in> set ks then unexpired (Unix (Now R w1)) (zsets (data w1) k) else zsets (data w1) k)"
    using expireKeys_live [of ks w1 q _ "Now R w1"] kk assms by auto
  have "zsets (data w') key = unexpired (Unix (Now R w1)) (zsets (data w) key)" if p: "HasPrefix key ''pel:''" for key
  proof (cases "key \<in> set ks")
    case False
    then have "zsets (data w) key = Map.empty" using p kk(2) by auto
    then show ?thesis using a(4) [of key] False kk(1) by (simp add: unexpired_def fun_eq_iff)
  qed (simp add: a(4) kk(1))
  with a k kk(1) show ?thesis by (auto simp: checkExpiredMessages_def)
qed

end

section \<open>Runs of the service\<close>

text \<open>
  The states the service can reach from an empty store by any sequence of its operations, with
  the set \<open>P\<close> of the messages whose publication was confirmed and the set \<open>A\<close> of the message IDs
  whose acknowledgement was confirmed. Between the operations the clock moves and consumers come
  and go. A panic in a handler is recovered by \<open>net/http\<close>, so the run goes on
  after it.
\<close>

inductive serves :: "'w redis \<Rightarrow> ('w \<Rightarrow> store) \<Rightarrow> RedisQueue \<Rightarrow> 'w \<Rightarrow> Message set \<Rightarrow> string set \<Rightarrow> bool"
  for R :: "'w redis" and data :: "'w \<Rightarrow> store" where
  start: "store_ok (data w) \<Longrightarrow> held (data w) = {} \<Longrightarrow> serves R data (NewRedisQueue vt mr) w {} {}"
| published: "serves R data q w P A \<Longrightarrow> message_ok m \<Longrightarrow> Publish R m w = (None, w')
    \<Longrightarrow> serves R data q w' (insert (wire_form m) P) A"
| refused: "serves R data q w P A \<Longrightarrow> message_ok m \<Longrightarrow> Publish R m w = (Some e, w') \<Longrightarrow> serves R data q w' P A"
| fetched: "serves R data q w P A \<Longrightarrow> FetchBatch R q topic g c n w = (r, w') \<Longrightarrow> serves R data q w' P A"
| acked: "serves R data q w P A \<Longrightarrow> Ack R topic g messageID w = (Returns None, w')
    \<Longrightarrow> serves R data q w' P (insert messageID A)"
| not_acked: "serves R data q w P A \<Longrightarrow> Ack R topic g messageID w = (r, w') \<Longrightarrow> r \<noteq> Returns None
    \<Longrightarrow> serves R data q w' P A"
| nacked: "serves R data q w P A \<Longrightarrow> Nack R topic g messageID w = (r, w') \<Longrightarrow> serves R data q w' P A"
| expired: "serves R data q w P A \<Longrightarrow> checkExpiredMessages R q w = (Returns q', w') \<Longrightarrow> serves R data q' w' P A"
| idle: "serves R data q w P A \<Longrightarrow> data w' = data w \<Longrightarrow> serves R data q w' P A"
| registry: "serves R data q w P A \<Longrightarrow> serves R data (q\<lparr>rq_consumerGroups := cg, rq_deliverers := ds\<rparr>) w P A"

inductive_cases serves_cases: "serves R data q w P A"

text \<open>On any server that keeps the laws: the store stays well-formed and the configuration fixed.\<close>

context redis_server
begin

lemma serves_store_ok: "serves R data q w P A \<Longrightarrow> store_ok (data w)"
proof (induction rule: serves.induct)
  case (expired q w P A q' w')
  then show ?case using checkExpiredMessages_returns by blast
qed (auto intro: Publish_store_ok FetchBatch_store_ok Ack_store_ok Nack_store_ok)

lemma serves_no_dead_letters:
  "serves R data q w P A \<Longrightarrow> 1 < rq_maxRetries q \<Longrightarrow> rq_deadLetterQueue q = []"
proof (induction rule: serves.induct)
  case (expired q w P A q' w')
  have "only_dead_letters q q'"
    using checkExpiredMessages_returns [OF expired.hyps(2) serves_store_ok [OF expired.hyps(1)]] by simp
  with expired show ?case by (auto simp: only_dead_letters_def)
qed (simp_all add: NewRedisQueue_def)

end

text \<open>On a server that answers: nothing is lost and nothing is made up.\<close>

context redis_live
begin

lemma Publish_held:
  assumes "Publish R m w = (r, w')" and "message_ok m"
  shows "held (data w') = (if r = None then insert (wire_form m) (held (data w)) else held (data w))"
proof (cases "message_json m")
  case (Inl e)
  with assms show ?thesis by (auto simp: Publish_def)
next
  case (Inr j)
  obtain w1 where "Publish R m w = (None, w1)" "data w1 = push_left (queueKey (msg_Topic m)) (Json j) (data w)"
    using Publish_live [OF Inr] by blast
  with assms(1) text_message_Json [OF Inr assms(2)] show ?thesis by simp
qed

lemma FetchBatch_held:
  assumes "FetchBatch R q topic g c n w = (r, w')" and "store_ok (data w)"
    and "rq_visibilityTimeout q = vt"
  shows "held (data w') = held (data w)"
proof -
  consider "n < 0" | "0 \<le> n" "n \<le> int (length (waiting (data w) topic))"
    | "int (length (waiting (data w) topic)) < n" by linarith
  then show ?thesis
  proof cases
    case 1
    with assms(1) show ?thesis by (simp add: FetchBatch_def)
  next
    case 2
    from FetchBatch_full [OF assms(2,3) this, of g c] assms(1) show ?thesis by auto
  next
    case 3
    from FetchBatch_short [OF assms(2,3) this, of g c] assms(1) show ?thesis by auto
  qed
qed

lemma Ack_held:
  assumes "Ack R topic g messageID w = (r, w')" and "store_ok (data w)"
  shows "held (data w') \<subseteq> held (data w)"
    and "m \<in> held (data w) \<Longrightarrow> m \<in> held (data w') \<or> msg_ID m = messageID \<and> r = Returns None"
proof -
  consider "data w' = data w"
    | x where "r = Returns None" "is_entry_of (data w) (pelKey topic g) messageID x"
      "data w' = zset_remove (pelKey topic g) x (data w)"
  proof (cases "\<exists>x. is_entry_of (data w) (pelKey topic g) messageID x")
    case True
    with Ack_live(2) [OF assms(2)] assms(1) that show ?thesis by fastforce
  next
    case False
    with Ack_live(1) [OF assms(2)] assms(1) that show ?thesis by fastforce
  qed
  note cs = this
  show "held (data w') \<subseteq> held (data w)"
    using cs by cases (simp_all add: held_zset_remove)
  show "m \<in> held (data w') \<or> msg_ID m = messageID \<and> r = Returns None" if m: "m \<in> held (data w)"
    using cs
  proof cases
    case (2 x)
    with m held_zset_remove(2) [of "data w" x "pelKey topic g"] show ?thesis
      by (auto simp: is_entry_of_def entry_is_def)
  qed (use m in simp)
qed

lemma Nack_held:
  assumes "Nack R topic g messageID w = (r, w')" and "store_ok (data w)"
  shows "held (data w') = held (data w)"
proof (cases "\<exists>x. is_entry_of (data w) (pelKey topic g) messageID x")
  case True
  then obtain y where y: "is_entry_of (data w) (pelKey topic g) messageID y"
    "nacked (pelKey topic g) y (data w) (data w')"
    using Nack_live [OF assms(2)] assms(1) by (metis prod.inject)
  then obtain j where j: "message_json (entry_message (text_entry y)) = Inr j"
    "data w' = push_right (queueKey (msg_Topic (entry_message (text_entry y)))) (Json j) (zset_remove (pelKey topic g) y (data w))"
    by (auto simp: nacked_def)
  have t: "text_message (Json j) = entry_message (text_entry y)"
    using is_entry_of_json [OF y(1) assms(2)] j(1) by auto
  note h = held_zset_remove [where k = "pelKey topic g" and x = y and d = "data w"]
  have "entry_message (text_entry y) \<in> held (data w)"
    using y(1) held_pending [of "data w" "pelKey topic g"] by (auto simp: is_entry_of_def)
  with h have "insert (entry_message (text_entry y)) (held (zset_remove (pelKey topic g) y (data w))) = held (data w)"
    by blast
  then show ?thesis unfolding j(2) by (simp add: t)
next
  case False
  then show ?thesis using Nack_effect(3) [OF assms] by auto
qed

lemma serves_held:
  "serves R data q w P A \<Longrightarrow> rq_visibilityTimeout q = vt \<Longrightarrow>
    held (data w) \<union> dead q \<subseteq> P \<and> (\<forall>m \<in> P. msg_ID m \<in> A \<or> m \<in> held (data w) \<union> dead q)"
proof (induction rule: serves.induct)
  case (start w)
  then show ?case by (simp add: dead_def NewRedisQueue_def)
next
  case (published q w P A m w')
  with Publish_held [OF published.hyps(3,2)] show ?case by auto
next
  case (refused q w P A m e w')
  with Publish_held [OF refused.hyps(3,2)] show ?case by auto
next
  case (fetched q w P A topic g c n r w')
  with FetchBatch_held [OF fetched.hyps(2) serves_store_ok [OF fetched.hyps(1)]] show ?case by simp
next
  case (acked q w P A topic g messageID w')
  with Ack_held [OF acked.hyps(2) serves_store_ok [OF acked.hyps(1)]] show ?case by blast
next
  case (not_acked q w P A topic g messageID r w')
  with Ack_held [OF not_acked.hyps(2) serves_store_ok [OF not_acked.hyps(1)]] show ?case by blast
next
  case (nacked q w P A topic g messageID r w')
  with Nack_held [OF nacked.hyps(2) serves_store_ok [OF nacked.hyps(1)]] show ?case by simp
next
  case (expired q w P A q' w')
  have ok: "store_ok (data w)" by (rule serves_store_ok [OF expired.hyps(1)])
  have "held (data w') \<union> dead q' = held (data w) \<union> dead q"
    using checkExpiredMessages_live [OF ok, of q] expired.hyps(2) by auto
  moreover have "rq_visibilityTimeout q' = rq_visibilityTimeout q"
    using checkExpiredMessages_returns [OF expired.hyps(2) ok] by (auto simp: only_dead_letters_def)
  ultimately show ?case using expired by simp
qed (simp_all add: dead_def)

end

section \<open>The store in memory is a live server\<close>

lemma mem_clock: "0 \<le> t_ns (Now calm_redis w)" "t_ns (Now calm_redis w) \<le> 4000000000 * second"
  "t_off (Now calm_redis w) = 0"
  by (simp_all add: calm_redis_def mem_redis_def second_def)

interpretation live: redis_live calm_redis mem_data "5 * minute"
proof unfold_locales
  fix w
  define t where "t = time_Add (Now calm_redis w) (5 * minute)"
  have "0 \<le> t_ns t" "t_ns t \<le> 5000000000 * second" "t_off t = 0"
    using mem_clock [of w] by (simp_all add: t_def time_Add_def minute_def second_def)
  then have "0 \<le> Unix t" "Unix t \<le> 5000000000"
    by (simp_all add: Unix_def second_def)
  then show "\<exists>ts. time_json (time_Add (Now calm_redis w) (5 * minute)) = Inr ts"
    using \<open>t_off t = 0\<close> by (simp add: time_json_def Let_def flip: t_def)
qed

section \<open>A run on the store in memory\<close>

text \<open>One message is published, then fetched. The witnesses use these states.\<close>

definition sample :: Message where
  "sample = \<lparr>msg_ID = ''m1'', msg_Topic = ''telemetry'', msg_Payload = Raw (Json (JInt 7)),
     msg_Headers = None, msg_Timestamp = \<lparr>t_ns = 0, t_off = 0\<rparr>, msg_Metadata = None\<rparr>"

definition sample_queue :: RedisQueue where
  "sample_queue = NewRedisQueue (5 * minute) 3"

definition empty_world :: mem where
  "empty_world = \<lparr>mem_lists = [], mem_zsets = [], mem_now = 0, mem_faults = []\<rparr>"

definition published_world :: mem where
  "published_world = snd (Publish calm_redis sample empty_world)"

definition fetched_world :: mem where
  "fetched_world = snd (FetchBatch calm_redis sample_queue ''telemetry'' ''g'' ''c'' 1 published_world)"

lemma sample_props: "message_ok sample" "wire_form sample = sample" "msg_Topic sample = ''telemetry''"
  "msg_ID sample = ''m1''" "\<exists>j. message_json sample = Inr j"
  by (simp_all add: sample_def message_ok_def wire_form_def nil_if_empty_def message_json_def
      raw_json_def time_json_def Let_def Unix_def omit_empty_def second_def)

lemma sample_queue_sel [simp]: "rq_visibilityTimeout sample_queue = 5 * minute"
  "rq_maxRetries sample_queue = 3"
  by (simp_all add: sample_queue_def NewRedisQueue_def)

lemma empty_world_props: "store_ok (mem_data empty_world)" "waiting (mem_data empty_world) t = []"
  "held (mem_data empty_world) = {}"
  by (simp_all add: store_ok_def held_def waiting_def pending_in_def empty_world_def mem_list_def mem_zset_def)

lemma published_world_props:
  "Publish calm_redis sample empty_world = (None, published_world)"
  "store_ok (mem_data published_world)" "waiting (mem_data published_world) ''telemetry'' = [sample]"
  "serves calm_redis mem_data sample_queue published_world {sample} {}"
proof -
  obtain j where j: "message_json sample = Inr j" using sample_props(5) by blast
  obtain w where w: "Publish calm_redis sample empty_world = (None, w)"
    "mem_data w = push_left (queueKey (msg_Topic sample)) (Json j) (mem_data empty_world)"
    using live.Publish_live [OF j] by blast
  then have p: "published_world = w" by (simp add: published_world_def)
  show "Publish calm_redis sample empty_world = (None, published_world)" by (simp add: p w(1))
  then show "store_ok (mem_data published_world)"
    using calm.Publish_store_ok sample_props(1) empty_world_props(1) by blast
  show "waiting (mem_data published_world) ''telemetry'' = [sample]"
    using text_message_Json [OF j sample_props(1)]
    by (simp add: p w(2) sample_props empty_world_props)
  have "serves calm_redis mem_data sample_queue empty_world {} {}"
    unfolding sample_queue_def by (intro serves.start empty_world_props)
  from serves.published [OF this sample_props(1), of published_world] w(1) p sample_props(2)
  show "serves calm_redis mem_data sample_queue published_world {sample} {}" by simp
qed

lemma fetched_world_props:
  "FetchBatch calm_redis sample_queue ''telemetry'' ''g'' ''c'' 1 published_world
    = (Returns (Inr [sample]), fetched_world)"
  "store_ok (mem_data fetched_world)" "waiting (mem_data fetched_world) ''telemetry'' = []"
  "\<exists>x. is_entry_of (mem_data fetched_world) (pelKey ''telemetry'' ''g'') ''m1'' x"
  "serves calm_redis mem_data sample_queue fetched_world {sample} {}"
proof -
  have "\<exists>w'. FetchBatch calm_redis sample_queue ''telemetry'' ''g'' ''c'' 1 published_world
      = (Returns (Inr [sample]), w') \<and> waiting (mem_data w') ''telemetry'' = [] \<and> store_ok (mem_data w')"
    using live.FetchBatch_full [OF published_world_props(2), of sample_queue 1 "''telemetry''" "''g''" "''c''"]
    by (auto simp: published_world_props(3))
  then show f: "FetchBatch calm_redis sample_queue ''telemetry'' ''g'' ''c'' 1 published_world
      = (Returns (Inr [sample]), fetched_world)"
    and "waiting (mem_data fetched_world) ''telemetry'' = []" "store_ok (mem_data fetched_world)"
    by (auto simp: fetched_world_def)
  have "pending_in (mem_data fetched_world) (pelKey ''telemetry'' ''g'') sample"
    using calm.FetchBatch_pending [OF f published_world_props(2)] by simp
  then show "\<exists>x. is_entry_of (mem_data fetched_world) (pelKey ''telemetry'' ''g'') ''m1'' x"
    by (auto simp: pending_in_def is_entry_of_def entry_is_def sample_props)
  show "serves calm_redis mem_data sample_queue fetched_world {sample} {}"
    by (rule serves.fetched [OF published_world_props(4) f])
qed

end
