(* ===== verification/QueueProperties.thy ===== *)
theory QueueProperties
  imports QueueDelivery
begin

text \<open>
  The properties of the competing-consumer queue of \<open>internal/queueservice/redis_queue.go\<close>, for
  every Redis server that keeps its laws, each with a run on the store in memory that meets its
  hypotheses.
\<close>

section \<open>On a server whose commands may fail\<close>

text \<open>C32. Whatever commands fail, every text in a topic's list decodes to a message of that topic,
  and every text in a pending set decodes to an entry that was delivered once, belongs to the
  group of its set and carries its deadline as its score.\<close>

theorem queue_store_typed:
  assumes "redis_server R data" and "serves R data q w P A"
  shows "(\<forall>topic. \<forall>x \<in> set (lists (data w) (queueKey topic)).
        \<exists>m. Unmarshal_message x = Inr m \<and> msg_Topic m = topic)
    \<and> (\<forall>key y s. HasPrefix key ''pel:'' \<longrightarrow> zsets (data w) key y = Some s \<longrightarrow>
        (\<exists>e m. Unmarshal_entry y = Inr e \<and> pe_Message e = Some m \<and> pe_DeliveryCount e = 1
          \<and> s = Unix (pe_VisibleAt e) \<and> key = pelKey (msg_Topic m) (pe_ConsumerGroup e)))"
proof (intro conjI allI ballI impI)
  have ok: "store_ok (data w)" by (rule redis_server.serves_store_ok [OF assms])
  show "\<exists>m. Unmarshal_message x = Inr m \<and> msg_Topic m = topic"
    if "x \<in> set (lists (data w) (queueKey topic))" for topic x
    using queued_okD(1,2) [OF store_ok_lists [OF ok that]] by blast
  show "\<exists>e m. Unmarshal_entry y = Inr e \<and> pe_Message e = Some m \<and> pe_DeliveryCount e = 1
        \<and> s = Unix (pe_VisibleAt e) \<and> key = pelKey (msg_Topic m) (pe_ConsumerGroup e)"
    if "HasPrefix key ''pel:''" "zsets (data w) key y = Some s" for key y s
  proof (rule pending_okD [OF store_ok_zsets [OF ok that]])
  qed blast
qed

theorem queue_store_typed_witness:
  "\<exists>x m. x \<in> set (lists (mem_data published_world) (queueKey ''telemetry''))
     \<and> Unmarshal_message x = Inr m \<and> msg_Topic m = ''telemetry''"
proof -
  have "length (lists (mem_data published_world) (queueKey ''telemetry'')) = 1"
    using published_world_props(3) waiting_length [of "mem_data published_world" "''telemetry''"]
    by (simp del: waiting_length)
  then obtain x where x: "x \<in> set (lists (mem_data published_world) (queueKey ''telemetry''))"
    by (cases "lists (mem_data published_world) (queueKey ''telemetry'')") auto
  then show ?thesis
    using queue_store_typed [OF calm.redis_server_axioms published_world_props(4)] x by blast
qed

text \<open>Whatever commands fail, a message that \<open>FetchBatch\<close> hands out is pending for the group
  that asked, so it is delivered again if the consumer never answers.\<close>

theorem fetched_is_pending:
  assumes "redis_server R data" and "serves R data q w P A"
    and "FetchBatch R q topic g c n w = (Returns (Inr ms), w')" and "m \<in> set ms"
  shows "\<exists>x s. zsets (data w') (pelKey topic g) x = Some s \<and> entry_message (text_entry x) = m"
  using redis_server.FetchBatch_pending [OF assms(1,3) redis_server.serves_store_ok [OF assms(1,2)]] assms(4)
  by (simp add: pending_in_def)

theorem fetched_is_pending_witness:
  "\<exists>x s. zsets (mem_data fetched_world) (pelKey ''telemetry'' ''g'') x = Some s
     \<and> entry_message (text_entry x) = sample"
  using fetched_is_pending [OF calm.redis_server_axioms published_world_props(4)
      fetched_world_props(1), of sample] by simp

text \<open>C28. With \<open>maxRetries\<close> of two or more the dead letter queue stays empty whatever happens: the
  delivery count that \<open>checkExpiredMessages\<close> increments is dropped with the entry, and the next
  delivery counts from one again.\<close>

theorem dead_letters_unreachable:
  assumes "redis_server R data" and "serves R data q w P A" and "2 \<le> rq_maxRetries q"
  shows "rq_deadLetterQueue q = []"
  using redis_server.serves_no_dead_letters [OF assms(1,2)] assms(3) by simp

theorem dead_letters_unreachable_witness: "rq_deadLetterQueue sample_queue = []"
  using dead_letters_unreachable [OF calm.redis_server_axioms published_world_props(4)] by simp

section \<open>On a server that answers every command\<close>

lemma live_store_ok:
  assumes "redis_live R data vt" and "serves R data q w P A"
  shows "store_ok (data w)"
proof -
  have "redis_server R data" using assms(1) by (simp add: redis_live_def redis_reliable_def)
  then show ?thesis using assms(2) by (rule redis_server.serves_store_ok)
qed

text \<open>\<open>Publish\<close> succeeds and appends the message, in the form its consumers decode, to the
  queue of its topic, and changes no other queue.\<close>

theorem publish_enqueues:
  assumes "redis_live R data vt" and "message_json m = Inr j" and "message_ok m"
  shows "\<exists>w'. Publish R m w = (None, w')
    \<and> waiting (data w') = (waiting (data w))(msg_Topic m := waiting (data w) (msg_Topic m) @ [wire_form m])"
proof -
  obtain w' where "Publish R m w = (None, w')" "data w' = push_left (queueKey (msg_Topic m)) (Json j) (data w)"
    using redis_live.Publish_live [OF assms(1,2)] by blast
  then show ?thesis using text_message_Json [OF assms(2,3)] by (auto simp: fun_eq_iff)
qed

theorem publish_enqueues_witness:
  "\<exists>w'. Publish calm_redis sample empty_world = (None, w') \<and> waiting (mem_data w') ''telemetry'' = [sample]"
proof -
  obtain j where "message_json sample = Inr j" using sample_props(5) by blast
  from publish_enqueues [OF live.redis_live_axioms this sample_props(1), of empty_world]
  show ?thesis using sample_props(2,3) empty_world_props(2) by auto
qed

text \<open>C10. Asked for no more messages than wait, \<open>FetchBatch\<close> returns the oldest ones in the order of
  their publication and leaves the rest of the queue and every other queue as it was.\<close>

theorem fetch_batch_oldest_first:
  assumes "redis_live R data (rq_visibilityTimeout q)" and "serves R data q w P A"
    and "0 \<le> n" and "n \<le> int (length (waiting (data w) topic))"
  shows "\<exists>w'. FetchBatch R q topic g c n w = (Returns (Inr (take (nat n) (waiting (data w) topic))), w')
    \<and> waiting (data w') = (waiting (data w))(topic := drop (nat n) (waiting (data w) topic))"
proof -
  have "store_ok (data w)" by (rule live_store_ok [OF assms(1,2)])
  from redis_live.FetchBatch_full [OF assms(1) this refl assms(3,4)] show ?thesis by blast
qed

theorem fetch_batch_oldest_first_witness:
  "\<exists>w'. FetchBatch calm_redis sample_queue ''telemetry'' ''g'' ''c'' 1 published_world = (Returns (Inr [sample]), w')"
  using fetch_batch_oldest_first [of calm_redis mem_data sample_queue, OF _ published_world_props(4), of 1 "''telemetry''"]
    live.redis_live_axioms published_world_props(3) by auto

text \<open>C33. Asked for more messages than wait, \<open>FetchBatch\<close> panics instead of returning the short
  batch: the timed-out pop yields a nil message that \<open>addToPEL\<close> dereferences. The queue of the topic
  is drained all the same, its messages pending without a consumer that received them.\<close>

theorem fetch_batch_short_panics:
  assumes "redis_live R data (rq_visibilityTimeout q)" and "serves R data q w P A"
    and "int (length (waiting (data w) topic)) < n"
  shows "\<exists>w'. FetchBatch R q topic g c n w = (Panics NilDereference, w')
    \<and> waiting (data w') = (waiting (data w))(topic := []) \<and> held (data w') = held (data w)"
proof -
  have "store_ok (data w)" by (rule live_store_ok [OF assms(1,2)])
  from redis_live.FetchBatch_short [OF assms(1) this refl assms(3)] show ?thesis by blast
qed

theorem fetch_batch_short_panics_witness:
  "\<exists>w'. FetchBatch calm_redis sample_queue ''telemetry'' ''g'' ''c'' 10 published_world = (Panics NilDereference, w')
    \<and> waiting (mem_data w') ''telemetry'' = []"
  using fetch_batch_short_panics [of calm_redis mem_data sample_queue, OF _ published_world_props(4), of "''telemetry''" 10]
    live.redis_live_axioms published_world_props(3) by fastforce

text \<open>C25. \<open>Ack\<close> succeeds exactly when the group has a pending entry of the message; it then removes
  one such entry, touches nothing else, and otherwise leaves everything as it was.\<close>

theorem ack_removes_one_entry:
  assumes "redis_live R data vt" and "serves R data q w P A"
  shows "\<exists>r w'. Ack R topic g messageID w = (Returns r, w')
    \<and> (r = None \<longleftrightarrow> (\<exists>x. is_entry_of (data w) (pelKey topic g) messageID x))
    \<and> (r = None \<longrightarrow> (\<exists>x. is_entry_of (data w) (pelKey topic g) messageID x
          \<and> data w' = zset_remove (pelKey topic g) x (data w)))
    \<and> (r \<noteq> None \<longrightarrow> data w' = data w)"
proof -
  have ok: "store_ok (data w)" by (rule live_store_ok [OF assms(1,2)])
  show ?thesis
  proof (cases "\<exists>x. is_entry_of (data w) (pelKey topic g) messageID x")
    case True
    then show ?thesis using redis_live.Ack_live(2) [OF assms(1) ok] by blast
  next
    case False
    then show ?thesis using redis_live.Ack_live(1) [OF assms(1) ok] by blast
  qed
qed

theorem ack_removes_one_entry_witness:
  "\<exists>w'. Ack calm_redis ''telemetry'' ''g'' ''m1'' fetched_world = (Returns None, w')"
  using ack_removes_one_entry [OF live.redis_live_axioms fetched_world_props(5), of "''telemetry''" "''g''" "''m1''"]
    fetched_world_props(4) by blast

text \<open>C26. \<open>Nack\<close> of a pending message removes the entry and puts the message in front of its queue,
  not at the end: the next fetch returns it before every message that was waiting.\<close>

theorem nack_jumps_the_queue:
  assumes "redis_live R data vt" and "serves R data q w P A"
    and "is_entry_of (data w) (pelKey topic g) messageID x"
  shows "\<exists>y w'. Nack R topic g messageID w = (Returns None, w')
    \<and> is_entry_of (data w) (pelKey topic g) messageID y
    \<and> zsets (data w') = zsets (zset_remove (pelKey topic g) y (data w))
    \<and> waiting (data w') = (let m = entry_message (text_entry y)
         in (waiting (data w))(msg_Topic m := m # waiting (data w) (msg_Topic m)))"
proof -
  have ok: "store_ok (data w)" by (rule live_store_ok [OF assms(1,2)])
  obtain y w' where y: "Nack R topic g messageID w = (Returns None, w')"
    "is_entry_of (data w) (pelKey topic g) messageID y" "nacked (pelKey topic g) y (data w) (data w')"
    using redis_live.Nack_live [OF assms(1) ok assms(3)] by blast
  obtain j where j: "message_json (entry_message (text_entry y)) = Inr j"
    "text_message (Json j) = entry_message (text_entry y)"
    using is_entry_of_json [OF y(2) ok] by blast
  then have "data w' = push_right (queueKey (msg_Topic (entry_message (text_entry y)))) (Json j)
      (zset_remove (pelKey topic g) y (data w))"
    using y(3) by (auto simp: nacked_def)
  then show ?thesis using y(1,2) j(2) by (intro exI [of _ y] exI [of _ w']) (simp add: Let_def fun_eq_iff)
qed

theorem nack_jumps_the_queue_witness:
  "\<exists>w'. Nack calm_redis ''telemetry'' ''g'' ''m1'' fetched_world = (Returns None, w')"
proof -
  obtain x where "is_entry_of (mem_data fetched_world) (pelKey ''telemetry'' ''g'') ''m1'' x"
    using fetched_world_props(4) by blast
  from nack_jumps_the_queue [OF live.redis_live_axioms fetched_world_props(5) this] show ?thesis by blast
qed

text \<open>C27. A sweep of \<open>checkExpiredMessages\<close> takes every entry whose deadline is not after the clock
  out of every pending set and no other entry, and keeps every message.\<close>

theorem expiry_sweeps_the_expired:
  assumes "redis_live R data vt" and "serves R data q w P A"
  shows "\<exists>q' w' wc. checkExpiredMessages R q w = (Returns q', w') \<and> data wc = data w
    \<and> held (data w') \<union> dead q' = held (data w) \<union> dead q
    \<and> (\<forall>key. HasPrefix key ''pel:'' \<longrightarrow> zsets (data w') key = unexpired (Unix (Now R wc)) (zsets (data w) key))"
proof -
  have "store_ok (data w)" by (rule live_store_ok [OF assms(1,2)])
  from redis_live.checkExpiredMessages_live [OF assms(1) this, of q] show ?thesis by blast
qed

theorem expiry_sweeps_the_expired_witness:
  "\<exists>q' w'. checkExpiredMessages calm_redis sample_queue fetched_world = (Returns q', w')
    \<and> held (mem_data w') \<union> dead q' = held (mem_data fetched_world) \<union> dead sample_queue"
  using expiry_sweeps_the_expired [OF live.redis_live_axioms fetched_world_props(5)] by blast

text \<open>No message is lost and none is made up: in every reachable state the messages that wait,
  are pending or are dead letters were published, and every published message is among them
  unless its ID was acknowledged.\<close>

theorem no_message_lost:
  assumes "redis_live R data (rq_visibilityTimeout q)" and "serves R data q w P A"
  shows "held (data w) \<union> dead q \<subseteq> P \<and> {m \<in> P. msg_ID m \<notin> A} \<subseteq> held (data w) \<union> dead q"
  using redis_live.serves_held [OF assms(1,2) refl] by blast

theorem no_message_lost_witness: "sample \<in> held (mem_data fetched_world) \<union> dead sample_queue"
  using no_message_lost [of calm_redis mem_data sample_queue, OF _ fetched_world_props(5)]
    live.redis_live_axioms by auto

end
