(* ===== verification/Consumers.thy ===== *)
theory Consumers
  imports QueueCorrect
begin

text \<open>
  The registry of the push consumers of \<open>internal/queueservice/redis_queue.go\<close> and their
  delivery goroutine: registering and unregistering a consumer, the round-robin batches of
  \<open>deliverMessagesToGroup\<close>, and the statistics.
\<close>

section \<open>The registry\<close>

definition channel_size :: nat where "channel_size = 100"
definition batch_size :: nat where "batch_size = 50"

definition topic_groups :: "RedisQueue \<Rightarrow> string \<Rightarrow> QueueConsumerGroup gomap" where
  "topic_groups q topic = (case map_of (rq_consumerGroups q) topic of None \<Rightarrow> [] | Some gs \<Rightarrow> gs)"

text \<open>\<open>q.consumerGroups[topic][consumerGroup]\<close>, nil as \<open>None\<close>.\<close>

definition find_group :: "RedisQueue \<Rightarrow> string \<Rightarrow> string \<Rightarrow> QueueConsumerGroup option" where
  "find_group q topic consumerGroup = map_of (topic_groups q topic) consumerGroup"

definition set_group :: "string \<Rightarrow> string \<Rightarrow> QueueConsumerGroup \<Rightarrow> RedisQueue \<Rightarrow> RedisQueue" where
  "set_group topic consumerGroup grp q = q\<lparr>rq_consumerGroups :=
     map_put topic (map_put consumerGroup grp (topic_groups q topic)) (rq_consumerGroups q)\<rparr>"

definition RegisterConsumer :: "string \<Rightarrow> string \<Rightarrow> string \<Rightarrow> RedisQueue \<Rightarrow> RedisQueue" where
  "RegisterConsumer topic consumerGroup consumerID q =
     (let grp = (case find_group q topic consumerGroup of
                   None \<Rightarrow> \<lparr>qg_Name = consumerGroup, qg_Consumers = []\<rparr> | Some g \<Rightarrow> g);
          consumer = \<lparr>qc_ID = consumerID, qc_EventsCh = []\<rparr>;
          grp' = grp\<lparr>qg_Consumers := map_put consumerID consumer (qg_Consumers grp)\<rparr>;
          q' = set_group topic consumerGroup grp' q
      in if length (qg_Consumers grp') = 1
         then q'\<lparr>rq_deliverers := (topic, consumerGroup) # rq_deliverers q'\<rparr>
         else q')"

definition UnregisterConsumer :: "string \<Rightarrow> string \<Rightarrow> string \<Rightarrow> RedisQueue \<Rightarrow> RedisQueue" where
  "UnregisterConsumer topic consumerGroup consumerID q =
     (case find_group q topic consumerGroup of None \<Rightarrow> q
      | Some grp \<Rightarrow>
          (case map_of (qg_Consumers grp) consumerID of None \<Rightarrow> q
           | Some consumer \<Rightarrow>
               set_group topic consumerGroup (grp\<lparr>qg_Consumers := map_del consumerID (qg_Consumers grp)\<rparr>) q))"

text \<open>The send does not block: a full channel loses the message.\<close>

definition deliverToConsumer :: "string \<Rightarrow> string \<Rightarrow> string \<Rightarrow> Message \<Rightarrow> RedisQueue \<Rightarrow> RedisQueue" where
  "deliverToConsumer topic consumerGroup consumerID msg q =
     (case find_group q topic consumerGroup of None \<Rightarrow> q
      | Some grp \<Rightarrow>
          (case map_of (qg_Consumers grp) consumerID of None \<Rightarrow> q
           | Some consumer \<Rightarrow>
               if length (qc_EventsCh consumer) < channel_size
               then set_group topic consumerGroup (grp\<lparr>qg_Consumers := map_put consumerID
                      (consumer\<lparr>qc_EventsCh := qc_EventsCh consumer @ [msg]\<rparr>) (qg_Consumers grp)\<rparr>) q
               else q))"

section \<open>The delivery goroutine\<close>

text \<open>
  The inner loop of \<open>deliverMessagesToGroup\<close>: up to \<open>batchSize\<close> messages, the consumers in turn.
\<close>

fun deliverBatch :: "'w redis \<Rightarrow> string \<Rightarrow> string \<Rightarrow> string list \<Rightarrow> nat \<Rightarrow> nat \<Rightarrow> RedisQueue \<Rightarrow> 'w
    \<Rightarrow> (nat \<times> RedisQueue) outcome \<times> 'w" where
  "deliverBatch R topic g ids 0 consumerIndex q w = (Returns (consumerIndex, q), w)"
| "deliverBatch R topic g ids (Suc n) consumerIndex q w =
     (case popMessage R topic w of
        (Inl e, w1) \<Rightarrow> (Returns (consumerIndex, q), w1)
      | (Inr None, w1) \<Rightarrow> (Returns (consumerIndex, q), w1)
      | (Inr (Some msg), w1) \<Rightarrow>
         (let selected = ids ! (consumerIndex mod length ids)
          in case addToPEL R (rq_visibilityTimeout q) (Some msg) g selected w1 of
               (Panics p, w2) \<Rightarrow> (Panics p, w2)
             | (Returns (Some e), w2) \<Rightarrow>
                 (case requeueMessage R (Some msg) w2 of
                    (Panics p, w3) \<Rightarrow> (Panics p, w3)
                  | (Returns r, w3) \<Rightarrow> deliverBatch R topic g ids n (consumerIndex + 1) q w3)
             | (Returns None, w2) \<Rightarrow>
                 deliverBatch R topic g ids n (consumerIndex + 1) (deliverToConsumer topic g selected msg q) w2))"

text \<open>
  One pass of the outer loop. The order in which the runtime enumerates the consumers is not
  fixed: \<open>order\<close> stands for it.
\<close>

definition deliverMessagesToGroup :: "'w redis \<Rightarrow> (string list \<Rightarrow> string list) \<Rightarrow> string \<Rightarrow> string \<Rightarrow> nat
    \<Rightarrow> RedisQueue \<Rightarrow> 'w \<Rightarrow> (nat \<times> RedisQueue) outcome \<times> 'w" where
  "deliverMessagesToGroup R order topic g consumerIndex q w =
     (case find_group q topic g of None \<Rightarrow> (Returns (consumerIndex, q), w)
      | Some grp \<Rightarrow>
          if qg_Consumers grp = [] then (Returns (consumerIndex, q), w)
          else deliverBatch R topic g (order (map fst (qg_Consumers grp))) batch_size consumerIndex q w)"

section \<open>Statistics\<close>

record group_stats =
  gs_name :: string
  gs_consumer_count :: int
  gs_pending_messages :: int

record topic_stats =
  ts_name :: string
  ts_queue_depth :: int
  ts_consumer_groups :: "group_stats list"

text \<open>A failed count reads as zero.\<close>

definition reply_or_zero :: "(error + int) \<times> 'w \<Rightarrow> int \<times> 'w" where
  "reply_or_zero r = (case r of (Inl e, w) \<Rightarrow> (0, w) | (Inr n, w) \<Rightarrow> (n, w))"

fun groups_stats :: "'w redis \<Rightarrow> string \<Rightarrow> QueueConsumerGroup gomap \<Rightarrow> 'w \<Rightarrow> group_stats list \<times> 'w" where
  "groups_stats R topic [] w = ([], w)"
| "groups_stats R topic ((groupName, grp) # gs) w =
     (let (n, w1) = reply_or_zero (ZCard R (pelKey topic groupName) w);
          (rest, w2) = groups_stats R topic gs w1
      in (\<lparr>gs_name = groupName, gs_consumer_count = int (length (qg_Consumers grp)),
           gs_pending_messages = n\<rparr> # rest, w2))"

fun topics_stats :: "'w redis \<Rightarrow> QueueConsumerGroup gomap gomap \<Rightarrow> 'w \<Rightarrow> topic_stats list \<times> 'w" where
  "topics_stats R [] w = ([], w)"
| "topics_stats R ((topic, groups) # ts) w =
     (let (n, w1) = reply_or_zero (LLen R (queueKey topic) w);
          (gs, w2) = groups_stats R topic groups w1;
          (rest, w3) = topics_stats R ts w2
      in (\<lparr>ts_name = topic, ts_queue_depth = n, ts_consumer_groups = gs\<rparr> # rest, w3))"

definition GetStats :: "'w redis \<Rightarrow> RedisQueue \<Rightarrow> 'w \<Rightarrow> (topic_stats list \<times> int) \<times> 'w" where
  "GetStats R q w = (let (ts, w1) = topics_stats R (rq_consumerGroups q) w
                     in ((ts, int (length (rq_deadLetterQueue q))), w1))"

section \<open>Invariants\<close>

text \<open>
  The groups of a registry: no channel holds more than its buffer, and the names agree with the
  keys.
\<close>

definition channels_ok :: "RedisQueue \<Rightarrow> bool" where
  "channels_ok q \<longleftrightarrow> (\<forall>topic g grp. find_group q topic g = Some grp \<longrightarrow>
     qg_Name grp = g \<and> map_ok (qg_Consumers grp)
     \<and> (\<forall>c consumer. map_of (qg_Consumers grp) c = Some consumer \<longrightarrow>
          qc_ID consumer = c \<and> length (qc_EventsCh consumer) \<le> channel_size))"

lemma find_group_set [simp]:
  "find_group (set_group t g grp q) t' g' = (if t' = t \<and> g' = g then Some grp else find_group q t' g')"
  by (simp add: find_group_def set_group_def topic_groups_def split: option.splits)

lemma find_group_cong [simp]: "find_group (q\<lparr>rq_deliverers := ds\<rparr>) = find_group q"
  by (simp add: find_group_def topic_groups_def fun_eq_iff)

lemma set_group_sel [simp]:
  "rq_visibilityTimeout (set_group t g grp q) = rq_visibilityTimeout q"
  "rq_maxRetries (set_group t g grp q) = rq_maxRetries q"
  "rq_deadLetterQueue (set_group t g grp q) = rq_deadLetterQueue q"
  "rq_deliverers (set_group t g grp q) = rq_deliverers q"
  by (simp_all add: set_group_def)

lemma RegisterConsumer_channels_ok: "channels_ok q \<Longrightarrow> channels_ok (RegisterConsumer t g c q)"
  by (auto simp: channels_ok_def RegisterConsumer_def Let_def split: option.splits if_splits)

lemma UnregisterConsumer_channels_ok: "channels_ok q \<Longrightarrow> channels_ok (UnregisterConsumer t g c q)"
  by (auto simp: channels_ok_def UnregisterConsumer_def split: option.splits if_splits)

lemma deliverToConsumer_channels_ok: "channels_ok q \<Longrightarrow> channels_ok (deliverToConsumer t g c m q)"
  by (auto simp: channels_ok_def deliverToConsumer_def split: option.splits if_splits)

lemma deliverToConsumer_sel [simp]:
  "rq_visibilityTimeout (deliverToConsumer t g c m q) = rq_visibilityTimeout q"
  by (simp add: deliverToConsumer_def split: option.splits)

text \<open>The messages in the channels of a group.\<close>

definition in_channel :: "RedisQueue \<Rightarrow> string \<Rightarrow> string \<Rightarrow> Message \<Rightarrow> bool" where
  "in_channel q topic g m \<longleftrightarrow> (\<exists>grp c consumer. find_group q topic g = Some grp
     \<and> map_of (qg_Consumers grp) c = Some consumer \<and> m \<in> set (qc_EventsCh consumer))"

lemma in_channel_deliver:
  "in_channel (deliverToConsumer t g c m q) t g m' \<Longrightarrow> in_channel q t g m' \<or> m' = m"
  by (fastforce simp: in_channel_def deliverToConsumer_def split: option.splits if_splits)

context redis_server
begin

text \<open>
  The goroutine keeps the store and the channels in order, never panics, and whatever it puts in
  a channel is pending.
\<close>

lemma deliverBatch_ok:
  assumes "deliverBatch R topic g ids n i q w = (r, w')" and "store_ok (data w)" and "channels_ok q"
    and "\<forall>m. in_channel q topic g m \<longrightarrow> pending_in (data w) (pelKey topic g) m"
  shows "\<exists>i' q'. r = Returns (i', q') \<and> store_ok (data w') \<and> channels_ok q'
    \<and> (\<forall>m. in_channel q' topic g m \<longrightarrow> pending_in (data w') (pelKey topic g) m)"
  using assms
proof (induction n arbitrary: i q w)
  case 0
  then show ?case by auto
next
  case (Suc n)
  obtain p w1 where p: "popMessage R topic w = (p, w1)" by fastforce
  note eff = popMessage_effect [OF p Suc.prems(2)]
  then have ok1: "store_ok (data w1)" using Suc.prems(2) by (auto intro: store_ok_pop)
  have z1: "zsets (data w1) = zsets (data w)" using eff by auto
  have keep1: "\<forall>m. in_channel q topic g m \<longrightarrow> pending_in (data w1) (pelKey topic g) m"
    using Suc.prems(4) by (simp add: pending_in_def z1)
  show ?case
  proof (cases "\<exists>m. p = Inr (Some m)")
    case False
    then consider e where "p = Inl e" | "p = Inr None" by (metis option.exhaust sum.exhaust)
    then show ?thesis by cases (use Suc.prems(1,3) keep1 ok1 p in auto)
  next
    case True
    then obtain m where m: "p = Inr (Some m)" "message_ok m" "wire_form m = m" "msg_Topic m = topic"
      using eff by auto
    define c where "c = ids ! (i mod length ids)"
    obtain a w2 where a: "addToPEL R (rq_visibilityTimeout q) (Some m) g c w1 = (a, w2)" by fastforce
    have ok2: "store_ok (data w2)" using addToPEL_store_ok [OF a m(2) ok1] .
    have "dom (zsets (data w1) (pelKey topic g)) \<subseteq> dom (zsets (data w2) (pelKey topic g))"
      using addToPEL_effect(1) [OF a] m(4) by auto
    note mono2 = pending_in_mono [OF this]
    from addToPEL_effect(1) [OF a] obtain er where er: "a = Returns er" by auto
    show ?thesis
    proof (cases er)
      case None
      have "pending_in (data w2) (pelKey topic g) m"
        using addToPEL_pending [of _ m g c w1 w2] a er None m by simp
      then have "\<forall>m'. in_channel (deliverToConsumer topic g c m q) topic g m'
          \<longrightarrow> pending_in (data w2) (pelKey topic g) m'"
        using keep1 mono2 in_channel_deliver by blast
      moreover have "deliverBatch R topic g ids n (i + 1) (deliverToConsumer topic g c m q) w2 = (r, w')"
        using Suc.prems(1) by (simp add: p m(1) a er None flip: c_def)
      ultimately show ?thesis
        using Suc.IH ok2 deliverToConsumer_channels_ok [OF Suc.prems(3)] by blast
    next
      case (Some e)
      obtain d w3 where d: "requeueMessage R (Some m) w2 = (d, w3)" by fastforce
      have ok3: "store_ok (data w3)" using requeueMessage_store_ok [OF d m(2) ok2] .
      from requeueMessage_effect(1) [OF d] obtain er' where er': "d = Returns er'"
        and z3: "zsets (data w3) = zsets (data w2)" by auto
      have "\<forall>m'. in_channel q topic g m' \<longrightarrow> pending_in (data w3) (pelKey topic g) m'"
        using keep1 mono2 by (simp add: pending_in_def z3)
      moreover have "deliverBatch R topic g ids n (i + 1) q w3 = (r, w')"
        using Suc.prems(1) by (simp add: p m(1) a er Some d er' flip: c_def)
      ultimately show ?thesis using Suc.IH ok3 Suc.prems(3) by blast
    qed
  qed
qed

lemma deliverMessagesToGroup_ok:
  assumes "deliverMessagesToGroup R order topic g i q w = (r, w')" and "store_ok (data w)" and "channels_ok q"
    and "\<forall>m. in_channel q topic g m \<longrightarrow> pending_in (data w) (pelKey topic g) m"
  shows "\<exists>i' q'. r = Returns (i', q') \<and> store_ok (data w') \<and> channels_ok q'
    \<and> (\<forall>m. in_channel q' topic g m \<longrightarrow> pending_in (data w') (pelKey topic g) m)"
  using assms deliverBatch_ok
  by (fastforce simp: deliverMessagesToGroup_def split: option.splits if_splits)

end

section \<open>Properties\<close>

text \<open>C24. The delivery goroutine of a consumer group never panics, keeps every channel within its
  buffer, and whatever it puts in a channel is pending: a message that a full channel drops, or
  that its consumer never reads, is delivered again after the visibility timeout.\<close>

theorem delivered_is_pending:
  assumes "redis_server R data" and "store_ok (data w)" and "channels_ok q"
    and "\<forall>m. in_channel q topic g m \<longrightarrow> pending_in (data w) (pelKey topic g) m"
  shows "\<exists>i' q' w'. deliverMessagesToGroup R order topic g i q w = (Returns (i', q'), w')
    \<and> channels_ok q' \<and> (\<forall>m. in_channel q' topic g m \<longrightarrow> pending_in (data w') (pelKey topic g) m)"
proof -
  obtain r w' where "deliverMessagesToGroup R order topic g i q w = (r, w')" by fastforce
  with redis_server.deliverMessagesToGroup_ok [OF assms(1) this assms(2-4)] show ?thesis by auto
qed

theorem delivered_is_pending_witness:
  "\<exists>i' q' w'. deliverMessagesToGroup mem_redis rev ''t'' ''g'' 0
      (RegisterConsumer ''t'' ''g'' ''c'' (NewRedisQueue (5 * minute) 3))
      \<lparr>mem_lists = [], mem_zsets = [], mem_now = 0, mem_faults = [True]\<rparr> = (Returns (i', q'), w') \<and> channels_ok q'"
proof -
  let ?q = "RegisterConsumer ''t'' ''g'' ''c'' (NewRedisQueue (5 * minute) 3)"
  let ?w = "\<lparr>mem_lists = [], mem_zsets = [], mem_now = 0, mem_faults = [True]\<rparr>"
  have "channels_ok (NewRedisQueue (5 * minute) 3)"
    by (simp add: channels_ok_def find_group_def topic_groups_def NewRedisQueue_def)
  then have "channels_ok ?q" by (rule RegisterConsumer_channels_ok)
  moreover have "store_ok (mem_data ?w)" by (simp add: store_ok_def mem_list_def mem_zset_def)
  moreover have "\<forall>m. in_channel ?q ''t'' ''g'' m \<longrightarrow> pending_in (mem_data ?w) (pelKey ''t'' ''g'') m"
    by (simp add: in_channel_def RegisterConsumer_def Let_def find_group_def topic_groups_def
        NewRedisQueue_def set_group_def)
  ultimately show ?thesis
    using delivered_is_pending [OF mem.redis_server_axioms, of ?w ?q "''t''" "''g''" rev 0] by blast
qed

text \<open>Registering a consumer that is the only one of its group starts a delivery goroutine, also
  when one runs already: a consumer that registers again, or that registers after the last one
  left, adds a second goroutine to the group.\<close>

theorem reregistering_starts_another_deliverer:
  "rq_deliverers (RegisterConsumer t g c (RegisterConsumer t g c (NewRedisQueue vt mr))) = [(t, g), (t, g)]
   \<and> rq_deliverers (RegisterConsumer t g c' (UnregisterConsumer t g c (RegisterConsumer t g c (NewRedisQueue vt mr))))
       = [(t, g), (t, g)]"
  by (simp add: RegisterConsumer_def UnregisterConsumer_def Let_def find_group_def topic_groups_def
      NewRedisQueue_def set_group_def map_del_def)

end
