(* ===== verification/QueueConcurrent.thy ===== *)
theory QueueConcurrent
  imports QueueProperties Consumers
begin

text \<open>
  The operations of \<open>internal/queueservice/redis_queue.go\<close> as they run side by side: each is a job that stops before its
  next Redis command, and jobs step in any order on the shared server. A pass of a delivery goroutine is a job too, and
  consumers come, read their channels and go. Run alone, a job is the operation; run
  together, jobs lose no message, but they can deliver one twice.
\<close>

section \<open>Jobs\<close>

text \<open>
  Where an operation is: before the push of \<open>Publish\<close>; in \<open>FetchBatch\<close> before a pop, before \<open>addToPEL\<close> with the message
  popped, before the requeue; in \<open>Ack\<close> or \<open>Nack\<close> (the flag) before the scan, before the removal of the entry found, before
  the requeue; in \<open>checkExpiredMessages\<close> before listing the keys, before the range of the next key, before the next entry,
  before the requeue of a message; in \<open>deliverMessagesToGroup\<close> before it looks the consumers up, before a pop, before
  \<open>addToPEL\<close>, before the requeue, before the send to the consumer selected.
\<close>

datatype job_result = Settled "error option" | Fetched "Message list" | Swept | Delivered nat

datatype job =
    Publishing Message
  | Popping string string string nat "Message list"
  | Adding string string string nat "Message list" "Message option"
  | Requeueing string string string nat "Message list" "Message option"
  | Scanning bool string string string
  | Removing bool string string string gotext PendingEntry
  | Returning "Message option"
  | Sweeping
  | SweepingKeys go_time "string list"
  | SweepingEntries go_time string "gotext list" "string list"
  | SweepingBack go_time string "gotext list" "string list" "Message option"
  | Delivering "string list \<Rightarrow> string list" string string nat
  | GroupPopping string string "string list" nat nat
  | GroupAdding string string "string list" nat nat Message
  | GroupRequeueing string string "string list" nat nat Message
  | GroupSending string string "string list" nat nat string Message
  | Ended job_result
  | Panicked panic

fun job_step :: "'w redis \<Rightarrow> job \<Rightarrow> RedisQueue \<Rightarrow> 'w \<Rightarrow> job \<times> RedisQueue \<times> 'w" where
  "job_step R (Publishing m) q w = (case Publish R m w of (r, w1) \<Rightarrow> (Ended (Settled r), q, w1))"
| "job_step R (Popping t g c 0 ms) q w = (Ended (Fetched ms), q, w)"
| "job_step R (Popping t g c (Suc n) ms) q w =
     (case popMessage R t w of
        (Inl e, w1) \<Rightarrow> (Ended (Fetched ms), q, w1)
      | (Inr msg, w1) \<Rightarrow> (Adding t g c n ms msg, q, w1))"
| "job_step R (Adding t g c n ms msg) q w =
     (case addToPEL R (rq_visibilityTimeout q) msg g c w of
        (Panics p, w1) \<Rightarrow> (Panicked p, q, w1)
      | (Returns (Some e), w1) \<Rightarrow> (Requeueing t g c n ms msg, q, w1)
      | (Returns None, w1) \<Rightarrow> (Popping t g c n (ms @ [the msg]), q, w1))"
| "job_step R (Requeueing t g c n ms msg) q w =
     (case requeueMessage R msg w of
        (Panics p, w1) \<Rightarrow> (Panicked p, q, w1)
      | (Returns r, w1) \<Rightarrow> (Popping t g c n ms, q, w1))"
| "job_step R (Scanning nack t g messageID) q w =
     (case ZRange R (pelKey t g) w of
        (Inl e, w1) \<Rightarrow> (Ended (Settled (Some (Wrapf ''failed to get PEL entries'' e))), q, w1)
      | (Inr entries, w1) \<Rightarrow>
          (case find_entry messageID entries of
             Panics p \<Rightarrow> (Panicked p, q, w1)
           | Returns None \<Rightarrow> (Ended (Settled (Some (Errorf (''message not found in PEL: '' @ messageID)))), q, w1)
           | Returns (Some (x, entry)) \<Rightarrow> (Removing nack t g messageID x entry, q, w1)))"
| "job_step R (Removing nack t g messageID x entry) q w =
     (case ZRem R (pelKey t g) x w of
        (Inl e, w1) \<Rightarrow> (Ended (Settled (Some (Wrapf ''failed to remove from PEL'' e))), q, w1)
      | (Inr n, w1) \<Rightarrow> (if nack then Returning (pe_Message entry) else Ended (Settled None), q, w1))"
| "job_step R (Returning msg) q w =
     (case requeueMessage R msg w of
        (Panics p, w1) \<Rightarrow> (Panicked p, q, w1)
      | (Returns (Some e), w1) \<Rightarrow> (Ended (Settled (Some (Wrapf ''failed to requeue message'' e))), q, w1)
      | (Returns None, w1) \<Rightarrow> (Ended (Settled None), q, w1))"
| "job_step R Sweeping q w =
     (case Keys R ''pel:*'' w of
        (Inl e, w1) \<Rightarrow> (Ended Swept, q, w1)
      | (Inr keys, w1) \<Rightarrow> (SweepingKeys (Now R w1) keys, q, w1))"
| "job_step R (SweepingKeys now []) q w = (Ended Swept, q, w)"
| "job_step R (SweepingKeys now (key # keys)) q w =
     (case ZRangeByScore R key (Unix now) w of
        (Inl e, w1) \<Rightarrow> (SweepingKeys now keys, q, w1)
      | (Inr entries, w1) \<Rightarrow> (SweepingEntries now key entries keys, q, w1))"
| "job_step R (SweepingEntries now key [] keys) q w = (SweepingKeys now keys, q, w)"
| "job_step R (SweepingEntries now key (x # xs) keys) q w =
     (case Unmarshal_entry x of Inl e \<Rightarrow> (SweepingEntries now key xs keys, q, w)
      | Inr entry \<Rightarrow>
          (case ZRem R key x w of (r, w1) \<Rightarrow>
             if pe_DeliveryCount entry \<ge> rq_maxRetries q
             then (case pe_Message entry of None \<Rightarrow> Panicked NilDereference | Some m \<Rightarrow> SweepingEntries now key xs keys,
                   q\<lparr>rq_deadLetterQueue := rq_deadLetterQueue q @ [entry]\<rparr>, w1)
             else (SweepingBack now key xs keys (pe_Message entry), q, w1)))"
| "job_step R (SweepingBack now key xs keys msg) q w =
     (case requeueMessage R msg w of
        (Panics p, w1) \<Rightarrow> (Panicked p, q, w1)
      | (Returns r, w1) \<Rightarrow> (SweepingEntries now key xs keys, q, w1))"
| "job_step R (Delivering order t g i) q w =
     (case find_group q t g of
        None \<Rightarrow> (Ended (Delivered i), q, w)
      | Some grp \<Rightarrow>
          if qg_Consumers grp = [] then (Ended (Delivered i), q, w)
          else (GroupPopping t g (order (map fst (qg_Consumers grp))) batch_size i, q, w))"
| "job_step R (GroupPopping t g ids 0 i) q w = (Ended (Delivered i), q, w)"
| "job_step R (GroupPopping t g ids (Suc n) i) q w =
     (case popMessage R t w of
        (Inl e, w1) \<Rightarrow> (Ended (Delivered i), q, w1)
      | (Inr None, w1) \<Rightarrow> (Ended (Delivered i), q, w1)
      | (Inr (Some msg), w1) \<Rightarrow> (GroupAdding t g ids n i msg, q, w1))"
| "job_step R (GroupAdding t g ids n i msg) q w =
     (let selected = ids ! (i mod length ids) in
      case addToPEL R (rq_visibilityTimeout q) (Some msg) g selected w of
        (Panics p, w1) \<Rightarrow> (Panicked p, q, w1)
      | (Returns (Some e), w1) \<Rightarrow> (GroupRequeueing t g ids n (Suc i) msg, q, w1)
      | (Returns None, w1) \<Rightarrow> (GroupSending t g ids n (Suc i) selected msg, q, w1))"
| "job_step R (GroupRequeueing t g ids n i msg) q w =
     (case requeueMessage R (Some msg) w of
        (Panics p, w1) \<Rightarrow> (Panicked p, q, w1)
      | (Returns r, w1) \<Rightarrow> (GroupPopping t g ids n i, q, w1))"
| "job_step R (GroupSending t g ids n i selected msg) q w = (GroupPopping t g ids n i, deliverToConsumer t g selected msg q, w)"
| "job_step R (Ended r) q w = (Ended r, q, w)"
| "job_step R (Panicked p) q w = (Panicked p, q, w)"

section \<open>A job alone\<close>

definition solo :: "'w redis \<Rightarrow> job \<times> RedisQueue \<times> 'w \<Rightarrow> job \<times> RedisQueue \<times> 'w" where
  "solo R s = (case s of (j, q, w) \<Rightarrow> job_step R j q w)"

definition becomes :: "'w redis \<Rightarrow> job \<times> RedisQueue \<times> 'w \<Rightarrow> job \<times> RedisQueue \<times> 'w \<Rightarrow> bool" where
  "becomes R s s' \<longleftrightarrow> (\<exists>k. (solo R ^^ k) s = s')"

lemma becomes_refl: "becomes R s s"
  unfolding becomes_def by (rule exI [of _ 0]) simp

lemma becomes_step:
  assumes "job_step R j q w = s" and "becomes R s s'"
  shows "becomes R (j, q, w) s'"
proof -
  obtain k where "(solo R ^^ k) s = s'" using assms(2) by (auto simp: becomes_def)
  then have "(solo R ^^ Suc k) (j, q, w) = s'" using assms(1) by (simp only: funpow_Suc_right) (simp add: solo_def)
  then show ?thesis unfolding becomes_def by blast
qed

lemma becomes_one: "job_step R j q w = s \<Longrightarrow> becomes R (j, q, w) s"
  by (rule becomes_step [OF _ becomes_refl])

lemma becomes_trans:
  assumes "becomes R s s1" and "becomes R s1 s2"
  shows "becomes R s s2"
proof -
  obtain j k where "(solo R ^^ j) s = s1" "(solo R ^^ k) s1 = s2" using assms by (auto simp: becomes_def)
  then have "(solo R ^^ (k + j)) s = s2" by (simp add: funpow_add)
  then show ?thesis unfolding becomes_def by blast
qed

lemma fetch_alone:
  "becomes R (Popping t g c n ms, q, w)
     (case fetchLoop R (rq_visibilityTimeout q) t g c n ms w of
        (Panics p, w') \<Rightarrow> (Panicked p, q, w') | (Returns ms', w') \<Rightarrow> (Ended (Fetched ms'), q, w'))"
proof (induction n arbitrary: ms w)
  case 0
  then show ?case by (intro becomes_one) simp
next
  case (Suc n)
  show ?case
  proof (cases "popMessage R t w")
    case (Pair r w1)
    show ?thesis
    proof (cases r)
      case (Inl e)
      with Pair show ?thesis by (intro becomes_one) simp
    next
      case (Inr msg)
      have pop: "job_step R (Popping t g c (Suc n) ms) q w = (Adding t g c n ms msg, q, w1)" using Pair Inr by simp
      obtain a w2 where a: "addToPEL R (rq_visibilityTimeout q) msg g c w1 = (a, w2)" by fastforce
      consider p where "a = Panics p" | "a = Returns None" | e where "a = Returns (Some e)"
        by (metis outcome.exhaust option.exhaust)
      then show ?thesis
      proof cases
        case 1
        with pop a Pair Inr show ?thesis by (intro becomes_step [OF pop] becomes_one) simp
      next
        case 2
        then have "job_step R (Adding t g c n ms msg) q w1 = (Popping t g c n (ms @ [the msg]), q, w2)" using a by simp
        from becomes_step [OF pop becomes_step [OF this Suc.IH]] 2 a Pair Inr show ?thesis by simp
      next
        case (3 e)
        then have add: "job_step R (Adding t g c n ms msg) q w1 = (Requeueing t g c n ms msg, q, w2)" using a by simp
        obtain b w3 where b: "requeueMessage R msg w2 = (b, w3)" by fastforce
        show ?thesis
        proof (cases b)
          case (Panics p)
          with add a b 3 Pair Inr show ?thesis
            by (intro becomes_step [OF pop] becomes_step [OF add] becomes_one) simp
        next
          case (Returns r')
          then have "job_step R (Requeueing t g c n ms msg) q w2 = (Popping t g c n ms, q, w3)" using b by simp
          from becomes_step [OF pop becomes_step [OF add becomes_step [OF this Suc.IH]]] Returns 3 a b Pair Inr
          show ?thesis by simp
        qed
      qed
    qed
  qed
qed

lemma ack_alone:
  "becomes R (Scanning False t g messageID, q, w)
     (case Ack R t g messageID w of (Panics p, w') \<Rightarrow> (Panicked p, q, w') | (Returns r, w') \<Rightarrow> (Ended (Settled r), q, w'))"
proof (cases "\<exists>es w1 x e. ZRange R (pelKey t g) w = (Inr es, w1) \<and> find_entry messageID es = Returns (Some (x, e))")
  case True
  then obtain es w1 x e where z: "ZRange R (pelKey t g) w = (Inr es, w1)" "find_entry messageID es = Returns (Some (x, e))" by blast
  then have s: "job_step R (Scanning False t g messageID) q w = (Removing False t g messageID x e, q, w1)" by simp
  obtain r w2 where "ZRem R (pelKey t g) x w1 = (r, w2)" by fastforce
  with z show ?thesis by (intro becomes_step [OF s] becomes_one) (auto simp: Ack_def split: sum.splits)
next
  case False
  then show ?thesis by (intro becomes_one) (auto simp: Ack_def split: sum.splits prod.splits outcome.splits option.splits)
qed

lemma nack_alone:
  "becomes R (Scanning True t g messageID, q, w)
     (case Nack R t g messageID w of (Panics p, w') \<Rightarrow> (Panicked p, q, w') | (Returns r, w') \<Rightarrow> (Ended (Settled r), q, w'))"
proof (cases "\<exists>es w1 x e n w2. ZRange R (pelKey t g) w = (Inr es, w1) \<and> find_entry messageID es = Returns (Some (x, e))
    \<and> ZRem R (pelKey t g) x w1 = (Inr n, w2)")
  case True
  then obtain es w1 x e n w2 where z: "ZRange R (pelKey t g) w = (Inr es, w1)"
    "find_entry messageID es = Returns (Some (x, e))" "ZRem R (pelKey t g) x w1 = (Inr n, w2)" by blast
  then have s: "job_step R (Scanning True t g messageID) q w = (Removing True t g messageID x e, q, w1)"
    "job_step R (Removing True t g messageID x e) q w1 = (Returning (pe_Message e), q, w2)" by simp_all
  from z show ?thesis
    by (intro becomes_step [OF s(1)] becomes_step [OF s(2)] becomes_one)
      (auto simp: Nack_def split: prod.splits outcome.splits option.splits)
next
  case False
  show ?thesis
  proof (cases "\<exists>es w1 x e. ZRange R (pelKey t g) w = (Inr es, w1) \<and> find_entry messageID es = Returns (Some (x, e))")
    case True
    then obtain es w1 x e where z: "ZRange R (pelKey t g) w = (Inr es, w1)" "find_entry messageID es = Returns (Some (x, e))"
      by blast
    then have s: "job_step R (Scanning True t g messageID) q w = (Removing True t g messageID x e, q, w1)" by simp
    obtain er w2 where "ZRem R (pelKey t g) x w1 = (Inl er, w2)"
      using False z by (cases "ZRem R (pelKey t g) x w1"; cases "fst (ZRem R (pelKey t g) x w1)") auto
    with z show ?thesis by (intro becomes_step [OF s] becomes_one) (simp add: Nack_def)
  next
    case False
    then show ?thesis by (intro becomes_one) (auto simp: Nack_def split: sum.splits prod.splits outcome.splits option.splits)
  qed
qed

lemma sweep_entries_alone:
  "case expireEntries R key xs q w of
     (Panics p, w') \<Rightarrow> \<exists>q'. becomes R (SweepingEntries now key xs keys, q, w) (Panicked p, q', w')
   | (Returns q', w') \<Rightarrow> becomes R (SweepingEntries now key xs keys, q, w) (SweepingKeys now keys, q', w')"
proof (induction xs arbitrary: q w)
  case Nil
  then show ?case by (simp add: becomes_one)
next
  case (Cons x xs)
  show ?case
  proof (cases "Unmarshal_entry x")
    case (Inl er)
    then have s: "job_step R (SweepingEntries now key (x # xs) keys) q w = (SweepingEntries now key xs keys, q, w)" by simp
    have e: "expireEntries R key (x # xs) q w = expireEntries R key xs q w" using Inl by (simp add: expireEntry_def)
    show ?thesis using Cons.IH [of q w] unfolding e
      by (auto split: prod.splits outcome.splits intro: becomes_step [OF s])
  next
    case (Inr entry)
    obtain r w1 where z: "ZRem R key x w = (r, w1)" by fastforce
    let ?q = "q\<lparr>rq_deadLetterQueue := rq_deadLetterQueue q @ [entry]\<rparr>"
    show ?thesis
    proof (cases "pe_DeliveryCount entry \<ge> rq_maxRetries q")
      case True
      show ?thesis
      proof (cases "pe_Message entry")
        case None
        have "job_step R (SweepingEntries now key (x # xs) keys) q w = (Panicked NilDereference, ?q, w1)"
          using Inr z True None by simp
        then have "becomes R (SweepingEntries now key (x # xs) keys, q, w) (Panicked NilDereference, ?q, w1)"
          by (rule becomes_one)
        then show ?thesis using Inr z True None by (auto simp: expireEntry_def)
      next
        case (Some m)
        then have s: "job_step R (SweepingEntries now key (x # xs) keys) q w = (SweepingEntries now key xs keys, ?q, w1)"
          using Inr z True by simp
        have e: "expireEntries R key (x # xs) q w = expireEntries R key xs ?q w1"
          using Inr z True Some by (simp add: expireEntry_def)
        show ?thesis using Cons.IH [of ?q w1] unfolding e
          by (auto split: prod.splits outcome.splits intro: becomes_step [OF s])
      qed
    next
      case False
      then have s: "job_step R (SweepingEntries now key (x # xs) keys) q w = (SweepingBack now key xs keys (pe_Message entry), q, w1)"
        using Inr z by simp
      obtain b w2 where b: "requeueMessage R (pe_Message entry) w1 = (b, w2)" by fastforce
      show ?thesis
      proof (cases b)
        case (Panics p)
        then have "job_step R (SweepingBack now key xs keys (pe_Message entry)) q w1 = (Panicked p, q, w2)" using b by simp
        from becomes_step [OF s becomes_one [OF this]] show ?thesis
          using Inr z False b Panics by (auto simp: expireEntry_def)
      next
        case (Returns r')
        then have s2: "job_step R (SweepingBack now key xs keys (pe_Message entry)) q w1 = (SweepingEntries now key xs keys, q, w2)"
          using b by simp
        have e: "expireEntries R key (x # xs) q w = expireEntries R key xs q w2"
          using Inr z False b Returns by (simp add: expireEntry_def)
        show ?thesis using Cons.IH [of q w2] unfolding e
          by (auto split: prod.splits outcome.splits intro: becomes_step [OF s] becomes_step [OF s2])
      qed
    qed
  qed
qed

lemma sweep_keys_alone:
  "case expireKeys R now keys q w of
     (Panics p, w') \<Rightarrow> \<exists>q'. becomes R (SweepingKeys now keys, q, w) (Panicked p, q', w')
   | (Returns q', w') \<Rightarrow> becomes R (SweepingKeys now keys, q, w) (Ended Swept, q', w')"
proof (induction keys arbitrary: q w)
  case Nil
  then show ?case by (simp add: becomes_one)
next
  case (Cons key keys)
  obtain r w1 where z: "ZRangeByScore R key (Unix now) w = (r, w1)" by fastforce
  show ?case
  proof (cases r)
    case (Inl e)
    then have s: "job_step R (SweepingKeys now (key # keys)) q w = (SweepingKeys now keys, q, w1)" using z by simp
    have e: "expireKeys R now (key # keys) q w = expireKeys R now keys q w1" using z Inl by simp
    show ?thesis using Cons.IH [of q w1] unfolding e
      by (auto split: prod.splits outcome.splits intro: becomes_step [OF s])
  next
    case (Inr xs)
    then have s: "job_step R (SweepingKeys now (key # keys)) q w = (SweepingEntries now key xs keys, q, w1)" using z by simp
    obtain b w2 where b: "expireEntries R key xs q w1 = (b, w2)" by fastforce
    note entries = sweep_entries_alone [where R = R and key = key and xs = xs and q = q and w = w1 and now = now and keys = keys, unfolded b]
    show ?thesis
    proof (cases b)
      case (Panics p)
      with entries z Inr b show ?thesis by (auto intro: becomes_step [OF s])
    next
      case (Returns q1)
      then have e: "expireKeys R now (key # keys) q w = expireKeys R now keys q1 w2" using z Inr b by simp
      have "becomes R (SweepingKeys now (key # keys), q, w) (SweepingKeys now keys, q1, w2)"
        using entries Returns by (auto intro: becomes_step [OF s])
      then show ?thesis using Cons.IH [of q1 w2] unfolding e
        by (auto split: prod.splits outcome.splits intro: becomes_trans)
    qed
  qed
qed

lemma sweep_alone:
  "case checkExpiredMessages R q w of
     (Panics p, w') \<Rightarrow> \<exists>q'. becomes R (Sweeping, q, w) (Panicked p, q', w')
   | (Returns q', w') \<Rightarrow> becomes R (Sweeping, q, w) (Ended Swept, q', w')"
proof -
  obtain r w1 where k: "Keys R ''pel:*'' w = (r, w1)" by fastforce
  show ?thesis
  proof (cases r)
    case (Inl e)
    with k show ?thesis by (auto simp: checkExpiredMessages_def intro: becomes_one)
  next
    case (Inr keys)
    then have s: "job_step R Sweeping q w = (SweepingKeys (Now R w1) keys, q, w1)" using k by simp
    have e: "checkExpiredMessages R q w = expireKeys R (Now R w1) keys q w1" using k Inr by (simp add: checkExpiredMessages_def)
    show ?thesis using sweep_keys_alone [where R = R and now = "Now R w1" and keys = keys and q = q and w = w1] unfolding e
      by (auto split: prod.splits outcome.splits intro: becomes_step [OF s])
  qed
qed

lemma group_batch_alone:
  "case deliverBatch R t g ids n i q w of
     (Panics p, w') \<Rightarrow> \<exists>q'. becomes R (GroupPopping t g ids n i, q, w) (Panicked p, q', w')
   | (Returns (i', q'), w') \<Rightarrow> becomes R (GroupPopping t g ids n i, q, w) (Ended (Delivered i'), q', w')"
proof (induction n arbitrary: i q w)
  case 0
  then show ?case by (simp add: becomes_one)
next
  case (Suc n)
  obtain r w1 where p: "popMessage R t w = (r, w1)" by fastforce
  show ?case
  proof (cases "\<exists>m. r = Inr (Some m)")
    case False
    then consider e where "r = Inl e" | "r = Inr None" by (metis option.exhaust sum.exhaust)
    then show ?thesis by cases (simp_all add: p becomes_one)
  next
    case True
    then obtain m where m: "r = Inr (Some m)" by blast
    let ?c = "ids ! (i mod length ids)"
    have pop: "job_step R (GroupPopping t g ids (Suc n) i) q w = (GroupAdding t g ids n i m, q, w1)" using p m by simp
    obtain a w2 where a: "addToPEL R (rq_visibilityTimeout q) (Some m) g ?c w1 = (a, w2)" by fastforce
    consider x where "a = Panics x" | "a = Returns None" | e where "a = Returns (Some e)"
      by (metis outcome.exhaust option.exhaust)
    then show ?thesis
    proof cases
      case 1
      with a have "job_step R (GroupAdding t g ids n i m) q w1 = (Panicked x, q, w2)" by simp
      from becomes_step [OF pop becomes_one [OF this]] show ?thesis using p m a 1 by auto
    next
      case 2
      let ?q = "deliverToConsumer t g ?c m q"
      have add: "job_step R (GroupAdding t g ids n i m) q w1 = (GroupSending t g ids n (Suc i) ?c m, q, w2)"
        using a 2 by simp
      have send: "job_step R (GroupSending t g ids n (Suc i) ?c m) q w2 = (GroupPopping t g ids n (Suc i), ?q, w2)" by simp
      have e: "deliverBatch R t g ids (Suc n) i q w = deliverBatch R t g ids n (Suc i) ?q w2" using p m a 2 by simp
      note chain = becomes_step [OF pop becomes_step [OF add becomes_step [OF send]]]
      show ?thesis using Suc.IH [of "Suc i" ?q w2] unfolding e by (auto split: prod.splits outcome.splits intro: chain)
    next
      case (3 er)
      then have add: "job_step R (GroupAdding t g ids n i m) q w1 = (GroupRequeueing t g ids n (Suc i) m, q, w2)"
        using a by simp
      obtain b w3 where b: "requeueMessage R (Some m) w2 = (b, w3)" by fastforce
      show ?thesis
      proof (cases b)
        case (Panics x)
        with b have "job_step R (GroupRequeueing t g ids n (Suc i) m) q w2 = (Panicked x, q, w3)" by simp
        from becomes_step [OF pop becomes_step [OF add becomes_one [OF this]]] show ?thesis using p m a 3 b Panics by auto
      next
        case (Returns y)
        with b have again: "job_step R (GroupRequeueing t g ids n (Suc i) m) q w2 = (GroupPopping t g ids n (Suc i), q, w3)" by simp
        have e: "deliverBatch R t g ids (Suc n) i q w = deliverBatch R t g ids n (Suc i) q w3" using p m a 3 b Returns by simp
        note chain = becomes_step [OF pop becomes_step [OF add becomes_step [OF again]]]
        show ?thesis using Suc.IH [of "Suc i" q w3] unfolding e by (auto split: prod.splits outcome.splits intro: chain)
      qed
    qed
  qed
qed

lemma delivery_alone:
  "case deliverMessagesToGroup R order t g i q w of
     (Panics p, w') \<Rightarrow> \<exists>q'. becomes R (Delivering order t g i, q, w) (Panicked p, q', w')
   | (Returns (i', q'), w') \<Rightarrow> becomes R (Delivering order t g i, q, w) (Ended (Delivered i'), q', w')"
proof (cases "find_group q t g")
  case None
  then show ?thesis by (simp add: deliverMessagesToGroup_def becomes_one)
next
  case (Some grp)
  show ?thesis
  proof (cases "qg_Consumers grp = []")
    case True
    with Some show ?thesis by (simp add: deliverMessagesToGroup_def becomes_one)
  next
    case False
    let ?ids = "order (map fst (qg_Consumers grp))"
    have s: "job_step R (Delivering order t g i) q w = (GroupPopping t g ?ids batch_size i, q, w)" using Some False by simp
    have e: "deliverMessagesToGroup R order t g i q w = deliverBatch R t g ?ids batch_size i q w"
      using Some False by (simp add: deliverMessagesToGroup_def)
    show ?thesis using group_batch_alone [where R = R and t = t and g = g and ids = ?ids and n = batch_size and i = i and q = q and w = w]
      unfolding e by (auto split: prod.splits outcome.splits intro: becomes_step [OF s])
  qed
qed

section \<open>Jobs side by side\<close>

text \<open>The operations as the handlers and the expiry loop start them.\<close>

fun fresh :: "job \<Rightarrow> bool" where
  "fresh (Publishing m) \<longleftrightarrow> message_ok m"
| "fresh (Popping t g c n ms) \<longleftrightarrow> ms = []"
| "fresh (Scanning nack t g messageID) \<longleftrightarrow> True"
| "fresh Sweeping \<longleftrightarrow> True"
| "fresh (Delivering order t g i) \<longleftrightarrow> True"
| "fresh j \<longleftrightarrow> False"

text \<open>What a step confirms to the caller: a publication, or the acknowledgement of an ID.\<close>

fun published_by :: "job \<Rightarrow> job \<Rightarrow> Message set" where
  "published_by (Publishing m) (Ended (Settled None)) = {wire_form m}"
| "published_by j j' = {}"

fun acked_by :: "job \<Rightarrow> job \<Rightarrow> string set" where
  "acked_by (Removing False t g messageID x entry) (Ended (Settled None)) = {messageID}"
| "acked_by j j' = {}"

text \<open>The subscriber of an event stream receives the next message of its channel.\<close>

definition receive_event :: "string \<Rightarrow> string \<Rightarrow> string \<Rightarrow> RedisQueue \<Rightarrow> Message option \<times> RedisQueue" where
  "receive_event topic g c q = (case find_group q topic g of None \<Rightarrow> (None, q)
     | Some grp \<Rightarrow> (case map_of (qg_Consumers grp) c of None \<Rightarrow> (None, q)
         | Some consumer \<Rightarrow> (case qc_EventsCh consumer of [] \<Rightarrow> (None, q)
             | m # ms \<Rightarrow> (Some m, set_group topic g
                 (grp\<lparr>qg_Consumers := map_put c (consumer\<lparr>qc_EventsCh := ms\<rparr>) (qg_Consumers grp)\<rparr>) q))))"

text \<open>
  The states the service reaches from an empty store when operations start at any time and any of them takes the next
  step, with the messages whose publication and the IDs whose acknowledgement was confirmed. Delivery goroutines run for any
  group, a pass at a time. The clock moves between steps.
\<close>

inductive interleaves :: "'w redis \<Rightarrow> ('w \<Rightarrow> store) \<Rightarrow> RedisQueue \<Rightarrow> job list \<Rightarrow> RedisQueue \<Rightarrow> 'w \<Rightarrow> Message set \<Rightarrow> string set \<Rightarrow> bool"
  for R :: "'w redis" and data :: "'w \<Rightarrow> store" and q0 :: RedisQueue where
  begins: "store_ok (data w) \<Longrightarrow> held (data w) = {} \<Longrightarrow> interleaves R data q0 [] q0 w {} {}"
| starts: "interleaves R data q0 js q w P A \<Longrightarrow> fresh j \<Longrightarrow> interleaves R data q0 (js @ [j]) q w P A"
| steps: "interleaves R data q0 js q w P A \<Longrightarrow> i < length js \<Longrightarrow> job_step R (js ! i) q w = (j', q', w') \<Longrightarrow>
    interleaves R data q0 (js[i := j']) q' w' (P \<union> published_by (js ! i) j') (A \<union> acked_by (js ! i) j')"
| registers: "interleaves R data q0 js q w P A \<Longrightarrow> interleaves R data q0 js (RegisterConsumer t g c q) w P A"
| unregisters: "interleaves R data q0 js q w P A \<Longrightarrow> interleaves R data q0 js (UnregisterConsumer t g c q) w P A"
| receives: "interleaves R data q0 js q w P A \<Longrightarrow> interleaves R data q0 js (snd (receive_event t g c q)) w P A"
| clock: "interleaves R data q0 js q w P A \<Longrightarrow> data w' = data w \<Longrightarrow> interleaves R data q0 js q w' P A"

text \<open>The message that only a job has: popped and not yet pending, or removed and not yet back.\<close>

fun hand :: "job \<Rightarrow> Message set" where
  "hand (Adding t g c n ms msg) = set_option msg"
| "hand (Requeueing t g c n ms msg) = set_option msg"
| "hand (Returning msg) = set_option msg"
| "hand (SweepingBack now key xs keys msg) = set_option msg"
| "hand (GroupAdding t g ids n i msg) = {msg}"
| "hand (GroupRequeueing t g ids n i msg) = {msg}"
| "hand j = {}"

definition in_hand :: "job list \<Rightarrow> Message set" where
  "in_hand js = \<Union> (hand ` set js)"

text \<open>The messages a job can still write.\<close>

fun knows :: "job \<Rightarrow> Message set" where
  "knows (Removing nack t g messageID x entry) = {entry_message entry}"
| "knows (SweepingEntries now key xs keys) = (entry_message \<circ> text_entry) ` set xs"
| "knows (SweepingBack now key xs keys msg) = set_option msg \<union> (entry_message \<circ> text_entry) ` set xs"
| "knows (GroupSending t g ids n i selected msg) = {msg}"
| "knows j = hand j"

definition encodes :: "Message \<Rightarrow> bool" where
  "encodes m \<longleftrightarrow> message_ok m \<and> wire_form m = m \<and> (\<exists>j. message_json m = Inr j)"

definition pending_text :: "string \<Rightarrow> gotext \<Rightarrow> bool" where
  "pending_text key x \<longleftrightarrow> HasPrefix key ''pel:'' \<and> (\<exists>s. pending_ok key s x)"

fun job_ok :: "job \<Rightarrow> bool" where
  "job_ok (Publishing m) \<longleftrightarrow> message_ok m"
| "job_ok (Adding t g c n ms msg) \<longleftrightarrow> (\<forall>m. msg = Some m \<longrightarrow> encodes m)"
| "job_ok (Requeueing t g c n ms msg) \<longleftrightarrow> (\<exists>m. msg = Some m \<and> encodes m)"
| "job_ok (Removing nack t g messageID x entry) \<longleftrightarrow> pending_text (pelKey t g) x \<and> entry = text_entry x \<and> entry_is messageID x"
| "job_ok (Returning msg) \<longleftrightarrow> (\<exists>m. msg = Some m \<and> encodes m)"
| "job_ok (SweepingKeys now keys) \<longleftrightarrow> (\<forall>k \<in> set keys. HasPrefix k ''pel:'')"
| "job_ok (SweepingEntries now key xs keys) \<longleftrightarrow> HasPrefix key ''pel:'' \<and> (\<forall>x \<in> set xs. pending_text key x) \<and> (\<forall>k \<in> set keys. HasPrefix k ''pel:'')"
| "job_ok (SweepingBack now key xs keys msg) \<longleftrightarrow> (\<exists>m. msg = Some m \<and> encodes m) \<and> HasPrefix key ''pel:''
     \<and> (\<forall>x \<in> set xs. pending_text key x) \<and> (\<forall>k \<in> set keys. HasPrefix k ''pel:'')"
| "job_ok (GroupAdding t g ids n i msg) \<longleftrightarrow> encodes msg"
| "job_ok (GroupRequeueing t g ids n i msg) \<longleftrightarrow> encodes msg"
| "job_ok j \<longleftrightarrow> True"

lemma fresh_ok: "fresh j \<Longrightarrow> job_ok j \<and> hand j = {} \<and> knows j = {}"
  by (cases j) auto

lemma pending_text_entry:
  assumes "pending_text key x"
  shows "encodes (entry_message (text_entry x))" "pe_Message (text_entry x) = Some (entry_message (text_entry x))"
    "Unmarshal_entry x = Inr (text_entry x)" "pe_DeliveryCount (text_entry x) = 1"
proof -
  obtain s where s: "pending_ok key s x" using assms by (auto simp: pending_text_def)
  obtain e m where "Unmarshal_entry x = Inr e" "text_entry x = e" "pe_Message e = Some m" "entry_message e = m"
    "message_ok m" "wire_form m = m" "pe_DeliveryCount e = 1" using s by (rule pending_okD)
  with pending_ok_json(1) [OF s]
  show "encodes (entry_message (text_entry x))" "pe_Message (text_entry x) = Some (entry_message (text_entry x))"
    "Unmarshal_entry x = Inr (text_entry x)" "pe_DeliveryCount (text_entry x) = 1"
    by (auto simp: encodes_def)
qed

lemma queued_encodes: "queued_ok t x \<Longrightarrow> encodes (text_message x)"
  using queued_okD [of t x] queued_ok_json [of t x] by (auto simp: encodes_def)

text \<open>The messages that exist for a store, a queue and a job.\<close>

definition around :: "store \<Rightarrow> RedisQueue \<Rightarrow> Message set" where
  "around d q = held d \<union> dead q"

text \<open>The messages in the channels of the consumers. Only a delivery puts any there.\<close>

definition channelled :: "RedisQueue \<Rightarrow> Message set" where
  "channelled q = {m. \<exists>t g. in_channel q t g m}"

lemma map_of_put_event:
  "map_of (map_put c x cs) c' = Some y \<Longrightarrow> y = x \<or> map_of cs c' = Some y"
  by (simp split: if_splits)

lemma channelled_deliver: "channelled (deliverToConsumer t g c m q) \<subseteq> insert m (channelled q)"
  by (fastforce simp: channelled_def in_channel_def deliverToConsumer_def split: option.splits if_splits)

lemma channelled_register: "channelled (RegisterConsumer t g c q) \<subseteq> channelled q"
  by (fastforce simp: channelled_def in_channel_def RegisterConsumer_def Let_def split: option.splits if_splits)

lemma channelled_unregister: "channelled (UnregisterConsumer t g c q) \<subseteq> channelled q"
  by (fastforce simp: channelled_def in_channel_def UnregisterConsumer_def split: option.splits if_splits)

lemma channelled_receive: "channelled (snd (receive_event t g c q)) \<subseteq> channelled q"
  by (fastforce simp: channelled_def in_channel_def receive_event_def split: option.splits list.splits if_splits)

lemma channelled_dead [simp]: "channelled (q\<lparr>rq_deadLetterQueue := es\<rparr>) = channelled q"
  by (simp add: channelled_def in_channel_def find_group_def topic_groups_def)

lemma registry_sel [simp]:
  "dead (deliverToConsumer t g c m q) = dead q"
  "dead (RegisterConsumer t g c q) = dead q" "rq_visibilityTimeout (RegisterConsumer t g c q) = rq_visibilityTimeout q"
  "dead (UnregisterConsumer t g c q) = dead q" "rq_visibilityTimeout (UnregisterConsumer t g c q) = rq_visibilityTimeout q"
  "dead (snd (receive_event t g c q)) = dead q" "rq_visibilityTimeout (snd (receive_event t g c q)) = rq_visibilityTimeout q"
  by (auto simp: dead_def deliverToConsumer_def RegisterConsumer_def UnregisterConsumer_def receive_event_def Let_def
      split: option.splits list.splits)

lemma held_zset_add: "HasPrefix k ''pel:'' \<Longrightarrow> held (zset_add k s y d) = insert (entry_message (text_entry y)) (held d)"
  unfolding held_def waiting_zset pending_in_zset_add by blast

lemma held_removed:
  "m \<in> held (zset_remove k x d) \<Longrightarrow> m \<in> held d"
  "m \<in> held d \<Longrightarrow> m = entry_message (text_entry x) \<or> m \<in> held (zset_remove k x d)"
  using held_zset_remove [where k = k and x = x and d = d] by blast+

text \<open>
  One step of one job: nothing the service holds disappears but to an acknowledgement, and nothing appears that the
  job did not know or publish.
\<close>

definition good_step :: "('w \<Rightarrow> store) \<Rightarrow> duration \<Rightarrow> job \<Rightarrow> RedisQueue \<Rightarrow> 'w \<Rightarrow> job \<Rightarrow> RedisQueue \<Rightarrow> 'w \<Rightarrow> bool" where
  "good_step data vt j q w j' q' w' \<longleftrightarrow> store_ok (data w') \<and> job_ok j' \<and> rq_visibilityTimeout q' = vt
     \<and> around (data w) q \<union> hand j \<subseteq> around (data w') q' \<union> hand j' \<union> {m. msg_ID m \<in> acked_by j j'}
     \<and> around (data w') q' \<union> knows j' \<subseteq> around (data w) q \<union> knows j \<union> published_by j j'
     \<and> channelled q' \<subseteq> channelled q \<union> knows j"

context redis_live
begin

text \<open>A requeue puts the message back.\<close>

lemma requeue_held:
  assumes "encodes m" and "requeueMessage R (Some m) w = (r, w')" and "store_ok (data w)"
  shows "r = Returns None" "held (data w') = insert m (held (data w))" "store_ok (data w')"
proof -
  obtain j where j: "message_json m = Inr j" "message_ok m" "wire_form m = m" using assms(1) by (auto simp: encodes_def)
  obtain w1 where w1: "requeueMessage R (Some m) w = (Returns None, w1)"
    "data w1 = push_right (queueKey (msg_Topic m)) (Json j) (data w)" using requeue_live [OF j(1)] by blast
  with assms(2) j show "r = Returns None" "held (data w') = insert m (held (data w))" by auto
  show "store_ok (data w')" by (rule requeueMessage_store_ok [OF assms(2) j(2) assms(3)])
qed

lemma publish_step:
  assumes "job_step R (Publishing m) q w = (j', q', w')" and "message_ok m" and "store_ok (data w)"
    and "rq_visibilityTimeout q = vt"
  shows "good_step data vt (Publishing m) q w j' q' w'"
proof -
  obtain r where r: "Publish R m w = (r, w')" "j' = Ended (Settled r)" "q' = q"
    using assms(1) by (auto split: prod.splits)
  from Publish_store_ok [OF r(1) assms(2,3)] Publish_held [OF r(1) assms(2)] r(2,3) assms(4) show ?thesis
    by (cases r) (auto simp: good_step_def around_def)
qed

text \<open>A pop takes a message into the hand; \<open>addToPEL\<close> makes it pending.\<close>

lemma pop_held:
  assumes "store_ok (data w)"
  obtains w1 where "popMessage R t w = (Inr None, w1)" "data w1 = data w"
  | m w1 where "popMessage R t w = (Inr (Some m), w1)" "encodes m" "store_ok (data w1)"
      "held (data w) = insert m (held (data w1))"
proof (cases "lists (data w) (queueKey t) = []")
  case True
  then obtain w1 where "popMessage R t w = (Inr None, w1)" "data w1 = data w" by (rule popMessage_live_empty)
  then show ?thesis by (rule that(1))
next
  case False
  let ?x = "last (lists (data w) (queueKey t))"
  obtain w1 where p: "popMessage R t w = (Inr (Some (text_message ?x)), w1)" "data w1 = pop_right (queueKey t) (data w)"
    using popMessage_live [OF assms False] by blast
  have "queued_ok t ?x" using assms False by (intro store_ok_lists) auto
  then have e: "encodes (text_message ?x)" by (rule queued_encodes)
  have "waiting (data w) t = text_message ?x # tl (waiting (data w) t)"
    using False by (cases "lists (data w) (queueKey t)" rule: rev_cases) (simp_all add: waiting_def)
  then have "set (waiting (data w) t) = insert (text_message ?x) (set (tl (waiting (data w) t)))"
    by (metis list.simps(15))
  then have "held (data w) = insert (text_message ?x) (held (data w1))"
    unfolding p(2) held_def by (auto split: if_splits)
  moreover have "store_ok (data w1)" unfolding p(2) using assms by (rule store_ok_pop)
  ultimately show ?thesis using p(1) e by (intro that(2))
qed

lemma add_held:
  assumes "encodes m" and "store_ok (data w)"
  shows "\<exists>w1. addToPEL R vt (Some m) g c w = (Returns None, w1) \<and> held (data w1) = insert m (held (data w)) \<and> store_ok (data w1)"
proof -
  obtain j where m: "message_json m = Inr j" "message_ok m" "wire_form m = m" using assms(1) by (auto simp: encodes_def)
  obtain w1 s y where a: "addToPEL R vt (Some m) g c w = (Returns None, w1)"
    "data w1 = zset_add (pelKey (msg_Topic m) g) s y (data w)" "entry_message (text_entry y) = m"
    using addToPEL_live [OF m] by metis
  with held_zset_add [OF pelKey_prefix] addToPEL_store_ok [OF a(1) m(2) assms(2)] show ?thesis by auto
qed

lemma pop_step:
  assumes "job_step R (Popping t g c n ms) q w = (j', q', w')" and "store_ok (data w)" and "rq_visibilityTimeout q = vt"
  shows "good_step data vt (Popping t g c n ms) q w j' q' w'"
proof (cases n)
  case 0
  with assms show ?thesis by (auto simp: good_step_def)
next
  case (Suc k)
  from pop_held [OF assms(2), of t] show ?thesis
  proof cases
    case (1 w1)
    with assms Suc show ?thesis by (auto simp: good_step_def)
  next
    case (2 m w1)
    then have j: "j' = Adding t g c k ms (Some m)" "q' = q" "w' = w1" using assms(1) Suc by simp_all
    show ?thesis unfolding good_step_def around_def j 2(4) using 2(2,3) assms(3) by (simp del: insert_iff)
  qed
qed

lemma add_step:
  assumes "job_step R (Adding t g c n ms msg) q w = (j', q', w')" and "job_ok (Adding t g c n ms msg)"
    and "store_ok (data w)" and "rq_visibilityTimeout q = vt"
  shows "good_step data vt (Adding t g c n ms msg) q w j' q' w'"
proof (cases msg)
  case None
  with assms show ?thesis by (auto simp: good_step_def addToPEL_def)
next
  case (Some m)
  then obtain w1 where a: "addToPEL R vt (Some m) g c w = (Returns None, w1)"
    "held (data w1) = insert m (held (data w))" "store_ok (data w1)" using add_held [of m w g c] assms(2,3) by auto
  have j: "j' = Popping t g c n (ms @ [m])" "q' = q" "w' = w1" using a(1) assms(1,4) Some by simp_all
  show ?thesis unfolding good_step_def around_def j a(2) Some using a(3) assms(4) by auto
qed

lemma back_step:
  assumes "job_step R j q w = (j', q', w')" and "job_ok j" and "store_ok (data w)" and "rq_visibilityTimeout q = vt"
    and "(\<exists>t g c n ms msg. j = Requeueing t g c n ms msg) \<or> (\<exists>msg. j = Returning msg) \<or> (\<exists>now key xs keys msg. j = SweepingBack now key xs keys msg)
      \<or> (\<exists>t g ids n i m. j = GroupRequeueing t g ids n i m)"
  shows "good_step data vt j q w j' q' w'"
proof -
  obtain m where m: "hand j = {m}" "encodes m" and msg: "(\<exists>t g c n ms. j = Requeueing t g c n ms (Some m)) \<or> j = Returning (Some m)
      \<or> (\<exists>now key xs keys. j = SweepingBack now key xs keys (Some m)) \<or> (\<exists>t g ids n i. j = GroupRequeueing t g ids n i m)"
    using assms(2,5) by auto
  obtain r w1 where r: "requeueMessage R (Some m) w = (r, w1)" by fastforce
  note h = requeue_held [OF m(2) r assms(3)]
  from msg assms(1,2,4) r h show ?thesis by (auto simp: good_step_def around_def)
qed

lemma group_pop_step:
  assumes "job_step R (GroupPopping t g ids n i) q w = (j', q', w')" and "store_ok (data w)" and "rq_visibilityTimeout q = vt"
  shows "good_step data vt (GroupPopping t g ids n i) q w j' q' w'"
proof (cases n)
  case 0
  with assms show ?thesis by (auto simp: good_step_def)
next
  case (Suc k)
  from pop_held [OF assms(2), of t] show ?thesis
  proof cases
    case (1 w1)
    with assms Suc show ?thesis by (auto simp: good_step_def)
  next
    case (2 m w1)
    then have j: "j' = GroupAdding t g ids k i m" "q' = q" "w' = w1" using assms(1) Suc by simp_all
    show ?thesis unfolding good_step_def around_def j 2(4) using 2(2,3) assms(3) by (simp del: insert_iff)
  qed
qed

lemma group_add_step:
  assumes "job_step R (GroupAdding t g ids n i m) q w = (j', q', w')" and "encodes m"
    and "store_ok (data w)" and "rq_visibilityTimeout q = vt"
  shows "good_step data vt (GroupAdding t g ids n i m) q w j' q' w'"
proof -
  from add_held [OF assms(2,3), of g "ids ! (i mod length ids)"] obtain w1 where
    a: "addToPEL R vt (Some m) g (ids ! (i mod length ids)) w = (Returns None, w1)"
    "held (data w1) = insert m (held (data w))" "store_ok (data w1)" by blast
  have j: "j' = GroupSending t g ids n (Suc i) (ids ! (i mod length ids)) m" "q' = q" "w' = w1"
    using a(1) assms(1,4) by (simp_all add: Let_def)
  show ?thesis unfolding good_step_def around_def j a(2) using a(3) assms(4) by auto
qed

lemma scan_step:
  assumes "job_step R (Scanning nack t g messageID) q w = (j', q', w')" and "store_ok (data w)" and "rq_visibilityTimeout q = vt"
  shows "good_step data vt (Scanning nack t g messageID) q w j' q' w'"
proof -
  obtain xs w1 where z: "ZRange R (pelKey t g) w = (Inr xs, w1)" "data w1 = data w"
    "set xs = dom (zsets (data w) (pelKey t g))"
    and f: "find_entry messageID xs = Returns (map_option (\<lambda>x. (x, text_entry x)) (find (entry_is messageID) xs))"
    by (rule scan_live [OF assms(2), of t g messageID])
  show ?thesis
  proof (cases "find (entry_is messageID) xs")
    case None
    with assms z f show ?thesis by (auto simp: good_step_def)
  next
    case (Some x)
    then have x: "x \<in> set xs" "entry_is messageID x" by (auto simp: find_Some_iff)
    then obtain s where s: "zsets (data w) (pelKey t g) x = Some s" using z(3) by auto
    then have "pending_text (pelKey t g) x" using store_ok_pel [OF assms(2) s] by (auto simp: pending_text_def)
    moreover have "entry_message (text_entry x) \<in> held (data w)" by (rule held_pending [OF s pelKey_prefix])
    ultimately show ?thesis using assms z f Some x(2) by (auto simp: good_step_def around_def)
  qed
qed

lemma remove_step:
  assumes "job_step R (Removing nack t g messageID x entry) q w = (j', q', w')"
    and "job_ok (Removing nack t g messageID x entry)" and "store_ok (data w)" and "rq_visibilityTimeout q = vt"
  shows "good_step data vt (Removing nack t g messageID x entry) q w j' q' w'"
proof -
  obtain n w1 where z: "ZRem R (pelKey t g) x w = (Inr n, w1)" using ZRem_total by blast
  have d: "data w1 = zset_remove (pelKey t g) x (data w)" using ZRem_ok [OF z] .
  have x: "pending_text (pelKey t g) x" "entry = text_entry x" "msg_ID (entry_message (text_entry x)) = messageID"
    using assms(2) by (auto simp: entry_is_def)
  note e = pending_text_entry [OF x(1)]
  note h = held_removed [where k = "pelKey t g" and x = x and d = "data w", folded d]
  have ok: "store_ok (data w1)" using assms(3) d by (simp add: store_ok_zset_remove)
  show ?thesis
  proof (cases nack)
    case True
    then have "j' = Returning (Some (entry_message (text_entry x)))" "q' = q" "w' = w1" using assms(1) z e(2) x(2) by auto
    then show ?thesis using True x(2) e(1) ok assms(4) h by (auto simp: good_step_def around_def)
  next
    case False
    then have "j' = Ended (Settled None)" "q' = q" "w' = w1" using assms(1) z by auto
    then show ?thesis using False x(2,3) ok assms(4) h by (auto simp: good_step_def around_def)
  qed
qed

lemma sweep_step:
  assumes "job_step R Sweeping q w = (j', q', w')" and "store_ok (data w)" and "rq_visibilityTimeout q = vt"
  shows "good_step data vt Sweeping q w j' q' w'"
proof -
  obtain ks w1 where k: "Keys R ''pel:*'' w = (Inr ks, w1)" using Keys_total by blast
  then have "data w1 = data w" "\<forall>k \<in> set ks. HasPrefix k ''pel:''" using Keys_ok [of "''pel:''" w ks w1] by auto
  with k assms show ?thesis by (auto simp: good_step_def)
qed

lemma sweep_key_step:
  assumes "job_step R (SweepingKeys now keys) q w = (j', q', w')" and "job_ok (SweepingKeys now keys)"
    and "store_ok (data w)" and "rq_visibilityTimeout q = vt"
  shows "good_step data vt (SweepingKeys now keys) q w j' q' w'"
proof (cases keys)
  case Nil
  with assms show ?thesis by (auto simp: good_step_def)
next
  case (Cons key keys')
  then have key: "HasPrefix key ''pel:''" using assms(2) by simp
  obtain xs w1 where z: "ZRangeByScore R key (Unix now) w = (Inr xs, w1)" using ZRangeByScore_total by blast
  then have d: "data w1 = data w" "set xs \<subseteq> dom (zsets (data w) key)" using ZRangeByScore_ok [OF z] by auto
  have "pending_text key x \<and> entry_message (text_entry x) \<in> held (data w)" if x: "x \<in> set xs" for x
  proof -
    obtain s where s: "zsets (data w) key x = Some s" using x d(2) by auto
    then show ?thesis using store_ok_zsets [OF assms(3) key s] held_pending [OF s key] key by (auto simp: pending_text_def)
  qed
  with assms Cons z d(1) show ?thesis by (auto simp: good_step_def around_def)
qed

lemma sweep_entry_step:
  assumes "job_step R (SweepingEntries now key xs keys) q w = (j', q', w')" and "job_ok (SweepingEntries now key xs keys)"
    and "store_ok (data w)" and "rq_visibilityTimeout q = vt"
  shows "good_step data vt (SweepingEntries now key xs keys) q w j' q' w'"
proof (cases xs)
  case Nil
  with assms show ?thesis by (auto simp: good_step_def)
next
  case (Cons x xs')
  then have x: "pending_text key x" using assms(2) by simp
  note e = pending_text_entry [OF x]
  obtain n w1 where z: "ZRem R key x w = (Inr n, w1)" using ZRem_total by blast
  have d: "data w1 = zset_remove key x (data w)" using ZRem_ok [OF z] .
  note h = held_removed [where k = key and x = x and d = "data w", folded d]
  have ok: "store_ok (data w1)" using assms(3) d by (simp add: store_ok_zset_remove)
  show ?thesis
  proof (cases "rq_maxRetries q \<le> 1")
    case True
    then have "j' = SweepingEntries now key xs' keys"
      "q' = q\<lparr>rq_deadLetterQueue := rq_deadLetterQueue q @ [text_entry x]\<rparr>" "w' = w1"
      using assms(1) Cons z e(2-4) by auto
    then show ?thesis using Cons assms(2,4) ok h by (auto simp: good_step_def around_def dead_def)
  next
    case False
    then have "j' = SweepingBack now key xs' keys (Some (entry_message (text_entry x)))" "q' = q" "w' = w1"
      using assms(1) Cons z e(2-4) by auto
    then show ?thesis using Cons assms(2,4) ok h e(1) by (auto simp: good_step_def around_def)
  qed
qed

lemma job_step_good:
  assumes "job_step R j q w = (j', q', w')" and "job_ok j" and "store_ok (data w)" and "rq_visibilityTimeout q = vt"
  shows "good_step data vt j q w j' q' w'"
proof (cases j)
  case (Publishing m)
  have "message_ok m" using assms(2) by (simp add: Publishing)
  then show ?thesis unfolding Publishing by (rule publish_step [OF assms(1) [unfolded Publishing] _ assms(3,4)])
next
  case (Popping t g c n ms)
  show ?thesis unfolding Popping by (rule pop_step [OF assms(1,3,4) [unfolded Popping]])
next
  case (Adding t g c n ms msg)
  show ?thesis unfolding Adding by (rule add_step [OF assms [unfolded Adding]])
next
  case (Scanning nack t g messageID)
  show ?thesis unfolding Scanning by (rule scan_step [OF assms(1,3,4) [unfolded Scanning]])
next
  case (Removing nack t g messageID x entry)
  show ?thesis unfolding Removing by (rule remove_step [OF assms [unfolded Removing]])
next
  case Sweeping
  show ?thesis unfolding Sweeping by (rule sweep_step [OF assms(1,3,4) [unfolded Sweeping]])
next
  case (SweepingKeys now keys)
  show ?thesis unfolding SweepingKeys by (rule sweep_key_step [OF assms [unfolded SweepingKeys]])
next
  case (SweepingEntries now key xs keys)
  show ?thesis unfolding SweepingEntries by (rule sweep_entry_step [OF assms [unfolded SweepingEntries]])
next
  case (Requeueing t g c n ms msg)
  then show ?thesis by (intro back_step [OF assms]) simp
next
  case (Returning msg)
  then show ?thesis by (intro back_step [OF assms]) simp
next
  case (SweepingBack now key xs keys msg)
  then show ?thesis by (intro back_step [OF assms]) simp
next
  case (GroupRequeueing t g ids n i m)
  then show ?thesis by (intro back_step [OF assms]) simp
next
  case (Delivering order t g i)
  with assms show ?thesis by (auto simp: good_step_def split: option.splits if_splits)
next
  case (GroupPopping t g ids n i)
  show ?thesis unfolding GroupPopping by (rule group_pop_step [OF assms(1,3,4) [unfolded GroupPopping]])
next
  case (GroupAdding t g ids n i m)
  have "encodes m" using assms(2) by (simp add: GroupAdding)
  then show ?thesis unfolding GroupAdding by (rule group_add_step [OF assms(1) [unfolded GroupAdding] _ assms(3,4)])
next
  case (GroupSending t g ids n i selected m)
  with assms channelled_deliver [of t g selected m q] show ?thesis by (auto simp: good_step_def around_def)
qed (use assms in \<open>auto simp: good_step_def\<close>)

text \<open>Any interleaving keeps the store well-formed, loses nothing and makes nothing up.\<close>

lemma interleaves_keeps:
  assumes "interleaves R data (NewRedisQueue vt mr) js q w P A"
  shows "store_ok (data w) \<and> (\<forall>j \<in> set js. job_ok j) \<and> rq_visibilityTimeout q = vt
    \<and> (\<forall>m \<in> P. msg_ID m \<in> A \<or> m \<in> around (data w) q \<union> in_hand js) \<and> around (data w) q \<union> \<Union> (knows ` set js) \<subseteq> P
    \<and> channelled q \<subseteq> P"
  using assms
proof induction
  case (begins w)
  then show ?case
    by (simp add: around_def dead_def in_hand_def NewRedisQueue_def channelled_def in_channel_def find_group_def topic_groups_def)
next
  case (starts js q w P A j)
  with fresh_ok [OF starts.hyps(2)] show ?case by (auto simp: in_hand_def)
next
  case (steps js q w P A i j' q' w')
  let ?j = "js ! i" and ?js = "js[i := j']"
  have j: "?j \<in> set js" using steps.hyps(2) by simp
  have g: "good_step data vt ?j q w j' q' w'"
    by (rule job_step_good [OF steps.hyps(3)]) (use steps.IH j in auto)
  then have lost: "around (data w) q \<union> hand ?j \<subseteq> around (data w') q' \<union> hand j' \<union> {m. msg_ID m \<in> acked_by ?j j'}"
    and made: "around (data w') q' \<union> knows j' \<subseteq> around (data w) q \<union> knows ?j \<union> published_by ?j j'"
    and ok: "store_ok (data w')" "job_ok j'" "rq_visibilityTimeout q' = vt"
    and sent: "channelled q' \<subseteq> channelled q \<union> knows ?j" by (simp_all add: good_step_def)
  have sub: "set ?js \<subseteq> insert j' (set js)" by (rule set_update_subset_insert)
  have jobs: "\<forall>j \<in> set ?js. job_ok j" using sub steps.IH ok(2) by blast
  have knows: "around (data w') q' \<union> \<Union> (knows ` set ?js) \<subseteq> P \<union> published_by ?j j'"
  proof (rule Un_least)
    have old: "around (data w) q \<union> \<Union> (knows ` set js) \<subseteq> P" using steps.IH by blast
    then have "around (data w) q \<union> knows ?j \<subseteq> P" using j by auto
    then have step: "around (data w') q' \<union> knows j' \<subseteq> P \<union> published_by ?j j'" using made by auto
    then show "around (data w') q' \<subseteq> P \<union> published_by ?j j'" by simp
    show "\<Union> (knows ` set ?js) \<subseteq> P \<union> published_by ?j j'"
    proof (rule UN_least)
      fix x assume "x \<in> set ?js"
      then have "x = j' \<or> x \<in> set js" using sub by blast
      then show "knows x \<subseteq> P \<union> published_by ?j j'"
      proof
        assume "x \<in> set js"
        then have "knows x \<subseteq> P" using old by auto
        then show ?thesis by auto
      qed (use step in simp)
    qed
  qed
  have hands: "m \<in> around (data w') q' \<union> in_hand ?js \<or> msg_ID m \<in> acked_by ?j j'"
    if m: "m \<in> around (data w) q \<union> in_hand js" for m
  proof (cases "m \<in> around (data w) q \<union> hand ?j")
    case True
    have "j' \<in> set ?js" using steps.hyps(2) by (simp add: set_update_memI)
    with True lost show ?thesis by (auto simp: in_hand_def)
  next
    case False
    then obtain k where "k < length js" "m \<in> hand (js ! k)" using m by (auto simp: in_hand_def in_set_conv_nth)
    moreover from this False have "k \<noteq> i" by auto
    ultimately have "js ! k \<in> set ?js" by (metis length_list_update nth_list_update_neq nth_mem)
    with \<open>m \<in> hand (js ! k)\<close> show ?thesis by (auto simp: in_hand_def)
  qed
  have new: "published_by ?j j' \<subseteq> around (data w') q'"
  proof (cases "\<exists>m. ?j = Publishing m \<and> j' = Ended (Settled None)")
    case True
    then obtain m where m: "?j = Publishing m" "j' = Ended (Settled None)" by blast
    then have "Publish R m w = (None, w')" "message_ok m" using steps.hyps(3) steps.IH j by (auto split: prod.splits)
    with Publish_held [OF this] m show ?thesis by (simp add: around_def)
  next
    case False
    then have "published_by ?j j' = {}" by (cases "(?j, j')" rule: published_by.cases) auto
    then show ?thesis by simp
  qed
  have "msg_ID m \<in> A \<union> acked_by ?j j' \<or> m \<in> around (data w') q' \<union> in_hand ?js" if "m \<in> P \<union> published_by ?j j'" for m
  proof (cases "m \<in> P")
    case True
    then have "msg_ID m \<in> A \<or> m \<in> around (data w) q \<union> in_hand js" using steps.IH by simp
    then show ?thesis using hands [of m] by auto
  next
    case False
    with that new show ?thesis by auto
  qed
  moreover have "channelled q' \<subseteq> P"
  proof -
    have "channelled q \<subseteq> P" "knows ?j \<subseteq> P" using steps.IH j by auto
    then show ?thesis using sent by blast
  qed
  ultimately show ?case using ok jobs knows by auto
next
  case (registers js q w P A t g c)
  with channelled_register [of t g c q] show ?case by (auto simp: around_def)
next
  case (unregisters js q w P A t g c)
  with channelled_unregister [of t g c q] show ?case by (auto simp: around_def)
next
  case (receives js q w P A t g c)
  with channelled_receive [of t g c q] show ?case by (auto simp: around_def)
qed simp

end

section \<open>Schedules\<close>

text \<open>A schedule names the jobs that step, one after the other.\<close>

fun run_schedule :: "'w redis \<Rightarrow> nat list \<Rightarrow> job list \<times> RedisQueue \<times> 'w \<Rightarrow> job list \<times> RedisQueue \<times> 'w" where
  "run_schedule R [] s = s"
| "run_schedule R (i # is) (js, q, w) =
     (if i < length js then case job_step R (js ! i) q w of (j', q', w') \<Rightarrow> run_schedule R is (js[i := j'], q', w')
      else run_schedule R is (js, q, w))"

lemma run_schedule_interleaves:
  assumes "interleaves R data q0 js q w P A"
  shows "\<exists>P' A'. interleaves R data q0 (fst (run_schedule R is (js, q, w))) (fst (snd (run_schedule R is (js, q, w))))
      (snd (snd (run_schedule R is (js, q, w)))) P' A' \<and> P \<subseteq> P' \<and> A \<subseteq> A'"
  using assms
proof (induction "is" arbitrary: js q w P A)
  case Nil
  then show ?case by auto
next
  case (Cons i "is")
  show ?case
  proof (cases "i < length js")
    case True
    obtain j' q' w' where s: "job_step R (js ! i) q w = (j', q', w')" by (cases "job_step R (js ! i) q w")
    from Cons.IH [OF interleaves.steps [OF Cons.prems True s]] True s show ?thesis by (auto 4 4)
  next
    case False
    with Cons.IH [OF Cons.prems] show ?thesis by simp
  qed
qed

lemma start_jobs:
  "interleaves R data q0 js q w P A \<Longrightarrow> \<forall>j \<in> set ks. fresh j \<Longrightarrow> interleaves R data q0 (js @ ks) q w P A"
proof (induction ks arbitrary: js)
  case (Cons k ks)
  from Cons.IH [OF interleaves.starts [OF Cons.prems(1), of k]] Cons.prems(2) show ?case by simp
qed simp

text \<open>The message of the examples is published and fetched, and two negative acknowledgements of it race.\<close>

definition racing_jobs :: "job list" where
  "racing_jobs = [Publishing sample, Popping ''telemetry'' ''g'' ''c'' 1 [], Scanning True ''telemetry'' ''g'' ''m1'',
     Scanning True ''telemetry'' ''g'' ''m1'', Scanning False ''telemetry'' ''g'' ''m1'']"

definition both_nack :: "nat list" where
  "both_nack = [0, 1, 1, 1, 2, 3, 2, 3, 2, 3]"

definition nack_overtakes_ack :: "nat list" where
  "nack_overtakes_ack = [0, 1, 1, 1, 2, 4, 2, 2, 4]"

lemma races_start: "interleaves calm_redis mem_data sample_queue racing_jobs sample_queue empty_world {} {}"
proof -
  have "interleaves calm_redis mem_data sample_queue [] sample_queue empty_world {} {}"
    by (rule interleaves.begins) (rule empty_world_props)+
  from start_jobs [OF this, of racing_jobs] show ?thesis by (simp add: racing_jobs_def sample_props)
qed

section \<open>Properties\<close>

definition fetched_job :: "(error + Message list) outcome \<Rightarrow> job" where
  "fetched_job r = (case r of Panics p \<Rightarrow> Panicked p | Returns (Inl e) \<Rightarrow> Ended (Settled (Some e)) | Returns (Inr ms) \<Rightarrow> Ended (Fetched ms))"

definition settled_job :: "error option outcome \<Rightarrow> job" where
  "settled_job r = (case r of Panics p \<Rightarrow> Panicked p | Returns e \<Rightarrow> Ended (Settled e))"


text \<open>C3. However publishers, fetches, acknowledgements, refusals, the expiry loop and the delivery goroutines interleave at
  their Redis commands, with push consumers that come, receive and go, on a server that answers: a message whose publication was confirmed is waiting, pending, dead-lettered or in the hands
  of a running operation until its ID is acknowledged, and the service never holds a message nobody published, nor puts one in the channel of a consumer. Only
  the process that dies with a message in its hands loses it.\<close>

theorem no_message_lost_in_any_interleaving:
  assumes "redis_live R data vt" and "interleaves R data (NewRedisQueue vt mr) js q w P A"
  shows "(\<forall>m \<in> P. msg_ID m \<in> A \<or> m \<in> held (data w) \<union> dead q \<union> in_hand js) \<and> held (data w) \<union> dead q \<union> in_hand js \<union> channelled q \<subseteq> P"
proof -
  note k = redis_live.interleaves_keeps [OF assms]
  have "hand j \<subseteq> knows j" for j by (cases j) auto
  then have "in_hand js \<subseteq> \<Union> (knows ` set js)" unfolding in_hand_def by blast
  with k show ?thesis by (auto simp: around_def)
qed

theorem no_message_lost_in_any_interleaving_witness:
  "\<exists>js w A. interleaves calm_redis mem_data sample_queue js sample_queue w {sample} A \<and> held (mem_data w) = {}
     \<and> (msg_ID sample \<in> A \<or> sample \<in> held (mem_data w) \<union> dead sample_queue \<union> in_hand js)"
proof -
  have pub: "job_step calm_redis (racing_jobs ! 0) sample_queue empty_world = (Ended (Settled None), sample_queue, published_world)"
    by (simp add: racing_jobs_def published_world_props(1))
  have one: "interleaves calm_redis mem_data sample_queue (racing_jobs[0 := Ended (Settled None)]) sample_queue published_world {sample} {}"
    using interleaves.steps [OF races_start _ pub] by (simp add: racing_jobs_def sample_props(2))
  obtain w where p: "popMessage calm_redis ''telemetry'' published_world = (Inr (Some sample), w)"
    "mem_data w = pop_right (queueKey ''telemetry'') (mem_data published_world)"
  proof -
    have ne: "lists (mem_data published_world) (queueKey ''telemetry'') \<noteq> []"
      using published_world_props(3) by (auto simp: waiting_def)
    have "text_message (last (lists (mem_data published_world) (queueKey ''telemetry''))) = sample"
      using published_world_props(3) ne
      by (cases "lists (mem_data published_world) (queueKey ''telemetry'')" rule: rev_cases) (simp_all add: waiting_def)
    with live.popMessage_live [OF published_world_props(2) ne] that show ?thesis by metis
  qed
  let ?js = "racing_jobs[0 := Ended (Settled None)]"
  have "job_step calm_redis (?js ! 1) sample_queue published_world
      = (Adding ''telemetry'' ''g'' ''c'' 0 [] (Some sample), sample_queue, w)"
    using p(1) by (simp add: racing_jobs_def)
  from interleaves.steps [OF one _ this]
  have two: "interleaves calm_redis mem_data sample_queue (?js[1 := Adding ''telemetry'' ''g'' ''c'' 0 [] (Some sample)]) sample_queue w {sample} {}"
    by (simp add: racing_jobs_def)
  obtain j where "mem_data published_world = push_left (queueKey (msg_Topic sample)) (Json j) (mem_data empty_world)"
    using calm.Publish_effect(2) [OF published_world_props(1)] by blast
  then have "waiting (mem_data w) t = []" and "\<not> pending_in (mem_data w) key m" for t key m
    by (simp_all add: p(2) sample_props empty_world_props pending_in_def) (simp add: empty_world_def mem_data_def mem_zset_def)
  then have "held (mem_data w) = {}" by (auto simp: held_def)
  with no_message_lost_in_any_interleaving [OF live.redis_live_axioms two [unfolded sample_queue_def]] two
  show ?thesis unfolding sample_queue_def by blast
qed

definition settled_nil :: "job \<Rightarrow> bool" where
  "settled_nil j = (case j of Ended r \<Rightarrow> (case r of Settled e \<Rightarrow> e = None | _ \<Rightarrow> False) | _ \<Rightarrow> False)"

lemma settled_nil_iff: "settled_nil j \<longleftrightarrow> j = Ended (Settled None)"
  by (auto simp: settled_nil_def split: job.splits job_result.splits)


end
