(* ===== verification/QueueLifecycle.thy ===== *)
theory QueueLifecycle
  imports QueueProperties Consumers
begin

text \<open>
  The goroutines of \<open>internal/queueservice/redis_queue.go\<close> and their end: \<open>visibilityTimeoutChecker\<close>, one
  \<open>deliverMessagesToGroup\<close> for each entry of the list of deliverers, and \<open>Close\<close>, which cancels their context, waits for
  them and closes the client. Once \<open>Close\<close> has returned nothing of the queue talks to Redis.
\<close>

section \<open>State and steps\<close>

text \<open>
  The context of the queue; whether the checker runs; the delivery goroutines that run, with their \<open>consumerIndex\<close>; the
  calls of \<open>Close\<close> that wait; whether the client is open.
\<close>

record lifecycle =
  lc_ctxDone :: bool
  lc_checker :: bool
  lc_deliverers :: "((string \<times> string) \<times> nat) list"
  lc_closing :: nat
  lc_open :: bool

definition queue_begins :: lifecycle where
  "queue_begins = \<lparr>lc_ctxDone = False, lc_checker = True, lc_deliverers = [], lc_closing = 0, lc_open = True\<rparr>"

text \<open>The entries by which \<open>RegisterConsumer\<close> has extended the list of deliverers are started.\<close>

definition start_deliverers :: "RedisQueue \<Rightarrow> RedisQueue \<Rightarrow> lifecycle \<Rightarrow> lifecycle" where
  "start_deliverers q q' l = l\<lparr>lc_deliverers := lc_deliverers l
     @ map (\<lambda>d. (d, 0)) (take (length (rq_deliverers q') - length (rq_deliverers q)) (rq_deliverers q'))\<rparr>"

text \<open>\<open>Close\<close> up to its wait, and, when no goroutine is left, to its end; its result is that of closing the client.\<close>

definition close_begins :: "lifecycle \<Rightarrow> lifecycle" where
  "close_begins l = l\<lparr>lc_ctxDone := True, lc_closing := lc_closing l + 1\<rparr>"

definition close_ends :: "lifecycle \<Rightarrow> lifecycle option" where
  "close_ends l = (if lc_closing l = 0 \<or> lc_checker l \<or> lc_deliverers l \<noteq> [] then None
     else Some (l\<lparr>lc_closing := lc_closing l - 1, lc_open := False\<rparr>))"

text \<open>
  A select with the tick and the end of the context both ready may take either; the one with a default takes the end of
  the context when it is there. A pass of a loop is one step, its sleep included.
\<close>

inductive life_step :: "'w redis \<Rightarrow> lifecycle \<times> RedisQueue \<times> 'w \<Rightarrow> lifecycle \<times> RedisQueue \<times> 'w \<Rightarrow> bool" for R where
  ticks: "lc_checker l \<Longrightarrow> checkExpiredMessages R q w = (Returns q', w') \<Longrightarrow> life_step R (l, q, w) (l, q', w')"
| checker_ends: "lc_checker l \<Longrightarrow> lc_ctxDone l \<Longrightarrow> life_step R (l, q, w) (l\<lparr>lc_checker := False\<rparr>, q, w)"
| delivers: "i < length (lc_deliverers l) \<Longrightarrow> lc_deliverers l ! i = ((t, g), n) \<Longrightarrow> \<not> lc_ctxDone l \<Longrightarrow>
    deliverMessagesToGroup R order t g n q w = (Returns (n', q'), w') \<Longrightarrow>
    life_step R (l, q, w) (l\<lparr>lc_deliverers := (lc_deliverers l)[i := ((t, g), n')]\<rparr>, q', w')"
| deliverer_ends: "d \<in> set (lc_deliverers l) \<Longrightarrow> lc_ctxDone l \<Longrightarrow>
    life_step R (l, q, w) (l\<lparr>lc_deliverers := remove1 d (lc_deliverers l)\<rparr>, q, w)"
| registers: "q' = RegisterConsumer t g c q \<Longrightarrow> life_step R (l, q, w) (start_deliverers q q' l, q', w)"
| unregisters: "life_step R (l, q, w) (l, UnregisterConsumer t g c q, w)"
| close_cancels: "life_step R (l, q, w) (close_begins l, q, w)"
| close_returns: "close_ends l = Some l' \<Longrightarrow> life_step R (l, q, w) (l', q, w)"

inductive life_run :: "'w redis \<Rightarrow> lifecycle \<times> RedisQueue \<times> 'w \<Rightarrow> lifecycle \<times> RedisQueue \<times> 'w \<Rightarrow> bool" for R where
  life_refl: "life_run R s s"
| life_trans: "life_run R s s1 \<Longrightarrow> life_step R s1 s2 \<Longrightarrow> life_run R s s2"

inductive_cases life_stepE: "life_step R (l, q, w) s"

section \<open>What holds of every run\<close>

lemmas life_defs = start_deliverers_def close_begins_def close_ends_def

text \<open>The context ends with the first \<open>Close\<close>, and the client is closed after the checker has left.\<close>

definition life_ok :: "lifecycle \<Rightarrow> bool" where
  "life_ok l \<longleftrightarrow> (0 < lc_closing l \<longrightarrow> lc_ctxDone l) \<and> (\<not> lc_open l \<longrightarrow> lc_ctxDone l \<and> \<not> lc_checker l)"

lemma life_step_ok:
  assumes "life_step R s s'" and "life_ok (fst s)"
  shows "life_ok (fst s')"
  using assms by cases (auto simp: life_ok_def life_defs split: if_splits)

lemma life_run_ok:
  assumes "life_run R s s'" and "life_ok (fst s)"
  shows "life_ok (fst s')"
  using assms by induction (auto intro: life_step_ok)

text \<open>Once the client is closed it stays closed and no step reaches the server, whoever registers then.\<close>

lemma closed_step:
  assumes "life_step R s s'" and "life_ok (fst s)" and "\<not> lc_open (fst s)"
  shows "\<not> lc_open (fst s') \<and> snd (snd s') = snd (snd s)"
  using assms by cases (auto simp: life_ok_def life_defs split: if_splits)

lemma closed_run:
  assumes "life_run R s s'" and "life_ok (fst s)" and "\<not> lc_open (fst s)"
  shows "\<not> lc_open (fst s') \<and> snd (snd s') = snd (snd s)"
  using assms
proof induction
  case (life_trans s s1 s2)
  with closed_step [OF life_trans.hyps(2)] life_run_ok [OF life_trans.hyps(1)] show ?case by simp
qed simp

text \<open>A waiting \<open>Close\<close> is never stuck: goroutines can leave until it returns.\<close>

lemma life_append:
  assumes "life_run R s s1" and "life_run R s1 s2"
  shows "life_run R s s2"
  using assms(2,1) by induction (auto intro: life_run.life_trans)

lemma life_one: "life_step R s s' \<Longrightarrow> life_run R s s'"
  by (rule life_trans [OF life_refl])

lemma deliverers_leave:
  assumes "lc_ctxDone l"
  shows "life_run R (l, q, w) (l\<lparr>lc_deliverers := []\<rparr>, q, w)"
  using assms
proof (induction "lc_deliverers l" arbitrary: l)
  case Nil
  then have "l\<lparr>lc_deliverers := []\<rparr> = l" by simp
  then show ?case by (simp add: life_refl)
next
  case (Cons d ds)
  let ?l = "l\<lparr>lc_deliverers := ds\<rparr>"
  have d: "d \<in> set (lc_deliverers l)" "remove1 d (lc_deliverers l) = ds" by (simp_all flip: Cons.hyps(2))
  have "life_step R (l, q, w) (?l, q, w)" using life_step.deliverer_ends [OF d(1) Cons.prems, of R q w] d(2) by simp
  moreover have "life_run R (?l, q, w) (l\<lparr>lc_deliverers := []\<rparr>, q, w)" using Cons.hyps(1) [of ?l] Cons.prems by simp
  ultimately show ?case by (blast intro: life_append life_one)
qed

lemma close_gets_there:
  assumes "life_ok l" and "0 < lc_closing l"
  shows "\<exists>l'. life_run R (l, q, w) (l', q, w) \<and> \<not> lc_open l' \<and> lc_closing l' = lc_closing l - 1"
proof -
  have ended: "lc_ctxDone l" using assms by (simp add: life_ok_def)
  let ?a = "l\<lparr>lc_deliverers := []\<rparr>"
  let ?b = "?a\<lparr>lc_checker := False\<rparr>"
  let ?c = "?b\<lparr>lc_closing := lc_closing l - 1, lc_open := False\<rparr>"
  have b: "life_run R (?a, q, w) (?b, q, w)"
  proof (cases "lc_checker l")
    case True
    then show ?thesis using life_step.checker_ends [of ?a R q w] ended by (intro life_one) simp
  next
    case False
    then have "?b = ?a" by (cases l) simp
    then show ?thesis by (simp only: life_refl)
  qed
  have "life_step R (?b, q, w) (?c, q, w)" using life_step.close_returns [of ?b ?c R q w] assms(2) by (simp add: close_ends_def)
  then have "life_run R (l, q, w) (?c, q, w)"
    by (rule life_append [OF deliverers_leave [OF ended] life_append [OF b life_one]])
  then show ?thesis by (intro exI [of _ ?c]) simp
qed

section \<open>Close\<close>

text \<open>
  From the start of the queue, whatever consumers come and go: when a \<open>Close\<close> has returned, nothing that happens
  afterwards reaches Redis, and a \<open>Close\<close> that waits can return.
\<close>

lemma close_is_final:
  assumes "life_run R (queue_begins, q, w) (l, q1, w1)"
  shows "(\<not> lc_open l \<longrightarrow> (\<forall>l' q2 w2. life_run R (l, q1, w1) (l', q2, w2) \<longrightarrow> \<not> lc_open l' \<and> w2 = w1))
    \<and> (0 < lc_closing l \<longrightarrow> (\<exists>l'. life_run R (l, q1, w1) (l', q1, w1) \<and> \<not> lc_open l'))"
proof -
  have ok: "life_ok l" using life_run_ok [OF assms] by (simp add: life_ok_def queue_begins_def)
  show ?thesis using closed_run [of R "(l, q1, w1)"] close_gets_there [OF ok, of R q1 w1] ok by fastforce
qed

end
