(* ===== verification/TimeUtils.thy ===== *)
theory TimeUtils
  imports GoTime
begin

text \<open>
  The helpers of \<open>pkg/utils/time.go\<close>. A location is a fixed offset from UTC here, so a day has
  86400 seconds; days on which a location changes its offset are not modelled.
\<close>

definition time_FormatTimestamp :: "go_time \<Rightarrow> string" where
  "time_FormatTimestamp t = format_rfc3339 False t"

definition time_ParseTimestamp :: "string \<Rightarrow> go_time option" where
  "time_ParseTimestamp s = parse_rfc3339 s"

text \<open>\<open>t.Date()\<close> and \<open>time.Date\<close> at the start of a day plus a number of nanoseconds.\<close>

definition local_day :: "go_time \<Rightarrow> int" where
  "local_day t = (Unix t + t_off t) div 86400 + 719162"

definition day_instant :: "int \<Rightarrow> int \<times> int \<times> int \<Rightarrow> int \<Rightarrow> go_time" where
  "day_instant off ymd ns =
     (let (y, m, d) = ymd
      in \<lparr>t_ns = ((days_of_civil y m d - 719162) * 86400 - off) * second + ns, t_off = off\<rparr>)"

definition StartOfDay :: "go_time \<Rightarrow> go_time" where
  "StartOfDay t = day_instant (t_off t) (civil_of_days (local_day t)) 0"

definition EndOfDay :: "go_time \<Rightarrow> go_time" where
  "EndOfDay t = day_instant (t_off t) (civil_of_days (local_day t))
     (((23 * 60 + 59) * 60 + 59) * second + 999999999)"

definition DurationSince :: "go_time \<Rightarrow> go_time \<Rightarrow> duration" where
  "DurationSince now t = t_ns now - t_ns t"

definition DurationUntil :: "go_time \<Rightarrow> go_time \<Rightarrow> duration" where
  "DurationUntil now t = t_ns t - t_ns now"

definition AddDuration :: "go_time \<Rightarrow> duration \<Rightarrow> go_time" where
  "AddDuration t d = time_Add t d"

definition SubtractDuration :: "go_time \<Rightarrow> duration \<Rightarrow> go_time" where
  "SubtractDuration t d = time_Add t (- d)"

lemma day_instant_civil:
  "day_instant off (civil_of_days n) ns = \<lparr>t_ns = ((n - 719162) * 86400 - off) * second + ns, t_off = off\<rparr>"
proof -
  obtain y m d where c: "civil_of_days n = (y, m, d)" by (cases "civil_of_days n")
  show ?thesis using civil_of_days_correct [OF c] by (simp add: day_instant_def c)
qed

lemma div_bounds: "k * (x div k) \<le> x \<and> x < k * (x div k) + k" if "0 < k" for x k :: int
proof -
  have "x = k * (x div k) + x mod k" by simp
  moreover have "0 \<le> x mod k" "x mod k < k" using that by simp_all
  ultimately show ?thesis by linarith
qed

text \<open>\<open>StartOfDay\<close> and \<open>EndOfDay\<close> enclose their argument, are a nanosecond short of a day apart, keep the
  location, and give the same day again when applied to their results.\<close>

theorem day_encloses:
  "t_ns (StartOfDay t) \<le> t_ns t \<and> t_ns t \<le> t_ns (EndOfDay t)
   \<and> DurationSince (EndOfDay t) (StartOfDay t) = 86400 * second - 1
   \<and> StartOfDay (StartOfDay t) = StartOfDay t \<and> StartOfDay (EndOfDay t) = StartOfDay t"
proof -
  define u where "u = t_ns t div second"
  define v where "v = (u + t_off t) div 86400"
  have u: "second * u \<le> t_ns t \<and> t_ns t < second * u + second"
    unfolding u_def by (rule div_bounds) (simp add: second_def)
  have v: "86400 * v \<le> u + t_off t \<and> u + t_off t < 86400 * v + 86400"
    unfolding v_def by (rule div_bounds) simp
  have S: "StartOfDay t = \<lparr>t_ns = (v * 86400 - t_off t) * second, t_off = t_off t\<rparr>"
    by (simp add: StartOfDay_def day_instant_civil local_day_def Unix_def u_def v_def)
  have E: "EndOfDay t = \<lparr>t_ns = (v * 86400 - t_off t) * second + (86399 * second + 999999999), t_off = t_off t\<rparr>"
    by (simp add: EndOfDay_def day_instant_civil local_day_def Unix_def u_def v_def)
  have same: "StartOfDay \<lparr>t_ns = (v * 86400 - t_off t) * second + ns, t_off = t_off t\<rparr> = StartOfDay t"
    if ns: "0 \<le> ns" "ns < 86400 * second" for ns
  proof -
    have "((v * 86400 - t_off t) * second + ns) div second = v * 86400 - t_off t + ns div second"
      by (simp add: second_def)
    moreover have "(v * 86400 + ns div second) div 86400 = v + ns div second div 86400" by simp
    moreover have "ns div second div 86400 = ns div (second * 86400)"
      by (simp add: zdiv_zmult2_eq second_def)
    moreover have "ns div (second * 86400) = 0"
      using ns by (intro div_pos_pos_trivial) (simp_all add: second_def)
    ultimately show ?thesis
      by (simp add: StartOfDay_def day_instant_civil local_day_def Unix_def v_def u_def algebra_simps)
  qed
  show ?thesis
    using u v same [of 0] same [of "86399 * second + 999999999"]
    by (simp add: S E DurationSince_def second_def)
qed

end
