(* ===== verification/Http.thy ===== *)
theory Http
  imports Message
begin

text \<open>
  What the program uses of \<open>net/http\<close> and \<open>net/url\<close>: requests, responses, the query part of a
  URL and its decoding. A body that is a JSON document is its tree; another body is its text.
\<close>

section \<open>Requests and responses\<close>

record http_request =
  hq_Method :: string
  hq_Path :: string
  hq_RawQuery :: string
  hq_Body :: "error + gotext"  \<comment> \<open>what reading the body to its end gives\<close>

record http_response =
  hr_StatusCode :: int
  hr_Body :: gotext

definition StatusOK :: int where "StatusOK = 200"
definition StatusBadRequest :: int where "StatusBadRequest = 400"
definition StatusNotFound :: int where "StatusNotFound = 404"
definition StatusMethodNotAllowed :: int where "StatusMethodNotAllowed = 405"
definition StatusInternalServerError :: int where "StatusInternalServerError = 500"

lemmas status_defs = StatusOK_def StatusBadRequest_def StatusNotFound_def
  StatusMethodNotAllowed_def StatusInternalServerError_def

text \<open>\<open>http.Error\<close>: a plain text and a newline.\<close>

definition http_Error :: "string \<Rightarrow> int \<Rightarrow> http_response" where
  "http_Error s code = \<lparr>hr_StatusCode = code, hr_Body = Plain (s @ [CHR 0x0A])\<rparr>"

definition http_json :: "json \<Rightarrow> http_response" where
  "http_json j = \<lparr>hr_StatusCode = StatusOK, hr_Body = Json j\<rparr>"

lemma http_Error_sel [simp]: "hr_StatusCode (http_Error s c) = c" "hr_Body (http_Error s c) = Plain (s @ [CHR 0x0A])"
  by (simp_all add: http_Error_def)

lemma http_json_sel [simp]: "hr_StatusCode (http_json j) = 200" "hr_Body (http_json j) = Json j"
  by (simp_all add: http_json_def StatusOK_def)

section \<open>Query strings\<close>

text \<open>Cutting a text at the first occurrence of a character (\<open>strings.Cut\<close>).\<close>

definition cut :: "char \<Rightarrow> string \<Rightarrow> string \<times> string" where
  "cut c s = (takeWhile (\<lambda>x. x \<noteq> c) s, drop 1 (dropWhile (\<lambda>x. x \<noteq> c) s))"

function split_at :: "char \<Rightarrow> string \<Rightarrow> string list" where
  "split_at c s = (let (a, b) = cut c s in if c \<in> set s then a # split_at c b else [a])"
  by pat_completeness auto
termination
proof (relation "measure (\<lambda>(c, s). length s)", simp)
  fix c s x and a b :: string
  assume "x = cut c s" "(a, b) = x" "c \<in> set s"
  then have "b = drop 1 (dropWhile (\<lambda>x. x \<noteq> c) s)" "dropWhile (\<lambda>x. x \<noteq> c) s \<noteq> []"
    by (auto simp: cut_def dropWhile_eq_Nil_conv)
  moreover have "length (dropWhile (\<lambda>x. x \<noteq> c) s) \<le> length s" by (rule length_dropWhile_le)
  ultimately show "((c, b), (c, s)) \<in> measure (\<lambda>(c, s). length s)"
    by (cases "dropWhile (\<lambda>x. x \<noteq> c) s") auto
qed

declare split_at.simps [simp del]

definition hex_val :: "char \<Rightarrow> nat option" where
  "hex_val c = (let n = of_char c :: nat in
     if 48 \<le> n \<and> n \<le> 57 then Some (n - 48)
     else if 97 \<le> n \<and> n \<le> 102 then Some (n - 87)
     else if 65 \<le> n \<and> n \<le> 70 then Some (n - 55) else None)"

text \<open>\<open>url.QueryUnescape\<close>; \<open>None\<close> is an escape error.\<close>

fun QueryUnescape :: "string \<Rightarrow> string option" where
  "QueryUnescape [] = Some []"
| "QueryUnescape (c # cs) =
     (if c = CHR ''%'' then
        (case cs of a # b # r \<Rightarrow>
            (case (hex_val a, hex_val b) of
               (Some x, Some y) \<Rightarrow> map_option ((#) (char_of (16 * x + y))) (QueryUnescape r)
             | _ \<Rightarrow> None)
         | _ \<Rightarrow> None)
      else if c = CHR ''+'' then map_option ((#) (CHR '' '')) (QueryUnescape cs)
      else map_option ((#) c) (QueryUnescape cs))"

text \<open>
  \<open>URL.Query()\<close>: the pairs in order; a piece with a semicolon or a bad escape is skipped.
\<close>

definition query_pair :: "string \<Rightarrow> (string \<times> string) option" where
  "query_pair s =
     (if CHR '';'' \<in> set s \<or> s = [] then None
      else let (k, v) = cut (CHR ''='') s
           in (case (QueryUnescape k, QueryUnescape v) of (Some k', Some v') \<Rightarrow> Some (k', v') | _ \<Rightarrow> None))"

definition ParseQuery :: "string \<Rightarrow> (string \<times> string) list" where
  "ParseQuery s = List.map_filter query_pair (split_at (CHR ''&'') s)"

text \<open>\<open>Query().Get(key)\<close>: the first value, or the empty text.\<close>

definition Query_Get :: "http_request \<Rightarrow> string \<Rightarrow> string" where
  "Query_Get r key = (case map_of (ParseQuery (hq_RawQuery r)) key of None \<Rightarrow> [] | Some v \<Rightarrow> v)"

section \<open>Names that need no escaping\<close>

text \<open>The unreserved characters of RFC 3986.\<close>

definition plain_char :: "char \<Rightarrow> bool" where
  "plain_char c = (let n = of_char c :: nat in
     48 \<le> n \<and> n \<le> 57 \<or> 65 \<le> n \<and> n \<le> 90 \<or> 97 \<le> n \<and> n \<le> 122 \<or> n \<in> {45, 46, 95, 126})"

definition plain_name :: "string \<Rightarrow> bool" where
  "plain_name s = list_all plain_char s"

lemma plain_char_not: "plain_char c \<Longrightarrow> c \<notin> {CHR ''%'', CHR ''+'', CHR ''&'', CHR ''='', CHR '';'', CHR ''#'', CHR ''?''}"
  by (auto simp: plain_char_def Let_def)

lemma plain_name_notin: "plain_name s \<Longrightarrow> c \<in> {CHR ''&'', CHR ''='', CHR '';'', CHR ''#'', CHR ''?''} \<Longrightarrow> c \<notin> set s"
  using plain_char_not by (auto simp: plain_name_def list_all_iff)

lemma QueryUnescape_plain: "plain_name s \<Longrightarrow> QueryUnescape s = Some s"
  using plain_char_not by (induction s) (auto simp: plain_name_def)

lemma cut_append: "c \<notin> set a \<Longrightarrow> cut c (a @ c # b) = (a, b)"
proof -
  assume "c \<notin> set a"
  then have "\<forall>x \<in> set a. x \<noteq> c" by auto
  then show ?thesis by (simp add: cut_def takeWhile_append dropWhile_append)
qed

lemma cut_absent: "c \<notin> set s \<Longrightarrow> cut c s = (s, [])"
proof -
  assume "c \<notin> set s"
  then have t: "takeWhile (\<lambda>x. x \<noteq> c) s = s" and d: "dropWhile (\<lambda>x. x \<noteq> c) s = []"
    by (auto simp: takeWhile_eq_all_conv dropWhile_eq_Nil_conv)
  show ?thesis unfolding cut_def t d by simp
qed

lemma split_at_last: "c \<notin> set a \<Longrightarrow> split_at c a = [a]"
proof -
  assume c: "c \<notin> set a"
  then have "takeWhile (\<lambda>x. x \<noteq> c) a = a" by (auto simp: takeWhile_eq_all_conv)
  with c show ?thesis by (subst split_at.simps) (simp add: cut_def)
qed

lemma split_at_cons: "c \<notin> set a \<Longrightarrow> split_at c (a @ c # b) = a # split_at c b"
  by (subst split_at.simps) (simp add: cut_append)

lemma query_pair_plain:
  assumes "plain_name k" and "k \<noteq> []" and "plain_name v"
  shows "query_pair (k @ CHR ''='' # v) = Some (k, v)"
  using assms plain_name_notin [OF assms(1), of "CHR ''=''"] plain_name_notin [OF assms(1), of "CHR '';''"]
    plain_name_notin [OF assms(3), of "CHR '';''"]
  by (simp add: query_pair_def cut_append QueryUnescape_plain)

text \<open>The query the queue client writes: pieces \<open>key=value\<close> joined by ampersands.\<close>

fun join_query :: "(string \<times> string) list \<Rightarrow> string" where
  "join_query [] = []"
| "join_query [(k, v)] = k @ CHR ''='' # v"
| "join_query ((k, v) # kvs) = k @ CHR ''='' # v @ CHR ''&'' # join_query kvs"

lemma ParseQuery_join [wire]:
  assumes "\<forall>(k, v) \<in> set kvs. plain_name k \<and> k \<noteq> [] \<and> plain_name v" and "kvs \<noteq> []"
  shows "ParseQuery (join_query kvs) = kvs"
  using assms
proof (induction kvs rule: join_query.induct)
  case 1
  then show ?case by simp
next
  case (2 k v)
  then have "CHR ''&'' \<notin> set (k @ CHR ''='' # v)"
    using plain_name_notin [of k "CHR ''&''"] plain_name_notin [of v "CHR ''&''"] by auto
  then show ?case
    using 2 by (simp add: ParseQuery_def split_at_last query_pair_plain List.map_filter_def)
next
  case (3 k v kv kvs)
  then have "CHR ''&'' \<notin> set (k @ CHR ''='' # v)"
    using plain_name_notin [of k "CHR ''&''"] plain_name_notin [of v "CHR ''&''"] by auto
  from split_at_cons [OF this, of "join_query (kv # kvs)"] 3 show ?case
    by (simp add: ParseQuery_def query_pair_plain List.map_filter_def)
qed

section \<open>URLs\<close>

text \<open>
  The request a URL of a server turns into at that server: what follows the base is cut at a
  fragment and at the query.
\<close>

definition request_of_url :: "string \<Rightarrow> string \<Rightarrow> string \<Rightarrow> gotext \<Rightarrow> http_request option" where
  "request_of_url base meth url body =
     (if HasPrefix url base
      then let rest = fst (cut (CHR ''#'') (drop (length base) url))
           in Some \<lparr>hq_Method = meth, hq_Path = fst (cut (CHR ''?'') rest),
                    hq_RawQuery = snd (cut (CHR ''?'') rest), hq_Body = Inr body\<rparr>
      else None)"

lemma request_of_url_path:
  assumes "CHR ''#'' \<notin> set p" and "CHR ''?'' \<notin> set p"
  shows "request_of_url base meth (base @ p) body
    = Some \<lparr>hq_Method = meth, hq_Path = p, hq_RawQuery = [], hq_Body = Inr body\<rparr>"
  using cut_absent [OF assms(1)] cut_absent [OF assms(2)]
  by (simp add: request_of_url_def HasPrefix_def Let_def)

lemma request_of_url_query:
  assumes "CHR ''#'' \<notin> set p" and "CHR ''?'' \<notin> set p" and "CHR ''#'' \<notin> set q"
  shows "request_of_url base meth (base @ p @ CHR ''?'' # q) body
    = Some \<lparr>hq_Method = meth, hq_Path = p, hq_RawQuery = q, hq_Body = Inr body\<rparr>"
proof -
  have "cut (CHR ''#'') (p @ CHR ''?'' # q) = (p @ CHR ''?'' # q, [])"
    using assms by (intro cut_absent) auto
  then show ?thesis
    using cut_append [OF assms(2), of q] by (simp add: request_of_url_def HasPrefix_def Let_def)
qed

lemma join_query_no_fragment:
  "\<forall>(k, v) \<in> set kvs. plain_name k \<and> plain_name v \<Longrightarrow> CHR ''#'' \<notin> set (join_query kvs)"
  by (induction kvs rule: join_query.induct) (auto dest: plain_name_notin [where c = "CHR ''#''"])

end
