(* ===== verification/QueueServer.thy ===== *)
theory QueueServer
  imports Http Consumers QueueProperties
begin

text \<open>
  The HTTP interface of the queue service, \<open>internal/queueservice/http_server.go\<close>: the routes,
  the handlers with their checks in the order of the code, and the event stream of a
  subscription. A handler that panics is recovered by \<open>net/http\<close>, which drops the connection
  without a response.
\<close>

section \<open>Handlers\<close>

definition MethodGet :: string where "MethodGet = ''GET''"
definition MethodPost :: string where "MethodPost = ''POST''"

definition method_not_allowed :: http_response where
  "method_not_allowed = http_Error ''Method not allowed'' StatusMethodNotAllowed"

definition success_json :: "string \<Rightarrow> json" where
  "success_json messageID = JObj [(''message_id'', JStr messageID), (''status'', JStr ''success'')]"

definition handlePublish :: "'w redis \<Rightarrow> http_request \<Rightarrow> 'w \<Rightarrow> http_response \<times> 'w" where
  "handlePublish R r w =
     (if hq_Method r \<noteq> MethodPost then (method_not_allowed, w)
      else case hq_Body r of
          Inl e \<Rightarrow> (http_Error ''Failed to read request body'' StatusBadRequest, w)
        | Inr body \<Rightarrow>
            (case Unmarshal_message body of
               Inl e \<Rightarrow> (http_Error ''Invalid JSON'' StatusBadRequest, w)
             | Inr msg \<Rightarrow>
                 (case Publish R msg w of
                    (Some e, w1) \<Rightarrow> (http_Error ''Failed to publish message'' StatusInternalServerError, w1)
                  | (None, w1) \<Rightarrow> (http_json (success_json (msg_ID msg)), w1))))"

definition missing_parameters :: http_response where
  "missing_parameters =
     http_Error ''Missing required parameters: topic, consumer_group, consumer_id'' StatusBadRequest"

text \<open>The messages of a batch as a JSON array; a message that does not encode stops the encoder.\<close>

fun messages_json :: "Message list \<Rightarrow> error + json list" where
  "messages_json [] = Inr []"
| "messages_json (m # ms) =
     (case message_json m of Inl e \<Rightarrow> Inl e
      | Inr j \<Rightarrow> (case messages_json ms of Inl e \<Rightarrow> Inl e | Inr js \<Rightarrow> Inr (j # js)))"

definition batch_response :: "Message list \<Rightarrow> http_response" where
  "batch_response messages =
     (case messages_json messages of
        Inl e \<Rightarrow> \<lparr>hr_StatusCode = StatusOK, hr_Body = Plain []\<rparr>
      | Inr js \<Rightarrow> http_json (JObj [(''count'', JInt (int (length messages))), (''messages'', JArr js)]))"

text \<open>The prefetch count: 500 by default, forced into the range from 1 to 2500.\<close>

definition clamp_prefetch :: "int \<Rightarrow> int" where
  "clamp_prefetch n = (let n1 = if n < 1 then 1 else n in if n1 > 2500 then 2500 else n1)"

definition handleFetch :: "'w redis \<Rightarrow> http_request \<Rightarrow> RedisQueue \<Rightarrow> 'w \<Rightarrow> http_response outcome \<times> 'w" where
  "handleFetch R r q w =
     (if hq_Method r \<noteq> MethodGet then (Returns method_not_allowed, w)
      else let topic = Query_Get r ''topic''; consumerGroup = Query_Get r ''consumer_group'';
               consumerID = Query_Get r ''consumer_id''; prefetchStr = Query_Get r ''prefetch''
      in if topic = [] \<or> consumerGroup = [] \<or> consumerID = [] then (Returns missing_parameters, w)
      else case (if prefetchStr = [] then Some 500 else Sscanf_d prefetchStr) of
          None \<Rightarrow> (Returns (http_Error ''Invalid prefetch parameter'' StatusBadRequest), w)
        | Some prefetch \<Rightarrow>
            (case FetchBatch R q topic consumerGroup consumerID (clamp_prefetch prefetch) w of
               (Panics p, w1) \<Rightarrow> (Panics p, w1)
             | (Returns (Inl e), w1) \<Rightarrow>
                 (Returns (http_Error (''Failed to fetch messages: '' @ error_text e) StatusInternalServerError), w1)
             | (Returns (Inr messages), w1) \<Rightarrow> (Returns (batch_response messages), w1)))"

record ack_request =
  ar_Topic :: string
  ar_ConsumerGroup :: string
  ar_MessageID :: string

definition ack_fields :: "(string \<times> ack_request setter) list" where
  "ack_fields =
     [(''topic'', set_string (\<lambda>s a. a\<lparr>ar_Topic := s\<rparr>)),
      (''consumer_group'', set_string (\<lambda>s a. a\<lparr>ar_ConsumerGroup := s\<rparr>)),
      (''message_id'', set_string (\<lambda>s a. a\<lparr>ar_MessageID := s\<rparr>))]"

definition Unmarshal_ack :: "gotext \<Rightarrow> error + ack_request" where
  "Unmarshal_ack = Unmarshal_struct ack_fields \<lparr>ar_Topic = [], ar_ConsumerGroup = [], ar_MessageID = []\<rparr>"

definition missing_fields :: http_response where
  "missing_fields = http_Error ''Missing required fields: topic, consumer_group, message_id'' StatusBadRequest"

definition handleAck :: "'w redis \<Rightarrow> http_request \<Rightarrow> 'w \<Rightarrow> http_response outcome \<times> 'w" where
  "handleAck R r w =
     (if hq_Method r \<noteq> MethodPost then (Returns method_not_allowed, w)
      else case hq_Body r of
          Inl e \<Rightarrow> (Returns (http_Error ''Failed to read request body'' StatusBadRequest), w)
        | Inr body \<Rightarrow>
            (case Unmarshal_ack body of
               Inl e \<Rightarrow> (Returns (http_Error ''Invalid JSON'' StatusBadRequest), w)
             | Inr req \<Rightarrow>
                 if ar_Topic req = [] \<or> ar_ConsumerGroup req = [] \<or> ar_MessageID req = []
                 then (Returns missing_fields, w)
                 else (case Ack R (ar_Topic req) (ar_ConsumerGroup req) (ar_MessageID req) w of
                     (Panics p, w1) \<Rightarrow> (Panics p, w1)
                   | (Returns (Some e), w1) \<Rightarrow>
                       (Returns (http_Error (''Failed to ack message: '' @ error_text e) StatusInternalServerError), w1)
                   | (Returns None, w1) \<Rightarrow> (Returns (http_json (success_json (ar_MessageID req))), w1))))"

definition handleNack :: "'w redis \<Rightarrow> http_request \<Rightarrow> 'w \<Rightarrow> http_response outcome \<times> 'w" where
  "handleNack R r w =
     (if hq_Method r \<noteq> MethodPost then (Returns method_not_allowed, w)
      else case hq_Body r of
          Inl e \<Rightarrow> (Returns (http_Error ''Failed to read request body'' StatusBadRequest), w)
        | Inr body \<Rightarrow>
            (case Unmarshal_ack body of
               Inl e \<Rightarrow> (Returns (http_Error ''Invalid JSON'' StatusBadRequest), w)
             | Inr req \<Rightarrow>
                 if ar_Topic req = [] \<or> ar_ConsumerGroup req = [] \<or> ar_MessageID req = []
                 then (Returns missing_fields, w)
                 else (case Nack R (ar_Topic req) (ar_ConsumerGroup req) (ar_MessageID req) w of
                     (Panics p, w1) \<Rightarrow> (Panics p, w1)
                   | (Returns (Some e), w1) \<Rightarrow>
                       (Returns (http_Error (''Failed to nack message: '' @ error_text e) StatusInternalServerError), w1)
                   | (Returns None, w1) \<Rightarrow> (Returns (http_json (success_json (ar_MessageID req))), w1))))"

definition group_stats_json :: "group_stats \<Rightarrow> json" where
  "group_stats_json g = JObj [(''consumer_count'', JInt (gs_consumer_count g)),
     (''name'', JStr (gs_name g)), (''pending_messages'', JInt (gs_pending_messages g))]"

definition topic_stats_json :: "topic_stats \<Rightarrow> json" where
  "topic_stats_json t = JObj [(''consumer_groups'', JArr (map group_stats_json (ts_consumer_groups t))),
     (''name'', JStr (ts_name t)), (''queue_depth'', JInt (ts_queue_depth t))]"

definition handleStats :: "'w redis \<Rightarrow> http_request \<Rightarrow> RedisQueue \<Rightarrow> 'w \<Rightarrow> http_response \<times> 'w" where
  "handleStats R r q w =
     (if hq_Method r \<noteq> MethodGet then (method_not_allowed, w)
      else let ((topics, dlqCount), w1) = GetStats R q w
           in (http_json (JObj [(''dead_letter_count'', JInt dlqCount),
                 (''topics'', JArr (map topic_stats_json topics))]), w1))"

definition handleHealth :: "go_time \<Rightarrow> http_request \<Rightarrow> http_response" where
  "handleHealth now r =
     (if hq_Method r \<noteq> MethodGet then method_not_allowed
      else http_json (JObj [(''service'', JStr ''queue-service''), (''status'', JStr ''healthy''),
             (''timestamp'', JStr (format_rfc3339 False now))]))"

section \<open>The event stream\<close>

text \<open>
  A line of the stream is a text or a data line with a document. Opening a subscription checks
  the request and registers the consumer; closing it unregisters the consumer.
\<close>

datatype sse_line = Line string | DataLine json

definition subscribe_open :: "http_request \<Rightarrow> RedisQueue \<Rightarrow> (http_response + sse_line list) \<times> RedisQueue" where
  "subscribe_open r q =
     (if hq_Method r \<noteq> MethodGet then (Inl method_not_allowed, q)
      else let topic = Query_Get r ''topic''; consumerGroup = Query_Get r ''consumer_group'';
               consumerID = Query_Get r ''consumer_id''
      in if topic = [] \<or> consumerGroup = [] \<or> consumerID = [] then (Inl missing_parameters, q)
      else (Inr [Line ''event: connected'',
                 Line (''data: {\"status\":\"connected\",\"consumer_id\":\"'' @ consumerID @ ''\"}''),
                 Line []],
            RegisterConsumer topic consumerGroup consumerID q))"

definition subscribe_close :: "http_request \<Rightarrow> RedisQueue \<Rightarrow> RedisQueue" where
  "subscribe_close r q = UnregisterConsumer (Query_Get r ''topic'') (Query_Get r ''consumer_group'')
     (Query_Get r ''consumer_id'') q"

text \<open>What wakes the loop up, and what it writes; \<open>None\<close> ends the stream.\<close>

datatype sse_event = ClientGone | Received Message | ChannelClosed | Tick

definition sse_step :: "sse_event \<Rightarrow> sse_line list option" where
  "sse_step ev = (case ev of
       ClientGone \<Rightarrow> None
     | ChannelClosed \<Rightarrow> None
     | Received msg \<Rightarrow> (case message_json msg of Inl e \<Rightarrow> Some []
         | Inr j \<Rightarrow> Some [Line ''event: message'', DataLine j, Line []])
     | Tick \<Rightarrow> Some [Line '': ping'', Line []])"

fun sse_stream :: "sse_event list \<Rightarrow> sse_line list" where
  "sse_stream [] = []"
| "sse_stream (ev # evs) = (case sse_step ev of None \<Rightarrow> [] | Some ls \<Rightarrow> ls @ sse_stream evs)"

section \<open>Routing and logging\<close>

text \<open>
  The mux for paths in canonical form; a subscription keeps its connection and is modelled by
  the definitions above.
\<close>

definition serve_http :: "'w redis \<Rightarrow> http_request \<Rightarrow> RedisQueue \<Rightarrow> 'w \<Rightarrow> http_response outcome \<times> 'w" where
  "serve_http R r q w =
     (if hq_Path r = ''/api/v1/queue/publish'' then map_prod Returns id (handlePublish R r w)
      else if hq_Path r = ''/api/v1/queue/fetch'' then handleFetch R r q w
      else if hq_Path r = ''/api/v1/queue/ack'' then handleAck R r w
      else if hq_Path r = ''/api/v1/queue/nack'' then handleNack R r w
      else if hq_Path r = ''/api/v1/queue/stats'' then map_prod Returns id (handleStats R r q w)
      else if hq_Path r = ''/health'' then (Returns (handleHealth (Now R w) r), w)
      else (Returns (http_Error ''404 page not found'' StatusNotFound), w))"

text \<open>The log line of a request that did not panic: method, path and status.\<close>

definition loggingMiddleware :: "(http_request \<Rightarrow> 's \<Rightarrow> http_response outcome \<times> 's) \<Rightarrow> http_request \<Rightarrow> 's
    \<Rightarrow> (string \<times> string \<times> int) option \<times> http_response outcome \<times> 's" where
  "loggingMiddleware handler r s =
     (case handler r s of
        (Returns resp, s1) \<Rightarrow> (Some (hq_Method r, hq_Path r, hr_StatusCode resp), Returns resp, s1)
      | (Panics p, s1) \<Rightarrow> (None, Panics p, s1))"

section \<open>Lemmas\<close>

lemmas handler_defs = handlePublish_def handleFetch_def handleAck_def handleNack_def
  handleStats_def handleHealth_def method_not_allowed_def missing_parameters_def missing_fields_def

lemma clamp_prefetch_bounds: "1 \<le> clamp_prefetch n \<and> clamp_prefetch n \<le> 2500"
  by (simp add: clamp_prefetch_def Let_def)

lemma clamp_prefetch_id: "1 \<le> n \<Longrightarrow> n \<le> 2500 \<Longrightarrow> clamp_prefetch n = n"
  by (simp add: clamp_prefetch_def Let_def)

lemma Unmarshal_ack_json [wire]:
  "Unmarshal_ack (Json (JObj [(''consumer_group'', JStr g), (''message_id'', JStr i), (''topic'', JStr t)]))
    = Inr \<lparr>ar_Topic = t, ar_ConsumerGroup = g, ar_MessageID = i\<rparr>"
  by (simp add: Unmarshal_ack_def Unmarshal_struct_def decode_struct_def ack_fields_def find_field_def
      set_string_def)

lemma reply_or_zero_data:
  assumes "redis_server R data"
  shows "data (snd (reply_or_zero (LLen R k w))) = data w" "data (snd (reply_or_zero (ZCard R k w))) = data w"
  using redis_server.LLen_ok [OF assms] redis_server.LLen_err [OF assms]
    redis_server.ZCard_ok [OF assms] redis_server.ZCard_err [OF assms]
  by (auto simp: reply_or_zero_def split: prod.splits sum.splits)

lemma groups_stats_data:
  assumes "redis_server R data"
  shows "data (snd (groups_stats R topic gs w)) = data w"
proof (induction gs arbitrary: w)
  case (Cons p gs)
  obtain g grp where p: "p = (g, grp)" by (cases p)
  obtain n w1 where z: "reply_or_zero (ZCard R (pelKey topic g) w) = (n, w1)" by fastforce
  have "data w1 = data w" using reply_or_zero_data(2) [OF assms, of "pelKey topic g" w] z by simp
  moreover obtain rest w2 where "groups_stats R topic gs w1 = (rest, w2)" by fastforce
  ultimately show ?case using Cons.IH [of w1] by (simp add: p z)
qed simp

lemma topics_stats_data:
  assumes "redis_server R data"
  shows "data (snd (topics_stats R ts w)) = data w"
proof (induction ts arbitrary: w)
  case (Cons p ts)
  obtain t gs where p: "p = (t, gs)" by (cases p)
  obtain n w1 where z: "reply_or_zero (LLen R (queueKey t) w) = (n, w1)" by fastforce
  have "data w1 = data w" using reply_or_zero_data(1) [OF assms, of "queueKey t" w] z by simp
  moreover obtain g w2 where g: "groups_stats R t gs w1 = (g, w2)" by fastforce
  moreover have "data w2 = data w1" using groups_stats_data [OF assms, of t gs w1] g by simp
  moreover obtain rest w3 where "topics_stats R ts w2 = (rest, w3)" by fastforce
  ultimately show ?case using Cons.IH [of w2] by (simp add: p z)
qed simp

lemma GetStats_data:
  assumes "redis_server R data"
  shows "data (snd (GetStats R q w)) = data w"
  using topics_stats_data [OF assms, of "rq_consumerGroups q" w]
  by (cases "topics_stats R (rq_consumerGroups q) w") (simp add: GetStats_def)

text \<open>A request is at most one step of the queue.\<close>

lemma serve_http_serves:
  assumes R: "redis_server R data" and s: "serves R data q w P A" and h: "serve_http R r q w = (resp, w')"
  shows "\<exists>P' A'. serves R data q w' P' A' \<and> P \<subseteq> P' \<and> A \<subseteq> A'"
proof -
  have "data w' = data w \<or> (\<exists>m e. Publish R m w = (e, w') \<and> message_ok m)
    \<or> (\<exists>t g c n x. FetchBatch R q t g c n w = (x, w'))
    \<or> (\<exists>t g i x. Ack R t g i w = (x, w')) \<or> (\<exists>t g i x. Nack R t g i w = (x, w'))"
    using h GetStats_data [OF R, of q w]
    by (auto simp: serve_http_def handler_defs Let_def map_prod_def dest: Unmarshal_message_ok
        split: if_splits prod.splits sum.splits option.splits outcome.splits)
  then consider "data w' = data w" | m e where "Publish R m w = (e, w')" "message_ok m"
    | t g c n x where "FetchBatch R q t g c n w = (x, w')"
    | t g i x where "Ack R t g i w = (x, w')" | t g i x where "Nack R t g i w = (x, w')" by blast
  then show ?thesis
  proof cases
    case 1
    then show ?thesis using serves.idle [OF s] by blast
  next
    case (2 m e)
    then show ?thesis
      using serves.published [OF s 2(2)] serves.refused [OF s 2(2)] by (cases e) blast+
  next
    case 3
    then show ?thesis using serves.fetched [OF s] by blast
  next
    case (4 t g i x)
    then show ?thesis using serves.acked [OF s] serves.not_acked [OF s] by (cases "x = Returns None") blast+
  next
    case 5
    then show ?thesis using serves.nacked [OF s] by blast
  qed
qed

text \<open>Requests one after the other; the queue object itself is not changed by them.\<close>

fun serve_all :: "'w redis \<Rightarrow> http_request list \<Rightarrow> RedisQueue \<Rightarrow> 'w \<Rightarrow> http_response outcome list \<times> 'w" where
  "serve_all R [] q w = ([], w)"
| "serve_all R (r # rs) q w =
     (let (resp, w1) = serve_http R r q w; (resps, w2) = serve_all R rs q w1 in (resp # resps, w2))"

lemma serve_all_serves:
  assumes "redis_server R data" and "serves R data q w P A" and "serve_all R rs q w = (resps, w')"
  shows "\<exists>P' A'. serves R data q w' P' A' \<and> P \<subseteq> P' \<and> A \<subseteq> A'"
  using assms(2,3)
proof (induction rs arbitrary: w P A resps)
  case Nil
  then show ?case by auto
next
  case (Cons r rs)
  obtain resp w1 where h: "serve_http R r q w = (resp, w1)" by fastforce
  obtain resps' w2 where t: "serve_all R rs q w1 = (resps', w2)" by fastforce
  obtain P1 A1 where s1: "serves R data q w1 P1 A1" "P \<subseteq> P1" "A \<subseteq> A1"
    using serve_http_serves [OF assms(1) Cons.prems(1) h] by blast
  have "w2 = w'" using Cons.prems(2) h t by simp
  with Cons.IH [OF s1(1)] t s1(2,3) show ?case by blast
qed

section \<open>Properties\<close>

text \<open>The request of a client for a batch.\<close>

definition fetch_request :: "string \<Rightarrow> string \<Rightarrow> string \<Rightarrow> string \<Rightarrow> http_request" where
  "fetch_request topic g c prefetch =
     \<lparr>hq_Method = MethodGet, hq_Path = ''/api/v1/queue/fetch'',
      hq_RawQuery = join_query [(''topic'', topic), (''consumer_group'', g), (''consumer_id'', c), (''prefetch'', prefetch)],
      hq_Body = Inr (Plain [])\<rparr>"

lemma Query_Get_fetch:
  assumes "plain_name t" and "plain_name g" and "plain_name c" and "plain_name n"
  shows "Query_Get (fetch_request t g c n) ''topic'' = t" "Query_Get (fetch_request t g c n) ''consumer_group'' = g"
    "Query_Get (fetch_request t g c n) ''consumer_id'' = c" "Query_Get (fetch_request t g c n) ''prefetch'' = n"
proof -
  have "plain_name ''topic''" "plain_name ''consumer_group''" "plain_name ''consumer_id''" "plain_name ''prefetch''"
    by (simp_all add: plain_name_def plain_char_def Let_def)
  then have "ParseQuery (hq_RawQuery (fetch_request t g c n))
      = [(''topic'', t), (''consumer_group'', g), (''consumer_id'', c), (''prefetch'', n)]"
    unfolding fetch_request_def using assms by (simp add: ParseQuery_join del: join_query.simps)
  then show "Query_Get (fetch_request t g c n) ''topic'' = t" "Query_Get (fetch_request t g c n) ''consumer_group'' = g"
    "Query_Get (fetch_request t g c n) ''consumer_id'' = c" "Query_Get (fetch_request t g c n) ''prefetch'' = n"
    by (simp_all add: Query_Get_def)
qed

lemma plain_digits: "plain_name (nat_digits n)"
  using nat_digits_all [of n] by (auto simp: plain_name_def list_all_iff plain_char_def is_digit_def Let_def)

lemma handleFetch_request:
  assumes "plain_name t" "plain_name g" "plain_name c" "t \<noteq> []" "g \<noteq> []" "c \<noteq> []" and "int64_range (int n)"
  shows "serve_http R (fetch_request t g c (nat_digits n)) q w =
     (case FetchBatch R q t g c (clamp_prefetch (int n)) w of
        (Panics p, w1) \<Rightarrow> (Panics p, w1)
      | (Returns (Inl e), w1) \<Rightarrow>
          (Returns (http_Error (''Failed to fetch messages: '' @ error_text e) StatusInternalServerError), w1)
      | (Returns (Inr messages), w1) \<Rightarrow> (Returns (batch_response messages), w1))"
proof -
  have path: "hq_Path (fetch_request t g c (nat_digits n)) = ''/api/v1/queue/fetch''"
    "hq_Method (fetch_request t g c (nat_digits n)) = MethodGet" by (simp_all add: fetch_request_def)
  have "Sscanf_d (nat_digits n) = Some (int n)" using Sscanf_d_digits [OF assms(7), of "[]"] by simp
  moreover have "nat_digits n \<noteq> []" by simp
  ultimately show ?thesis
    unfolding serve_http_def path handleFetch_def Let_def
      Query_Get_fetch [OF assms(1-3) plain_digits] using assms(4-6) by simp
qed



text \<open>A request that is refused as malformed - wrong method, unknown path, bad body, missing or
  unreadable parameter - leaves the queue untouched.\<close>

theorem refused_request_is_harmless:
  assumes "serve_http R r q w = (Returns resp, w')"
    and "hr_StatusCode resp \<in> {StatusBadRequest, StatusNotFound, StatusMethodNotAllowed}"
  shows "w' = w"
  using assms by (auto simp: serve_http_def handler_defs Let_def map_prod_def status_defs batch_response_def
      http_json_def split: if_splits prod.splits sum.splits option.splits outcome.splits)

theorem refused_request_is_harmless_witness:
  "snd (serve_http calm_redis (fetch_request ''t'' ''g'' [] ''1'') sample_queue published_world) = published_world"
proof -
  have "serve_http calm_redis (fetch_request ''t'' ''g'' [] ''1'') sample_queue published_world
      = (Returns missing_parameters, published_world)"
    using Query_Get_fetch [of "''t''" "''g''" "[]" "''1''"]
    by (simp add: serve_http_def fetch_request_def handleFetch_def plain_name_def plain_char_def)
  from refused_request_is_harmless [OF this] show ?thesis
    by (simp add: missing_parameters_def \<open>serve_http _ _ _ _ = _\<close>)
qed

text \<open>Publishing over HTTP: the JSON form of a message is answered with status 200 and the ID of the
  message, and the message, as consumers will decode it, is then the last one waiting for its topic.\<close>

theorem http_publish:
  assumes "redis_live R data vt" and "message_json m = Inr j" and "message_ok m"
  shows "\<exists>w'. serve_http R \<lparr>hq_Method = MethodPost, hq_Path = ''/api/v1/queue/publish'', hq_RawQuery = qs,
        hq_Body = Inr (Json j)\<rparr> q w = (Returns (http_json (success_json (msg_ID m))), w')
    \<and> waiting (data w') = (waiting (data w))(msg_Topic m := waiting (data w) (msg_Topic m) @ [wire_form m])"
proof -
  have u: "Unmarshal_message (Json j) = Inr (wire_form m)"
    using message_roundtrip [OF assms(2,3)] by (simp add: decode_message_def Unmarshal_message_def Unmarshal_struct_def)
  have j: "message_json (wire_form m) = Inr j" using assms(2) by (simp add: message_json_wire_form)
  obtain w' where "Publish R (wire_form m) w = (None, w')"
    "data w' = push_left (queueKey (msg_Topic m)) (Json j) (data w)"
    using redis_live.Publish_live [OF assms(1) j, of w] by auto
  then show ?thesis
    using u text_message_Json [OF assms(2,3)]
    by (intro exI [of _ w']) (simp add: serve_http_def handlePublish_def fun_eq_iff)
qed

theorem http_publish_witness:
  "\<exists>j w'. serve_http calm_redis \<lparr>hq_Method = MethodPost, hq_Path = ''/api/v1/queue/publish'', hq_RawQuery = [],
        hq_Body = Inr (Json j)\<rparr> sample_queue empty_world = (Returns (http_json (success_json ''m1'')), w')"
proof -
  obtain j where "message_json sample = Inr j" using sample_props(5) by blast
  from http_publish [OF live.redis_live_axioms this sample_props(1), of "[]" sample_queue empty_world]
  show ?thesis using sample_props(4) by auto
qed

text \<open>Fetching over HTTP: the requested count is forced into the range from 1 to 2500. When that many
  messages wait, the answer holds exactly the oldest ones, in order; when fewer wait, no answer
  is sent at all and the messages that did wait are taken out of the queue.\<close>

theorem http_fetch:
  assumes "redis_live R data (rq_visibilityTimeout q)" and "serves R data q w P A"
    and "plain_name t" "plain_name g" "plain_name c" "t \<noteq> []" "g \<noteq> []" "c \<noteq> []" and "int64_range (int n)"
    and "k = max 1 (min n 2500)"
  shows "\<exists>resp w'. serve_http R (fetch_request t g c (nat_digits n)) q w = (resp, w')
    \<and> (if k \<le> length (waiting (data w) t)
       then resp = Returns (batch_response (take k (waiting (data w) t)))
         \<and> waiting (data w') = (waiting (data w))(t := drop k (waiting (data w) t))
       else resp = Panics NilDereference \<and> waiting (data w') = (waiting (data w))(t := []))"
proof -
  have k: "clamp_prefetch (int n) = int k"
    using assms(10) by (auto simp: clamp_prefetch_def Let_def)
  note h = handleFetch_request [OF assms(3-9), of R q w, unfolded k]
  have ok: "store_ok (data w)" by (rule live_store_ok [OF assms(1,2)])
  show ?thesis
  proof (cases "k \<le> length (waiting (data w) t)")
    case True
    with redis_live.FetchBatch_full [OF assms(1) ok refl, of "int k" t g c]
    obtain w' where "FetchBatch R q t g c (int k) w = (Returns (Inr (take k (waiting (data w) t))), w')"
      "waiting (data w') = (waiting (data w))(t := drop k (waiting (data w) t))" by auto
    with True h show ?thesis by simp
  next
    case False
    with redis_live.FetchBatch_short [OF assms(1) ok refl, of t "int k" g c]
    obtain w' where "FetchBatch R q t g c (int k) w = (Panics NilDereference, w')"
      "waiting (data w') = (waiting (data w))(t := [])" by auto
    with False h show ?thesis by simp
  qed
qed

theorem http_fetch_witness:
  "\<exists>w'. serve_http calm_redis (fetch_request ''telemetry'' ''g'' ''c'' ''500'') sample_queue published_world
     = (Panics NilDereference, w') \<and> waiting (mem_data w') ''telemetry'' = []"
proof -
  have "nat_digits 500 = ''500''" by code_simp
  with http_fetch [of calm_redis mem_data sample_queue, OF _ published_world_props(4),
      of "''telemetry''" "''g''" "''c''" 500] live.redis_live_axioms published_world_props(3)
  show ?thesis by (auto simp: plain_name_def plain_char_def int64_range_def)
qed

text \<open>Acknowledging over HTTP: status 200 exactly when the group has a pending entry of the message,
  of which one is then removed; otherwise status 500, and the data are as before.\<close>

theorem http_ack:
  assumes "redis_live R data vt" and "serves R data q w P A" and "t \<noteq> []" "g \<noteq> []" "i \<noteq> []"
    and "r = \<lparr>hq_Method = MethodPost, hq_Path = ''/api/v1/queue/ack'', hq_RawQuery = [], hq_Body = Inr (Json
         (JObj [(''consumer_group'', JStr g), (''message_id'', JStr i), (''topic'', JStr t)]))\<rparr>"
  shows "\<exists>resp w'. serve_http R r q w = (Returns resp, w')
    \<and> (if \<exists>x. is_entry_of (data w) (pelKey t g) i x
       then resp = http_json (success_json i)
         \<and> (\<exists>x. is_entry_of (data w) (pelKey t g) i x \<and> data w' = zset_remove (pelKey t g) x (data w))
       else hr_StatusCode resp = StatusInternalServerError \<and> data w' = data w)"
proof -
  have ok: "store_ok (data w)" by (rule live_store_ok [OF assms(1,2)])
  have h: "serve_http R r q w = handleAck R r w"
    and a: "handleAck R r w = (case Ack R t g i w of
        (Panics p, w1) \<Rightarrow> (Panics p, w1)
      | (Returns (Some e), w1) \<Rightarrow>
          (Returns (http_Error (''Failed to ack message: '' @ error_text e) StatusInternalServerError), w1)
      | (Returns None, w1) \<Rightarrow> (Returns (http_json (success_json i)), w1))"
    using assms(3-5)
    by (simp_all add: assms(6) serve_http_def handleAck_def Unmarshal_ack_json
        split: prod.splits outcome.splits option.splits)
  show ?thesis
  proof (cases "\<exists>x. is_entry_of (data w) (pelKey t g) i x")
    case True
    with redis_live.Ack_live(2) [OF assms(1) ok] obtain y w' where "Ack R t g i w = (Returns None, w')"
      "is_entry_of (data w) (pelKey t g) i y" "data w' = zset_remove (pelKey t g) y (data w)" by blast
    with True h a show ?thesis by auto
  next
    case False
    with redis_live.Ack_live(1) [OF assms(1) ok] obtain w' where "data w' = data w"
      "Ack R t g i w = (Returns (Some (Errorf (''message not found in PEL: '' @ i))), w')" by blast
    with False h a show ?thesis by auto
  qed
qed

theorem http_ack_witness:
  "\<exists>w'. serve_http calm_redis \<lparr>hq_Method = MethodPost, hq_Path = ''/api/v1/queue/ack'', hq_RawQuery = [],
     hq_Body = Inr (Json (JObj [(''consumer_group'', JStr ''g''), (''message_id'', JStr ''m1''),
       (''topic'', JStr ''telemetry'')]))\<rparr> sample_queue fetched_world
     = (Returns (http_json (success_json ''m1'')), w')"
  using http_ack [OF live.redis_live_axioms fetched_world_props(5) _ _ _ refl, of "''telemetry''" "''g''" "''m1''"]
    fetched_world_props(4) by auto

end
