(* ===== verification/Publisher.thy ===== *)
theory Publisher
  imports Message
begin

text \<open>
  What the streamer relies on of the queue it publishes to: the \<open>Publish\<close> method of the interface
  \<open>MessageQueue\<close> of \<open>internal/mq/queue.go\<close>, and the statistics every queue reports.
\<close>

section \<open>Statistics\<close>

record QueueStats =
  st_TotalPublished :: int64
  st_TotalDelivered :: int64
  st_TotalErrors :: int64
  st_ActiveSubscribers :: nat
  st_QueueDepth :: nat

section \<open>The contract\<close>

text \<open>
  \<open>sent\<close> is what the queue holds for each topic. A publication that succeeds has appended the message as
  a consumer will decode it; one that fails may have done so nevertheless.
\<close>

locale publisher =
  fixes publish :: "ctx \<Rightarrow> Message \<Rightarrow> 'w \<Rightarrow> error option \<times> 'w"
    and sent :: "'w \<Rightarrow> string \<Rightarrow> Message list"
  assumes publish_ok: "message_ok m \<Longrightarrow> publish cx m w = (None, w') \<Longrightarrow>
      sent w' = (sent w)(msg_Topic m := sent w (msg_Topic m) @ [wire_form m])"
    and publish_err: "message_ok m \<Longrightarrow> publish cx m w = (Some e, w') \<Longrightarrow>
      sent w' = sent w \<or> sent w' = (sent w)(msg_Topic m := sent w (msg_Topic m) @ [wire_form m])"

text \<open>A queue that is up takes every message that can be encoded.\<close>

locale reliable_publisher = publisher +
  assumes publish_done: "message_ok m \<Longrightarrow> message_json m = Inr j \<Longrightarrow> fst (publish None m w) = None"

context publisher
begin

text \<open>Messages are only added, and at the end.\<close>

lemma publish_adds:
  assumes "message_ok m" and "publish cx m w = (r, w')"
  shows "\<exists>ms. sent w' t = sent w t @ ms \<and> set ms \<subseteq> {wire_form m}"
  using publish_ok [OF assms(1)] publish_err [OF assms(1)] assms(2) by (cases r) fastforce+

end

end
