(* ===== verification/QueueClient.thy ===== *)
theory QueueClient
  imports QueueServer Publisher
begin

text \<open>
  The queue client of the streamer and the collector, \<open>internal/mq/http_queue_client.go\<close>:
  publishing, the polling loop, acknowledgements, the event stream reader and the life of its
  subscriptions. The connection to the server is a parameter; \<open>direct\<close> connects a client to
  the handlers of the queue service.
\<close>

section \<open>The connection\<close>

text \<open>\<open>httpClient.Do\<close>: a context, a method, a URL and a body; the body of the reply has been read.\<close>

record 'w transport =
  Do :: "ctx \<Rightarrow> string \<Rightarrow> string \<Rightarrow> gotext \<Rightarrow> 'w \<Rightarrow> (error + http_response) \<times> 'w"

text \<open>
  \<open>http.NewRequestWithContext\<close> refuses a URL with a control character; the base URL is one that parses.
\<close>

definition url_error :: "string \<Rightarrow> error option" where
  "url_error url = (if list_ex (\<lambda>c. (of_char c :: nat) < 32 \<or> (of_char c :: nat) = 127) url
     then Some (Errorf ''net/url: invalid control character in URL'') else None)"

text \<open>The compact text of a document, which \<open>string(bodyBytes)\<close> gives for a JSON body.\<close>

definition hex_digit :: "nat \<Rightarrow> char" where
  "hex_digit n = (if n < 10 then char_of (48 + n) else char_of (87 + n))"

definition escape_char :: "char \<Rightarrow> string" where
  "escape_char c = (let n = of_char c :: nat in
     if n = 34 \<or> n = 92 then [CHR 0x5C, c]
     else if n = 8 then [CHR 0x5C, CHR ''b''] else if n = 12 then [CHR 0x5C, CHR ''f'']
     else if n = 10 then [CHR 0x5C, CHR ''n''] else if n = 13 then [CHR 0x5C, CHR ''r'']
     else if n = 9 then [CHR 0x5C, CHR ''t'']
     else if n < 32 \<or> n \<in> {38, 60, 62} then [CHR 0x5C, CHR ''u'', CHR ''0'', CHR ''0'', hex_digit (n div 16), hex_digit (n mod 16)]
     else [c])"

definition quote_text :: "string \<Rightarrow> string" where
  "quote_text s = CHR 0x22 # concat (map escape_char s) @ [CHR 0x22]"

fun commas :: "string list \<Rightarrow> string" where
  "commas [] = []"
| "commas [s] = s"
| "commas (s # ss) = s @ CHR '','' # commas ss"

fun json_text :: "json \<Rightarrow> string" where
  "json_text JNull = ''null''"
| "json_text (JBool b) = (if b then ''true'' else ''false'')"
| "json_text (JNum l) = l"
| "json_text (JStr s) = quote_text s"
| "json_text (JArr js) = CHR ''['' # commas (map json_text js) @ '']''"
| "json_text (JObj ms) = CHR ''{'' # commas (map (\<lambda>(k, v). quote_text k @ CHR '':'' # json_text v) ms) @ ''}''"

definition body_text :: "gotext \<Rightarrow> string" where
  "body_text b = (case b of Plain s \<Rightarrow> s | Json j \<Rightarrow> json_text j)"

section \<open>The client\<close>

record HTTPQueueConfig =
  hc_BaseURL :: string
  hc_ConsumerGroup :: string
  hc_ConsumerID :: string
  hc_Timeout :: duration

record HTTPQueueClient =
  cl_baseURL :: string
  cl_consumerGroup :: string
  cl_consumerID :: string
  cl_timeout :: duration
  cl_ctx :: ctx

definition NewHTTPQueueClient :: "HTTPQueueConfig \<Rightarrow> HTTPQueueClient" where
  "NewHTTPQueueClient config =
     \<lparr>cl_baseURL = TrimSuffix (hc_BaseURL config) ''/'', cl_consumerGroup = hc_ConsumerGroup config,
      cl_consumerID = hc_ConsumerID config,
      cl_timeout = (if hc_Timeout config = 0 then 5 * minute else hc_Timeout config), cl_ctx = None\<rparr>"

text \<open>
  The exchange that \<open>Publish\<close>, \<open>Ack\<close> and \<open>Nack\<close> share after their body is built, with the words of
  their errors: a request that cannot be made, one that is not answered, a status other than 200.
\<close>

definition post :: "'w transport \<Rightarrow> ctx \<Rightarrow> string \<Rightarrow> string \<Rightarrow> string \<Rightarrow> string \<Rightarrow> gotext \<Rightarrow> 'w
    \<Rightarrow> error option \<times> 'w" where
  "post T cx create send status url body w =
     (case url_error url of Some e \<Rightarrow> (Some (Wrapf create e), w)
      | None \<Rightarrow> (case Do T cx MethodPost url body w of
            (Inl e, w1) \<Rightarrow> (Some (Wrapf send e), w1)
          | (Inr resp, w1) \<Rightarrow>
              if hr_StatusCode resp \<noteq> StatusOK
              then (Some (Errorf (status @ '' failed with status '' @ Itoa (hr_StatusCode resp) @ '': ''
                       @ body_text (hr_Body resp))), w1)
              else (None, w1)))"

definition client_Publish :: "'w transport \<Rightarrow> HTTPQueueClient \<Rightarrow> ctx \<Rightarrow> Message \<Rightarrow> 'w \<Rightarrow> error option \<times> 'w" where
  "client_Publish T c cx msg w =
     (case message_json msg of Inl e \<Rightarrow> (Some (Wrapf ''failed to marshal publish request'' e), w)
      | Inr j \<Rightarrow> post T cx ''failed to create request'' ''failed to publish message'' ''publish''
                   (cl_baseURL c @ ''/api/v1/queue/publish'') (Json j) w)"

definition ack_json :: "HTTPQueueClient \<Rightarrow> string \<Rightarrow> string \<Rightarrow> json" where
  "ack_json c topic messageID =
     JObj [(''consumer_group'', JStr (cl_consumerGroup c)), (''message_id'', JStr messageID), (''topic'', JStr topic)]"

definition client_Ack :: "'w transport \<Rightarrow> HTTPQueueClient \<Rightarrow> string \<Rightarrow> string \<Rightarrow> 'w \<Rightarrow> error option \<times> 'w" where
  "client_Ack T c topic messageID =
     post T (cl_ctx c) ''failed to create ack request'' ''failed to ack message'' ''ack''
       (cl_baseURL c @ ''/api/v1/queue/ack'') (Json (ack_json c topic messageID))"

definition client_Nack :: "'w transport \<Rightarrow> HTTPQueueClient \<Rightarrow> string \<Rightarrow> string \<Rightarrow> 'w \<Rightarrow> error option \<times> 'w" where
  "client_Nack T c topic messageID =
     post T (cl_ctx c) ''failed to create nack request'' ''failed to nack message'' ''nack''
       (cl_baseURL c @ ''/api/v1/queue/nack'') (Json (ack_json c topic messageID))"

section \<open>Polling\<close>

record batch_resp =
  br_Messages :: "Message option list"
  br_Count :: int

text \<open>A slice of pointers to messages.\<close>

fun decode_pointers :: "json list \<Rightarrow> error + Message option list" where
  "decode_pointers [] = Inr []"
| "decode_pointers (j # js) =
     (case (case j of JNull \<Rightarrow> Inr None | _ \<Rightarrow> map_sum id Some (decode_message j)) of
        Inl e \<Rightarrow> Inl e
      | Inr m \<Rightarrow> (case decode_pointers js of Inl e \<Rightarrow> Inl e | Inr ms \<Rightarrow> Inr (m # ms)))"

definition set_messages :: "batch_resp setter" where
  "set_messages j r =
     (case j of JNull \<Rightarrow> Inr (r\<lparr>br_Messages := []\<rparr>)
      | JArr js \<Rightarrow> (case decode_pointers js of Inl e \<Rightarrow> Inl e | Inr ms \<Rightarrow> Inr (r\<lparr>br_Messages := ms\<rparr>))
      | _ \<Rightarrow> Inl (type_error ''value into slice''))"

definition batch_fields :: "(string \<times> batch_resp setter) list" where
  "batch_fields = [(''messages'', set_messages), (''count'', set_int (\<lambda>i r. r\<lparr>br_Count := i\<rparr>))]"

definition Unmarshal_batch :: "gotext \<Rightarrow> error + batch_resp" where
  "Unmarshal_batch = Unmarshal_struct batch_fields \<lparr>br_Messages = [], br_Count = 0\<rparr>"

definition prefetchCount :: nat where "prefetchCount = 500"

definition fetch_url :: "HTTPQueueClient \<Rightarrow> string \<Rightarrow> string" where
  "fetch_url c topic = cl_baseURL c @ ''/api/v1/queue/fetch?topic='' @ topic @ ''&consumer_group=''
     @ cl_consumerGroup c @ ''&consumer_id='' @ cl_consumerID c @ ''&prefetch='' @ Itoa (int prefetchCount)"

text \<open>The fetching half of a round: the messages to process, or \<open>None\<close> when the round sleeps instead.\<close>

definition poll_fetch :: "'w transport \<Rightarrow> HTTPQueueClient \<Rightarrow> ctx \<Rightarrow> string \<Rightarrow> 'w
    \<Rightarrow> Message option list option \<times> 'w" where
  "poll_fetch T c cx topic w =
     (case url_error (fetch_url c topic) of Some e \<Rightarrow> (None, w)
      | None \<Rightarrow> (case Do T cx MethodGet (fetch_url c topic) (Plain []) w of
            (Inl e, w1) \<Rightarrow> (None, w1)
          | (Inr resp, w1) \<Rightarrow>
              if hr_StatusCode resp \<noteq> StatusOK then (None, w1)
              else (case Unmarshal_batch (hr_Body resp) of
                  Inl e \<Rightarrow> (None, w1)
                | Inr batch \<Rightarrow> if br_Count batch = 0 then (None, w1) else (Some (br_Messages batch), w1))))"

text \<open>
  A handler takes the context and the message pointer. The result of the handler decides between
  \<open>Ack\<close> and \<open>Nack\<close>, whose own errors are logged only.
\<close>

type_synonym 'w handler = "ctx \<Rightarrow> Message option \<Rightarrow> 'w \<Rightarrow> error option outcome \<times> 'w"

fun process_batch :: "'w transport \<Rightarrow> HTTPQueueClient \<Rightarrow> ctx \<Rightarrow> string \<Rightarrow> 'w handler \<Rightarrow> Message option list
    \<Rightarrow> 'w \<Rightarrow> unit outcome \<times> 'w" where
  "process_batch T c cx topic handler [] w = (Returns (), w)"
| "process_batch T c cx topic handler (m # ms) w =
     (case handler cx m w of
        (Panics p, w1) \<Rightarrow> (Panics p, w1)
      | (Returns r, w1) \<Rightarrow>
          (case m of None \<Rightarrow> (Panics NilDereference, w1)
           | Some msg \<Rightarrow>
               let (e, w2) = (if r \<noteq> None then client_Nack T c topic (msg_ID msg) w1
                              else client_Ack T c topic (msg_ID msg) w1)
               in process_batch T c cx topic handler ms w2))"

definition poll_round :: "'w transport \<Rightarrow> HTTPQueueClient \<Rightarrow> ctx \<Rightarrow> string \<Rightarrow> 'w handler \<Rightarrow> 'w
    \<Rightarrow> unit outcome \<times> 'w" where
  "poll_round T c cx topic handler w =
     (case poll_fetch T c cx topic w of
        (None, w1) \<Rightarrow> (Returns (), w1)
      | (Some ms, w1) \<Rightarrow> process_batch T c cx topic handler ms w1)"

text \<open>
  The loop, for the contexts it sees at the start of its rounds; the flag tells whether the
  goroutine has finished.
\<close>

fun handleBatchPolling :: "'w transport \<Rightarrow> HTTPQueueClient \<Rightarrow> string \<Rightarrow> 'w handler \<Rightarrow> ctx list \<Rightarrow> 'w
    \<Rightarrow> bool outcome \<times> 'w" where
  "handleBatchPolling T c topic handler [] w = (Returns False, w)"
| "handleBatchPolling T c topic handler (cx # cxs) w =
     (if cx \<noteq> None then (Returns True, w)
      else case poll_round T c cx topic handler w of
          (Panics p, w1) \<Rightarrow> (Panics p, w1)
        | (Returns u, w1) \<Rightarrow> handleBatchPolling T c topic handler cxs w1)"

section \<open>The event stream reader\<close>

text \<open>
  The loop over the lines of a stream: the data handed to \<open>handleMessage\<close>, in order. The reader
  remembers the event type and the data of the event it is in.
\<close>

fun sse_read :: "string \<Rightarrow> gotext \<Rightarrow> sse_line list \<Rightarrow> gotext list" where
  "sse_read eventType eventData [] = []"
| "sse_read eventType eventData (DataLine j # ls) = sse_read eventType (Json j) ls"
| "sse_read eventType eventData (Line l # ls) =
     (if HasPrefix l ''event:'' then sse_read (TrimSpace (TrimPrefix l ''event:'')) eventData ls
      else if HasPrefix l ''data:'' then sse_read eventType (Plain (TrimSpace (TrimPrefix l ''data:''))) ls
      else if l = [] then
        (if eventType = ''message'' \<and> eventData \<noteq> Plain [] then eventData # sse_read [] (Plain []) ls
         else sse_read [] (Plain []) ls)
      else sse_read eventType eventData ls)"

definition client_handleMessage :: "'w transport \<Rightarrow> HTTPQueueClient \<Rightarrow> ctx \<Rightarrow> string \<Rightarrow> 'w handler \<Rightarrow> gotext \<Rightarrow> 'w
    \<Rightarrow> unit outcome \<times> 'w" where
  "client_handleMessage T c cx topic handler data w =
     (case Unmarshal_message data of Inl e \<Rightarrow> (Returns (), w)
      | Inr msg \<Rightarrow> process_batch T c cx topic handler [Some msg] w)"

text \<open>The delay before the next connection attempt: doubled up to 30 seconds.\<close>

definition next_delay :: "duration \<Rightarrow> duration" where
  "next_delay retryDelay = (let d = retryDelay * 2; m = 30 * second in if d < m then d else m)"

section \<open>Lemmas\<close>

lemma decode_pointers_messages:
  assumes "messages_json ms = Inr js" and "\<forall>m \<in> set ms. message_ok m \<and> wire_form m = m"
  shows "decode_pointers js = Inr (map Some ms)"
  using assms
proof (induction ms arbitrary: js)
  case Nil
  then show ?case by simp
next
  case (Cons m ms)
  obtain j js' where j: "message_json m = Inr j" "messages_json ms = Inr js'" "js = j # js'"
    using Cons.prems(1) by (auto split: sum.splits)
  have d: "decode_message j = Inr m" using message_roundtrip [OF j(1)] Cons.prems(2) by simp
  obtain fs where "j = JObj fs" using decode_message_Obj [OF j(1)] by blast
  then show ?case using d Cons.IH [OF j(2)] Cons.prems(2) by (simp add: j(3))
qed

lemma messages_json_total:
  "\<forall>m \<in> set ms. \<exists>j. message_json m = Inr j \<Longrightarrow> \<exists>js. messages_json ms = Inr js"
  by (induction ms) auto

lemma batch_roundtrip [wire]:
  assumes "\<forall>m \<in> set ms. (\<exists>j. message_json m = Inr j) \<and> message_ok m \<and> wire_form m = m"
    and "int64_range (int (length ms))"
  shows "hr_StatusCode (batch_response ms) = StatusOK"
    and "Unmarshal_batch (hr_Body (batch_response ms)) = Inr \<lparr>br_Messages = map Some ms, br_Count = int (length ms)\<rparr>"
proof -
  obtain js where js: "messages_json ms = Inr js" using messages_json_total assms(1) by blast
  then have r: "batch_response ms = http_json (JObj [(''count'', JInt (int (length ms))), (''messages'', JArr js)])"
    by (simp add: batch_response_def)
  show "hr_StatusCode (batch_response ms) = StatusOK" by (simp add: r StatusOK_def)
  have d: "decode_pointers js = Inr (map Some ms)" using decode_pointers_messages [OF js] assms(1) by blast
  show "Unmarshal_batch (hr_Body (batch_response ms)) = Inr \<lparr>br_Messages = map Some ms, br_Count = int (length ms)\<rparr>"
    using assms(2) by (simp add: r Unmarshal_batch_def Unmarshal_struct_def decode_struct_def batch_fields_def
        find_field_def set_messages_def d)
qed

lemma waiting_encodes:
  assumes "store_ok d" and "m \<in> set (waiting d t)"
  shows "(\<exists>j. message_json m = Inr j) \<and> message_ok m \<and> wire_form m = m \<and> msg_Topic m = t"
proof -
  obtain x where x: "x \<in> set (lists d (queueKey t))" "m = text_message x" using assms(2) by (auto simp: waiting_def)
  have "queued_ok t x" by (rule store_ok_lists [OF assms(1) x(1)])
  then show ?thesis using queued_okD [of t x] queued_ok_json [of t x] x(2) by auto
qed

section \<open>Statistics\<close>

text \<open>\<open>Stats\<close> asks the server and reports zeros whatever the answer is, also one it can decode.\<close>

definition zero_stats :: QueueStats where
  "zero_stats = \<lparr>st_TotalPublished = 0, st_TotalDelivered = 0, st_TotalErrors = 0, st_ActiveSubscribers = 0, st_QueueDepth = 0\<rparr>"

definition client_Stats :: "'w transport \<Rightarrow> HTTPQueueClient \<Rightarrow> 'w \<Rightarrow> QueueStats \<times> 'w" where
  "client_Stats T c w =
     (let url = cl_baseURL c @ ''/api/v1/queue/stats''
      in case url_error url of Some e \<Rightarrow> (zero_stats, w)
         | None \<Rightarrow> (case Do T (cl_ctx c) MethodGet url (Plain []) w of
               (Inl e, w1) \<Rightarrow> (zero_stats, w1)
             | (Inr resp, w1) \<Rightarrow> if hr_StatusCode resp \<noteq> StatusOK then (zero_stats, w1)
                 else (zero_stats\<lparr>st_TotalPublished := 0, st_TotalDelivered := 0\<rparr>, w1)))"

text \<open>\<open>Start\<close> only logs.\<close>

definition client_Start :: "HTTPQueueClient \<Rightarrow> error option" where
  "client_Start c = None"

end
