(* ===== verification/QueueEndToEnd.thy ===== *)
theory QueueEndToEnd
  imports QueueClient Publisher
begin

text \<open>
  The queue client talking to the handlers of the queue service over a connection that loses
  nothing: what the streamer publishes, what a poll of the collector gets, what an
  acknowledgement does; and the event stream written by the server and read by the client.
\<close>

section \<open>A direct connection\<close>

text \<open>
  A done context stops the request. A panic of the handler drops the connection, which the
  client sees as an end of file.
\<close>

definition direct :: "'w redis \<Rightarrow> RedisQueue \<Rightarrow> string \<Rightarrow> 'w transport" where
  "direct R q base = \<lparr>Do = (\<lambda>cx meth url body w.
     case cx of Some e \<Rightarrow> (Inl e, w)
     | None \<Rightarrow> (case request_of_url base meth url body of
           None \<Rightarrow> (Inl (External ''no such host''), w)
         | Some r \<Rightarrow> (case serve_http R r q w of
               (Panics p, w1) \<Rightarrow> (Inl EOF, w1)
             | (Returns resp, w1) \<Rightarrow> (Inr resp, w1))))\<rparr>"

text \<open>A client whose names need no escaping and whose base URL has no control character.\<close>

definition client_ok :: "HTTPQueueClient \<Rightarrow> bool" where
  "client_ok c \<longleftrightarrow> url_error (cl_baseURL c) = None \<and> cl_ctx c = None
     \<and> plain_name (cl_consumerGroup c) \<and> cl_consumerGroup c \<noteq> []
     \<and> plain_name (cl_consumerID c) \<and> cl_consumerID c \<noteq> []"

lemma url_error_append: "url_error (a @ b) = None \<longleftrightarrow> url_error a = None \<and> url_error b = None"
  by (auto simp: url_error_def)

lemma url_error_plain: "plain_name s \<Longrightarrow> url_error s = None"
  by (auto simp: url_error_def plain_name_def plain_char_def Let_def list_ex_iff list_all_iff)

lemma url_error_paths [simp]:
  "url_error ''/api/v1/queue/publish'' = None" "url_error ''/api/v1/queue/ack'' = None"
  "url_error ''/api/v1/queue/nack'' = None" "url_error ''/api/v1/queue/fetch?topic='' = None"
  "url_error ''&consumer_group='' = None" "url_error ''&consumer_id='' = None" "url_error ''&prefetch='' = None"
  by (simp_all add: url_error_def)

lemma direct_path:
  assumes "CHR ''#'' \<notin> set p" and "CHR ''?'' \<notin> set p"
  shows "Do (direct R q base) None meth (base @ p) body w =
    (case serve_http R \<lparr>hq_Method = meth, hq_Path = p, hq_RawQuery = [], hq_Body = Inr body\<rparr> q w of
       (Panics p, w1) \<Rightarrow> (Inl EOF, w1) | (Returns resp, w1) \<Rightarrow> (Inr resp, w1))"
  by (simp add: direct_def request_of_url_path [OF assms])

lemma direct_done [simp]: "Do (direct R q base) (Some e) meth url body w = (Inl e, w)"
  by (simp add: direct_def)

lemma fetch_url_request:
  assumes "client_ok c" and "plain_name t"
  shows "request_of_url (cl_baseURL c) MethodGet (fetch_url c t) (Plain [])
    = Some (fetch_request t (cl_consumerGroup c) (cl_consumerID c) (nat_digits prefetchCount))"
proof -
  let ?q = "[(''topic'', t), (''consumer_group'', cl_consumerGroup c), (''consumer_id'', cl_consumerID c),
    (''prefetch'', nat_digits prefetchCount)]"
  have "fetch_url c t = cl_baseURL c @ ''/api/v1/queue/fetch'' @ CHR ''?'' # join_query ?q"
    by (simp add: fetch_url_def Itoa_def)
  moreover have "CHR ''#'' \<notin> set (join_query ?q)"
    using assms plain_digits [of prefetchCount]
    by (intro join_query_no_fragment) (simp add: client_ok_def plain_name_def plain_char_def Let_def)
  ultimately show ?thesis
    using request_of_url_query [of "''/api/v1/queue/fetch''" "join_query ?q"]
    by (simp add: fetch_request_def del: join_query.simps)
qed

lemma fetch_url_no_error:
  assumes "client_ok c" and "plain_name t"
  shows "url_error (fetch_url c t) = None"
proof -
  have "Itoa (int prefetchCount) = nat_digits prefetchCount" by (simp add: Itoa_def)
  then have "url_error (Itoa (int prefetchCount)) = None" using plain_digits by (simp add: url_error_plain)
  then show ?thesis
    unfolding fetch_url_def url_error_append using assms by (simp add: client_ok_def url_error_plain)
qed

lemma prefetch_in_range: "int64_range (int prefetchCount)" "max 1 (min prefetchCount 2500) = prefetchCount"
  by (simp_all add: prefetchCount_def int64_range_def)

text \<open>What a poll gets from the service.\<close>

lemma poll_fetch_direct:
  assumes live: "redis_live R data (rq_visibilityTimeout q)" and s: "serves R data q w P A"
    and c: "client_ok c" and t: "plain_name t" "t \<noteq> []"
  shows "\<exists>r w'. poll_fetch (direct R q (cl_baseURL c)) c None t w = (r, w')
    \<and> (if prefetchCount \<le> length (waiting (data w) t)
       then r = Some (map Some (take prefetchCount (waiting (data w) t)))
         \<and> waiting (data w') = (waiting (data w))(t := drop prefetchCount (waiting (data w) t))
       else r = None \<and> waiting (data w') = (waiting (data w))(t := []))"
proof -
  let ?ms = "take prefetchCount (waiting (data w) t)"
  let ?r = "fetch_request t (cl_consumerGroup c) (cl_consumerID c) (nat_digits prefetchCount)"
  have names: "plain_name (cl_consumerGroup c)" "plain_name (cl_consumerID c)" "cl_consumerGroup c \<noteq> []" "cl_consumerID c \<noteq> []"
    using c by (simp_all add: client_ok_def)
  obtain resp w' where h: "serve_http R ?r q w = (resp, w')"
    "if prefetchCount \<le> length (waiting (data w) t)
       then resp = Returns (batch_response ?ms)
         \<and> waiting (data w') = (waiting (data w))(t := drop prefetchCount (waiting (data w) t))
       else resp = Panics NilDereference \<and> waiting (data w') = (waiting (data w))(t := [])"
    using http_fetch [OF live s t(1) names(1,2) t(2) names(3,4) prefetch_in_range(1) prefetch_in_range(2) [symmetric]]
    by blast
  have fetch: "Do (direct R q (cl_baseURL c)) None MethodGet (fetch_url c t) (Plain []) w
      = (case serve_http R ?r q w of (Panics p, w1) \<Rightarrow> (Inl EOF, w1) | (Returns resp, w1) \<Rightarrow> (Inr resp, w1))"
    by (simp add: direct_def fetch_url_request [OF c t(1)])
  show ?thesis
  proof (cases "prefetchCount \<le> length (waiting (data w) t)")
    case True
    have "\<forall>m \<in> set ?ms. (\<exists>j. message_json m = Inr j) \<and> message_ok m \<and> wire_form m = m"
      using waiting_encodes [OF live_store_ok [OF live s]] by (meson in_set_takeD)
    moreover have len: "length ?ms = prefetchCount" using True by (simp del: waiting_length)
    ultimately have "hr_StatusCode (batch_response ?ms) = StatusOK"
      "Unmarshal_batch (hr_Body (batch_response ?ms)) = Inr \<lparr>br_Messages = map Some ?ms, br_Count = int prefetchCount\<rparr>"
      using batch_roundtrip [of ?ms] prefetch_in_range(1) by simp_all
    with h True fetch show ?thesis
      by (simp add: poll_fetch_def fetch_url_no_error [OF c t(1)] prefetchCount_def)
  next
    case False
    with h fetch show ?thesis
      by (simp add: poll_fetch_def fetch_url_no_error [OF c t(1)])
  qed
qed

section \<open>Properties\<close>

text \<open>A client for the witnesses.\<close>

definition sample_client :: HTTPQueueClient where
  "sample_client = NewHTTPQueueClient \<lparr>hc_BaseURL = ''http://queue:8080/'', hc_ConsumerGroup = ''g'',
     hc_ConsumerID = ''c'', hc_Timeout = 0\<rparr>"

lemma sample_client_eq: "sample_client = \<lparr>cl_baseURL = ''http://queue:8080'', cl_consumerGroup = ''g'',
    cl_consumerID = ''c'', cl_timeout = 5 * minute, cl_ctx = None\<rparr>"
proof -
  have "TrimSuffix ''http://queue:8080/'' ''/'' = ''http://queue:8080''" by code_simp
  then show ?thesis by (simp add: sample_client_def NewHTTPQueueClient_def)
qed

lemma sample_client_ok: "client_ok sample_client"
  by (simp add: sample_client_eq client_ok_def url_error_def plain_name_def plain_char_def)

lemma client_publish_over_http:
  assumes "redis_live R data vt" and "message_json m = Inr j" and "message_ok m" and "client_ok c"
  shows "\<exists>w'. client_Publish (direct R q (cl_baseURL c)) c None m w = (None, w')
    \<and> waiting (data w') = (waiting (data w))(msg_Topic m := waiting (data w) (msg_Topic m) @ [wire_form m])"
proof -
  obtain w' where w': "serve_http R \<lparr>hq_Method = MethodPost, hq_Path = ''/api/v1/queue/publish'', hq_RawQuery = [],
        hq_Body = Inr (Json j)\<rparr> q w = (Returns (http_json (success_json (msg_ID m))), w')"
    "waiting (data w') = (waiting (data w))(msg_Topic m := waiting (data w) (msg_Topic m) @ [wire_form m])"
    using http_publish [OF assms(1-3)] by blast
  have "url_error (cl_baseURL c @ ''/api/v1/queue/publish'') = None"
    using assms(4) by (simp add: url_error_append client_ok_def)
  with w' show ?thesis
    by (simp add: client_Publish_def assms(2) post_def direct_path StatusOK_def)
qed

text \<open>A publication through the client and the service: it succeeds, and the message - with its own
  ID, topic, payload and time - is then the last one waiting for its topic.\<close>

theorem client_publish_end_to_end:
  assumes "redis_live R data vt" and "message_json m = Inr j" and "message_ok m" and "client_ok c"
  shows "\<exists>w'. client_Publish (direct R q (cl_baseURL c)) c None m w = (None, w')
    \<and> waiting (data w') = (waiting (data w))(msg_Topic m := waiting (data w) (msg_Topic m) @ [wire_form m])"
  by (rule client_publish_over_http [OF assms])

theorem client_publish_end_to_end_witness:
  "\<exists>w'. client_Publish (direct calm_redis sample_queue (cl_baseURL sample_client)) sample_client None sample empty_world
     = (None, w') \<and> waiting (mem_data w') ''telemetry'' = [sample]"
proof -
  obtain j where "message_json sample = Inr j" using sample_props(5) by blast
  from client_publish_end_to_end [OF live.redis_live_axioms this sample_props(1) sample_client_ok,
      of sample_queue empty_world]
  show ?thesis using sample_props(2,3) empty_world_props(2) by auto
qed

text \<open>C11. A round of polling through the client and the service. When at least 500 messages wait, the
  handler gets the 500 oldest, in order. When fewer wait, the handler gets none of them, and all
  of them leave the queue: they stay pending until the visibility timeout.\<close>

theorem client_poll_end_to_end:
  assumes "redis_live R data (rq_visibilityTimeout q)" and "serves R data q w P A"
    and "client_ok c" and "plain_name t" and "t \<noteq> []"
  shows "(prefetchCount \<le> length (waiting (data w) t) \<longrightarrow> (\<exists>w1. waiting (data w1) t = drop prefetchCount (waiting (data w) t)
          \<and> poll_round (direct R q (cl_baseURL c)) c None t handler w
            = process_batch (direct R q (cl_baseURL c)) c None t handler
                (map Some (take prefetchCount (waiting (data w) t))) w1))
    \<and> (length (waiting (data w) t) < prefetchCount \<longrightarrow> (\<exists>w1. waiting (data w1) t = []
          \<and> poll_round (direct R q (cl_baseURL c)) c None t handler w = (Returns (), w1)))"
proof -
  obtain r w' where p: "poll_fetch (direct R q (cl_baseURL c)) c None t w = (r, w')"
    "if prefetchCount \<le> length (waiting (data w) t)
       then r = Some (map Some (take prefetchCount (waiting (data w) t)))
         \<and> waiting (data w') = (waiting (data w))(t := drop prefetchCount (waiting (data w) t))
       else r = None \<and> waiting (data w') = (waiting (data w))(t := [])"
    using poll_fetch_direct [OF assms] by blast
  show ?thesis
  proof (cases "prefetchCount \<le> length (waiting (data w) t)")
    case True
    with p show ?thesis by (intro conjI impI exI [of _ w']) (simp_all add: poll_round_def)
  next
    case False
    with p show ?thesis by (intro conjI impI exI [of _ w']) (simp_all add: poll_round_def)
  qed
qed

theorem client_poll_end_to_end_witness:
  "\<exists>w'. poll_round (direct calm_redis sample_queue (cl_baseURL sample_client)) sample_client None ''telemetry''
       (\<lambda>cx m w. (Panics NilDereference, w)) published_world = (Returns (), w')
     \<and> waiting (mem_data w') ''telemetry'' = []"
  using client_poll_end_to_end [of calm_redis mem_data sample_queue, OF _ published_world_props(4) sample_client_ok,
      of "''telemetry''" "\<lambda>cx m w. (Panics NilDereference, w)"] live.redis_live_axioms published_world_props(3)
  by (auto simp: plain_name_def plain_char_def prefetchCount_def)

text \<open>An acknowledgement through the client and the service succeeds exactly when the client's group has
  a pending entry of the message, of which one is then removed.\<close>

theorem client_ack_end_to_end:
  assumes "redis_live R data vt" and "serves R data q w P A" and "client_ok c" and "t \<noteq> []" and "i \<noteq> []"
  shows "\<exists>r w'. client_Ack (direct R q (cl_baseURL c)) c t i w = (r, w')
    \<and> (if \<exists>x. is_entry_of (data w) (pelKey t (cl_consumerGroup c)) i x
       then r = None \<and> (\<exists>x. is_entry_of (data w) (pelKey t (cl_consumerGroup c)) i x
          \<and> data w' = zset_remove (pelKey t (cl_consumerGroup c)) x (data w))
       else r \<noteq> None \<and> data w' = data w)"
proof -
  have g: "cl_consumerGroup c \<noteq> []" "cl_ctx c = None" using assms(3) by (simp_all add: client_ok_def)
  have u: "url_error (cl_baseURL c @ ''/api/v1/queue/ack'') = None"
    using assms(3) by (simp add: url_error_append client_ok_def)
  obtain resp w' where h: "serve_http R \<lparr>hq_Method = MethodPost, hq_Path = ''/api/v1/queue/ack'', hq_RawQuery = [],
      hq_Body = Inr (Json (ack_json c t i))\<rparr> q w = (Returns resp, w')"
    "if \<exists>x. is_entry_of (data w) (pelKey t (cl_consumerGroup c)) i x
       then resp = http_json (success_json i)
         \<and> (\<exists>x. is_entry_of (data w) (pelKey t (cl_consumerGroup c)) i x
            \<and> data w' = zset_remove (pelKey t (cl_consumerGroup c)) x (data w))
       else hr_StatusCode resp = StatusInternalServerError \<and> data w' = data w"
    using http_ack [OF assms(1,2,4) g(1) assms(5) refl] unfolding ack_json_def by blast
  show ?thesis
  proof (cases "\<exists>x. is_entry_of (data w) (pelKey t (cl_consumerGroup c)) i x")
    case True
    with h u g show ?thesis by (simp add: client_Ack_def post_def direct_path StatusOK_def)
  next
    case False
    with h u g show ?thesis by (simp add: client_Ack_def post_def direct_path status_defs)
  qed
qed

theorem client_ack_end_to_end_witness:
  "\<exists>w'. client_Ack (direct calm_redis sample_queue (cl_baseURL sample_client)) sample_client ''telemetry'' ''m1''
     fetched_world = (None, w')"
  using client_ack_end_to_end [OF live.redis_live_axioms fetched_world_props(5) sample_client_ok,
      of "''telemetry''" "''m1''"] fetched_world_props(4)
  by (auto simp: sample_client_eq)

section \<open>The client as a publisher\<close>

lemma client_publisher:
  assumes "redis_live R data vt" and "client_ok c"
  shows "reliable_publisher (client_Publish (direct R q (cl_baseURL c)) c) (\<lambda>w. waiting (data w))"
proof
  have up: "\<exists>w'. client_Publish (direct R q (cl_baseURL c)) c None m w = (None, w')
      \<and> waiting (data w') = (waiting (data w))(msg_Topic m := waiting (data w) (msg_Topic m) @ [wire_form m])"
    if "message_json m = Inr j" "message_ok m" for m j w
    by (rule client_publish_over_http [OF assms(1) that assms(2)])
  have refused: "client_Publish (direct R q (cl_baseURL c)) c cx m w = (r, w') \<Longrightarrow> r \<noteq> None \<and> w' = w"
    if "cx \<noteq> None \<or> (\<exists>e. message_json m = Inl e)" for cx m w r w'
    using that by (auto simp: client_Publish_def post_def split: sum.splits option.splits)
  fix m cx w w' e j
  assume ok: "message_ok m"
  show "waiting (data w') = (waiting (data w))(msg_Topic m := waiting (data w) (msg_Topic m) @ [wire_form m])"
    if p: "client_Publish (direct R q (cl_baseURL c)) c cx m w = (None, w')"
  proof -
    have "cx = None" using refused [of cx m w None w'] p by blast
    moreover obtain j where "message_json m = Inr j" using refused [of cx m w None w'] p by (cases "message_json m") auto
    ultimately show ?thesis using up [OF _ ok, of j w] p by auto
  qed
  show "waiting (data w') = waiting (data w)
      \<or> waiting (data w') = (waiting (data w))(msg_Topic m := waiting (data w) (msg_Topic m) @ [wire_form m])"
    if p: "client_Publish (direct R q (cl_baseURL c)) c cx m w = (Some e, w')"
  proof (cases "cx \<noteq> None \<or> (\<exists>e. message_json m = Inl e)")
    case True
    then show ?thesis using refused [OF True p] by simp
  next
    case False
    then obtain j where "cx = None" "message_json m = Inr j" by (cases "message_json m") auto
    then show ?thesis using up [OF _ ok, of j w] p by auto
  qed
  show "message_json m = Inr j \<Longrightarrow> fst (client_Publish (direct R q (cl_baseURL c)) c None m w) = None"
    using up [OF _ ok, of j w] by auto
qed

interpretation calm_publisher: reliable_publisher
    "client_Publish (direct calm_redis sample_queue (cl_baseURL sample_client)) sample_client" "\<lambda>w. waiting (mem_data w)"
  by (rule client_publisher [OF live.redis_live_axioms sample_client_ok])

section \<open>The event stream\<close>

lemma sse_words:
  "HasPrefix ''event: message'' ''event:''" "TrimSpace (TrimPrefix ''event: message'' ''event:'') = ''message''"
  "HasPrefix ''event: connected'' ''event:''" "TrimSpace (TrimPrefix ''event: connected'' ''event:'') = ''connected''"
  "\<not> HasPrefix '': ping'' ''event:''" "\<not> HasPrefix '': ping'' ''data:''"
  "\<not> HasPrefix [] ''event:''" "\<not> HasPrefix [] ''data:''"
  by code_simp+

text \<open>The messages the loop takes from the channel before it ends.\<close>

fun received :: "sse_event list \<Rightarrow> Message list" where
  "received [] = []"
| "received (ev # evs) = (case ev of Received m \<Rightarrow> m # received evs | Tick \<Rightarrow> received evs | _ \<Rightarrow> [])"

lemma sse_read_stream:
  assumes "\<forall>m \<in> set (received evs). \<exists>j. message_json m = Inr j"
  shows "map Inr (sse_read [] (Plain []) (sse_stream evs)) = map (map_sum id Json \<circ> message_json) (received evs)"
  using assms
proof (induction evs)
  case Nil
  then show ?case by simp
next
  case (Cons ev evs)
  show ?case
  proof (cases ev)
    case (Received m)
    with Cons.prems obtain j where "message_json m = Inr j" by auto
    with Received Cons show ?thesis by (simp add: sse_step_def sse_words)
  next
    case Tick
    with Cons show ?thesis by (simp add: sse_step_def sse_words)
  qed (simp_all add: sse_step_def)
qed



end
