(* ===== verification/InMemoryQueue.thy ===== *)
theory InMemoryQueue
  imports Publisher
begin

text \<open>
  The queue in memory, \<open>internal/mq/inmemory_queue.go\<close>, as a step relation: publishers, the
  dispatcher goroutine, the handler goroutines and the callers of \<open>Start\<close>, \<open>Stop\<close> and \<open>Close\<close>
  interleave at their channel operations and atomic accesses. A step carries the event it makes
  visible, and a run is judged by its events. A channel send and the count that follows it are
  one step; a \<open>Stop\<close> that overtakes a \<open>Start\<close> before the context is set is not modelled.
\<close>

section \<open>State\<close>

text \<open>
  Where the dispatcher is: not started, in the loop of \<open>processMessages\<close>, in \<open>drainMessages\<close>, with
  a message whose handlers it has still to look up, starting the remaining handlers of a message,
  or finished. The flag says whether it is draining.
\<close>

datatype dispatcher =
    NotStarted
  | Looping
  | Draining
  | Got Message bool
  | Starting "nat list" Message bool
  | Finished

text \<open>
  Handlers are known by a number. \<open>im_sending\<close> are the publishers that passed the checks and
  wait in the select; \<open>im_executing\<close> the handler goroutines; \<open>im_closing\<close> a call of \<open>Close\<close> that
  waits for \<open>Stop\<close>. \<open>im_ctx\<close> is \<open>None\<close> for a nil context, else whether it is done.
\<close>

record imq =
  im_subscribers :: "nat list gomap"
  im_messages :: "Message list"
  im_chanClosed :: bool
  im_bufferSize :: nat
  im_maxWorkers :: nat
  im_running :: bool
  im_closed :: bool
  im_ctx :: "bool option"
  im_totalPublished :: int64
  im_totalDelivered :: int64
  im_totalErrors :: int64
  im_workerPool :: nat
  im_dispatcher :: dispatcher
  im_sending :: "Message list"
  im_executing :: "(nat \<times> Message) list"
  im_closing :: bool

record InMemoryQueueConfig =
  ic_BufferSize :: int
  ic_MaxWorkers :: int

definition DefaultInMemoryQueueConfig :: InMemoryQueueConfig where
  "DefaultInMemoryQueueConfig = \<lparr>ic_BufferSize = 1000, ic_MaxWorkers = 100\<rparr>"

definition NewInMemoryQueue :: "InMemoryQueueConfig \<Rightarrow> imq" where
  "NewInMemoryQueue config =
     (let bs = (if ic_BufferSize config \<le> 0 then 1000 else ic_BufferSize config);
          mw = (if ic_MaxWorkers config \<le> 0 then 100 else ic_MaxWorkers config)
      in \<lparr>im_subscribers = [], im_messages = [], im_chanClosed = False,
          im_bufferSize = nat bs, im_maxWorkers = nat mw, im_running = False, im_closed = False,
          im_ctx = None, im_totalPublished = 0, im_totalDelivered = 0, im_totalErrors = 0,
          im_workerPool = 0, im_dispatcher = NotStarted, im_sending = [], im_executing = [],
          im_closing = False\<rparr>)"

section \<open>Operations that are one step\<close>

definition handlers_of :: "imq \<Rightarrow> string \<Rightarrow> nat list" where
  "handlers_of q topic = (case map_of (im_subscribers q) topic of None \<Rightarrow> [] | Some hs \<Rightarrow> hs)"

definition im_Subscribe :: "string \<Rightarrow> nat \<Rightarrow> imq \<Rightarrow> error option \<times> imq" where
  "im_Subscribe topic handler q =
     (if im_closed q then (Some (Errorf ''queue is closed''), q)
      else (None, q\<lparr>im_subscribers := map_put topic (handlers_of q topic @ [handler]) (im_subscribers q)\<rparr>))"

definition im_Unsubscribe :: "string \<Rightarrow> imq \<Rightarrow> error option \<times> imq" where
  "im_Unsubscribe topic q = (None, q\<lparr>im_subscribers := map_del topic (im_subscribers q)\<rparr>)"

definition im_Stats :: "imq \<Rightarrow> QueueStats" where
  "im_Stats q = \<lparr>st_TotalPublished = im_totalPublished q, st_TotalDelivered = im_totalDelivered q,
     st_TotalErrors = im_totalErrors q, st_ActiveSubscribers = length (im_subscribers q),
     st_QueueDepth = length (im_messages q)\<rparr>"

text \<open>The checks at the start of \<open>Publish\<close> and of \<open>Start\<close>.\<close>

definition publish_check :: "imq \<Rightarrow> error option" where
  "publish_check q = (if im_closed q then Some (Errorf ''queue is closed'')
     else if \<not> im_running q then Some (Errorf ''queue is not started'') else None)"

definition start_check :: "imq \<Rightarrow> error option" where
  "start_check q = (if im_closed q then Some (Errorf ''queue is closed'')
     else if im_running q then Some (Errorf ''queue is already running'') else None)"

section \<open>Steps\<close>

datatype event =
    Silent
  | PublishRefused error
  | Published Message          \<comment> \<open>\<open>Publish\<close> returns nil\<close>
  | PublishPanicked panic
  | Taken Message              \<comment> \<open>the dispatcher takes a message from the channel\<close>
  | HandlerStarted nat Message
  | HandlerDone nat Message bool  \<comment> \<open>whether the handler returned nil\<close>
  | Stopped                    \<comment> \<open>\<open>Stop\<close> returns after its wait\<close>

definition resume :: "bool \<Rightarrow> dispatcher" where
  "resume draining = (if draining then Draining else Looping)"

inductive im_step :: "imq \<Rightarrow> event \<Rightarrow> imq \<Rightarrow> bool" where
  \<comment> \<open>\<open>Publish\<close>: the checks, then the select with its three cases\<close>
  publish_refused: "publish_check q = Some e \<Longrightarrow> im_step q (PublishRefused e) q"
| publish_checked: "publish_check q = None \<Longrightarrow> im_step q Silent (q\<lparr>im_sending := m # im_sending q\<rparr>)"
| publish_nil_ctx: "m \<in> set (im_sending q) \<Longrightarrow> im_ctx q = None \<Longrightarrow>
    im_step q (PublishPanicked NilDereference) (q\<lparr>im_sending := remove1 m (im_sending q)\<rparr>)"
| publish_sent: "m \<in> set (im_sending q) \<Longrightarrow> im_ctx q \<noteq> None \<Longrightarrow> \<not> im_chanClosed q \<Longrightarrow>
    length (im_messages q) < im_bufferSize q \<Longrightarrow>
    im_step q (Published m) (q\<lparr>im_sending := remove1 m (im_sending q), im_messages := im_messages q @ [m],
      im_totalPublished := im_totalPublished q + 1\<rparr>)"
| publish_on_closed: "m \<in> set (im_sending q) \<Longrightarrow> im_ctx q \<noteq> None \<Longrightarrow> im_chanClosed q \<Longrightarrow>
    im_step q (PublishPanicked SendOnClosedChannel) (q\<lparr>im_sending := remove1 m (im_sending q)\<rparr>)"
| publish_cancelled: "m \<in> set (im_sending q) \<Longrightarrow> im_ctx q \<noteq> None \<Longrightarrow>
    im_step q (PublishRefused (Wrapf ''publish cancelled'' e)) (q\<lparr>im_sending := remove1 m (im_sending q)\<rparr>)"
| publish_shutdown: "m \<in> set (im_sending q) \<Longrightarrow> im_ctx q = Some True \<Longrightarrow>
    im_step q (PublishRefused (Errorf ''queue is shutting down'')) (q\<lparr>im_sending := remove1 m (im_sending q)\<rparr>)"
  \<comment> \<open>\<open>Subscribe\<close> and \<open>Unsubscribe\<close>\<close>
| subscribe: "im_step q Silent (snd (im_Subscribe topic h q))"
| unsubscribe: "im_step q Silent (snd (im_Unsubscribe topic q))"
  \<comment> \<open>\<open>Start\<close>: the flag first, then the context and the dispatcher; the parent context may end\<close>
| start_flag: "start_check q = None \<Longrightarrow> im_dispatcher q \<in> {NotStarted, Finished} \<Longrightarrow>
    im_step q Silent (q\<lparr>im_running := True, im_dispatcher := NotStarted\<rparr>)"
| start_go: "im_running q \<Longrightarrow> im_dispatcher q = NotStarted \<Longrightarrow>
    im_step q Silent (q\<lparr>im_ctx := Some False, im_dispatcher := Looping\<rparr>)"
| parent_done: "im_ctx q = Some b \<Longrightarrow> im_step q Silent (q\<lparr>im_ctx := Some True\<rparr>)"
  \<comment> \<open>\<open>processMessages\<close> and \<open>drainMessages\<close>\<close>
| take_loop: "im_dispatcher q = Looping \<Longrightarrow> im_messages q = m # ms \<Longrightarrow>
    im_step q (Taken m) (q\<lparr>im_messages := ms, im_dispatcher := Got m False\<rparr>)"
| take_drain: "im_dispatcher q = Draining \<Longrightarrow> im_messages q = m # ms \<Longrightarrow>
    im_step q (Taken m) (q\<lparr>im_messages := ms, im_dispatcher := Got m True\<rparr>)"
| loop_closed: "im_dispatcher q = Looping \<Longrightarrow> im_messages q = [] \<Longrightarrow> im_chanClosed q \<Longrightarrow>
    im_step q Silent (q\<lparr>im_dispatcher := Finished\<rparr>)"
| loop_done: "im_dispatcher q = Looping \<Longrightarrow> im_ctx q = Some True \<Longrightarrow>
    im_step q Silent (q\<lparr>im_dispatcher := Draining\<rparr>)"
| drained: "im_dispatcher q = Draining \<Longrightarrow> im_messages q = [] \<Longrightarrow> im_step q Silent (q\<lparr>im_dispatcher := Finished\<rparr>)"
  \<comment> \<open>\<open>dispatchMessage\<close>\<close>
| look_up: "im_dispatcher q = Got m d \<Longrightarrow>
    im_step q Silent (q\<lparr>im_dispatcher := Starting (handlers_of q (msg_Topic m)) m d\<rparr>)"
| start_handler: "im_dispatcher q = Starting (h # hs) m d \<Longrightarrow> im_workerPool q < im_maxWorkers q \<Longrightarrow>
    im_step q (HandlerStarted h m) (q\<lparr>im_dispatcher := Starting hs m d, im_workerPool := im_workerPool q + 1,
      im_executing := (h, m) # im_executing q\<rparr>)"
| all_started: "im_dispatcher q = Starting [] m d \<Longrightarrow> im_step q Silent (q\<lparr>im_dispatcher := resume d\<rparr>)"
  \<comment> \<open>\<open>executeHandler\<close>: nil counts as delivered, an error or a panic as an error\<close>
| handler_ok: "(h, m) \<in> set (im_executing q) \<Longrightarrow>
    im_step q (HandlerDone h m True) (q\<lparr>im_executing := remove1 (h, m) (im_executing q),
      im_workerPool := im_workerPool q - 1, im_totalDelivered := im_totalDelivered q + 1\<rparr>)"
| handler_failed: "(h, m) \<in> set (im_executing q) \<Longrightarrow>
    im_step q (HandlerDone h m False) (q\<lparr>im_executing := remove1 (h, m) (im_executing q),
      im_workerPool := im_workerPool q - 1, im_totalErrors := im_totalErrors q + 1\<rparr>)"
  \<comment> \<open>\<open>Stop\<close>: cancel, wait for the dispatcher and the handlers, clear the flag\<close>
| stop_cancel: "im_running q \<Longrightarrow> im_ctx q = Some b \<Longrightarrow> im_step q Silent (q\<lparr>im_ctx := Some True\<rparr>)"
| stop_return: "im_running q \<Longrightarrow> im_ctx q = Some True \<Longrightarrow> im_dispatcher q = Finished \<Longrightarrow> im_executing q = [] \<Longrightarrow>
    im_step q Stopped (q\<lparr>im_running := False\<rparr>)"
  \<comment> \<open>\<open>Close\<close>: the flag first, \<open>Stop\<close>, then the channel\<close>
| close_flag: "\<not> im_closed q \<Longrightarrow> im_step q Silent (q\<lparr>im_closed := True, im_closing := True\<rparr>)"
| close_channel: "im_closing q \<Longrightarrow> \<not> im_running q \<Longrightarrow>
    im_step q Silent (q\<lparr>im_chanClosed := True, im_closing := False\<rparr>)"

section \<open>The steps as functions\<close>

text \<open>
  One goroutine at a time, with the function of the code that it is in: what its next operation does,
  or \<open>None\<close> where it would wait. Which of them goes on, and what the world tells it, is the action.
\<close>

datatype action =
    Calls_publish Message
  | Sends Message
  | Caller_cancelled Message error
  | Queue_cancelled Message
  | Calls_subscribe string nat
  | Calls_unsubscribe string
  | Calls_start
  | Goes_on_starting
  | Parent_done
  | Receives
  | Context_done
  | Dispatches
  | Handler_returns nat Message bool
  | Calls_stop
  | Stop_ends
  | Calls_close
  | Closes_channel

type_synonym step_result = "(event \<times> imq) option"

fun im_Publish :: "action \<Rightarrow> imq \<Rightarrow> step_result" where
  "im_Publish (Calls_publish m) q = (case publish_check q of
     Some e \<Rightarrow> Some (PublishRefused e, q)
   | None \<Rightarrow> Some (Silent, q\<lparr>im_sending := m # im_sending q\<rparr>))"
| "im_Publish (Sends m) q =
     (let q1 = q\<lparr>im_sending := remove1 m (im_sending q)\<rparr> in
      if m \<notin> set (im_sending q) then None
      else if im_ctx q = None then Some (PublishPanicked NilDereference, q1)
      else if im_chanClosed q then Some (PublishPanicked SendOnClosedChannel, q1)
      else if length (im_messages q) < im_bufferSize q
      then Some (Published m, q1\<lparr>im_messages := im_messages q @ [m], im_totalPublished := im_totalPublished q + 1\<rparr>)
      else None)"
| "im_Publish (Caller_cancelled m e) q =
     (if m \<in> set (im_sending q) \<and> im_ctx q \<noteq> None
      then Some (PublishRefused (Wrapf ''publish cancelled'' e), q\<lparr>im_sending := remove1 m (im_sending q)\<rparr>) else None)"
| "im_Publish (Queue_cancelled m) q =
     (if m \<in> set (im_sending q) \<and> im_ctx q = Some True
      then Some (PublishRefused (Errorf ''queue is shutting down''), q\<lparr>im_sending := remove1 m (im_sending q)\<rparr>) else None)"
| "im_Publish _ q = None"

fun im_Start :: "action \<Rightarrow> imq \<Rightarrow> step_result" where
  "im_Start Calls_start q =
     (if start_check q = None \<and> im_dispatcher q \<in> {NotStarted, Finished}
      then Some (Silent, q\<lparr>im_running := True, im_dispatcher := NotStarted\<rparr>) else None)"
| "im_Start Goes_on_starting q =
     (if im_running q \<and> im_dispatcher q = NotStarted
      then Some (Silent, q\<lparr>im_ctx := Some False, im_dispatcher := Looping\<rparr>) else None)"
| "im_Start _ q = None"

fun im_Stop :: "action \<Rightarrow> imq \<Rightarrow> step_result" where
  "im_Stop Calls_stop q =
     (if im_running q \<and> im_ctx q \<noteq> None then Some (Silent, q\<lparr>im_ctx := Some True\<rparr>) else None)"
| "im_Stop Stop_ends q =
     (if im_running q \<and> im_ctx q = Some True \<and> im_dispatcher q = Finished \<and> im_executing q = []
      then Some (Stopped, q\<lparr>im_running := False\<rparr>) else None)"
| "im_Stop _ q = None"

fun im_Close :: "action \<Rightarrow> imq \<Rightarrow> step_result" where
  "im_Close Calls_close q =
     (if im_closed q then None else Some (Silent, q\<lparr>im_closed := True, im_closing := True\<rparr>))"
| "im_Close Closes_channel q =
     (if im_closing q \<and> \<not> im_running q then Some (Silent, q\<lparr>im_chanClosed := True, im_closing := False\<rparr>) else None)"
| "im_Close _ q = None"

definition processMessages :: "action \<Rightarrow> imq \<Rightarrow> step_result" where
  "processMessages a q =
     (if im_dispatcher q \<noteq> Looping then None
      else if a = Receives
      then (case im_messages q of
              m # ms \<Rightarrow> Some (Taken m, q\<lparr>im_messages := ms, im_dispatcher := Got m False\<rparr>)
            | [] \<Rightarrow> if im_chanClosed q then Some (Silent, q\<lparr>im_dispatcher := Finished\<rparr>) else None)
      else if a = Context_done \<and> im_ctx q = Some True then Some (Silent, q\<lparr>im_dispatcher := Draining\<rparr>)
      else None)"

definition drainMessages :: "imq \<Rightarrow> step_result" where
  "drainMessages q =
     (if im_dispatcher q \<noteq> Draining then None
      else case im_messages q of
             m # ms \<Rightarrow> Some (Taken m, q\<lparr>im_messages := ms, im_dispatcher := Got m True\<rparr>)
           | [] \<Rightarrow> Some (Silent, q\<lparr>im_dispatcher := Finished\<rparr>))"

definition dispatchMessage :: "imq \<Rightarrow> step_result" where
  "dispatchMessage q = (case im_dispatcher q of
     Got m d \<Rightarrow> Some (Silent, q\<lparr>im_dispatcher := Starting (handlers_of q (msg_Topic m)) m d\<rparr>)
   | Starting (h # hs) m d \<Rightarrow>
       if im_workerPool q < im_maxWorkers q
       then Some (HandlerStarted h m, q\<lparr>im_dispatcher := Starting hs m d, im_workerPool := im_workerPool q + 1,
              im_executing := (h, m) # im_executing q\<rparr>)
       else None
   | Starting [] m d \<Rightarrow> Some (Silent, q\<lparr>im_dispatcher := resume d\<rparr>)
   | _ \<Rightarrow> None)"

definition executeHandler :: "nat \<Rightarrow> Message \<Rightarrow> bool \<Rightarrow> imq \<Rightarrow> step_result" where
  "executeHandler h m ok q =
     (let q1 = q\<lparr>im_executing := remove1 (h, m) (im_executing q), im_workerPool := im_workerPool q - 1\<rparr> in
      if (h, m) \<notin> set (im_executing q) then None
      else Some (HandlerDone h m ok,
        if ok then q1\<lparr>im_totalDelivered := im_totalDelivered q + 1\<rparr> else q1\<lparr>im_totalErrors := im_totalErrors q + 1\<rparr>))"

fun im_next :: "action \<Rightarrow> imq \<Rightarrow> step_result" where
  "im_next (Calls_subscribe topic h) q = Some (Silent, snd (im_Subscribe topic h q))"
| "im_next (Calls_unsubscribe topic) q = Some (Silent, snd (im_Unsubscribe topic q))"
| "im_next Calls_start q = im_Start Calls_start q"
| "im_next Goes_on_starting q = im_Start Goes_on_starting q"
| "im_next Parent_done q = (if im_ctx q = None then None else Some (Silent, q\<lparr>im_ctx := Some True\<rparr>))"
| "im_next Receives q = (if im_dispatcher q = Draining then drainMessages q else processMessages Receives q)"
| "im_next Context_done q = processMessages Context_done q"
| "im_next Dispatches q = dispatchMessage q"
| "im_next (Handler_returns h m ok) q = executeHandler h m ok q"
| "im_next Calls_stop q = im_Stop Calls_stop q"
| "im_next Stop_ends q = im_Stop Stop_ends q"
| "im_next Calls_close q = im_Close Calls_close q"
| "im_next Closes_channel q = im_Close Closes_channel q"
| "im_next a q = im_Publish a q"

lemmas im_next_defs = processMessages_def drainMessages_def dispatchMessage_def executeHandler_def Let_def

lemma im_next_step:
  assumes "im_next a q = Some (ev, q')"
  shows "im_step q ev q'"
  using assms
  by (cases a; auto simp: im_next_defs simp del: One_nat_def intro: im_step.intros
    split: if_splits option.splits list.splits dispatcher.splits)

lemma step_im_next:
  assumes "im_step q ev q'"
  shows "\<exists>a. im_next a q = Some (ev, q')"
  using assms
proof cases
  case publish_refused
  then show ?thesis by (intro exI [of _ "Calls_publish m" for m]) (simp add: im_next_defs)
next
  case (publish_checked m)
  then show ?thesis by (intro exI [of _ "Calls_publish m"]) (simp add: im_next_defs)
next
  case (publish_nil_ctx m)
  then show ?thesis by (intro exI [of _ "Sends m"]) (simp add: im_next_defs)
next
  case (publish_sent m)
  then show ?thesis by (intro exI [of _ "Sends m"]) (simp add: im_next_defs)
next
  case (publish_on_closed m)
  then show ?thesis by (intro exI [of _ "Sends m"]) (simp add: im_next_defs)
next
  case (publish_cancelled m e)
  then show ?thesis by (intro exI [of _ "Caller_cancelled m e"]) (simp add: im_next_defs)
next
  case (publish_shutdown m)
  then show ?thesis by (intro exI [of _ "Queue_cancelled m"]) (simp add: im_next_defs)
next
  case (subscribe topic h)
  then show ?thesis by (intro exI [of _ "Calls_subscribe topic h"]) (simp add: im_next_defs)
next
  case (unsubscribe topic)
  then show ?thesis by (intro exI [of _ "Calls_unsubscribe topic"]) (simp add: im_next_defs)
next
  case start_flag
  then show ?thesis by (intro exI [of _ Calls_start]) (simp add: im_next_defs)
next
  case start_go
  then show ?thesis by (intro exI [of _ Goes_on_starting]) (simp add: im_next_defs)
next
  case (parent_done b)
  then show ?thesis by (intro exI [of _ Parent_done]) (simp add: im_next_defs)
next
  case (take_loop m ms)
  then show ?thesis by (intro exI [of _ Receives]) (simp add: im_next_defs)
next
  case (take_drain m ms)
  then show ?thesis by (intro exI [of _ Receives]) (simp add: im_next_defs)
next
  case loop_closed
  then show ?thesis by (intro exI [of _ Receives]) (simp add: im_next_defs)
next
  case loop_done
  then show ?thesis by (intro exI [of _ Context_done]) (simp add: im_next_defs)
next
  case drained
  then show ?thesis by (intro exI [of _ Receives]) (simp add: im_next_defs)
next
  case (look_up m d)
  then show ?thesis by (intro exI [of _ Dispatches]) (simp add: im_next_defs)
next
  case (start_handler h hs m d)
  then show ?thesis by (intro exI [of _ Dispatches]) (simp add: im_next_defs)
next
  case (all_started m d)
  then show ?thesis by (intro exI [of _ Dispatches]) (simp add: im_next_defs)
next
  case (handler_ok h m)
  then show ?thesis by (intro exI [of _ "Handler_returns h m True"]) (simp add: im_next_defs)
next
  case (handler_failed h m)
  then show ?thesis by (intro exI [of _ "Handler_returns h m False"]) (simp add: im_next_defs)
next
  case (stop_cancel b)
  then show ?thesis by (intro exI [of _ Calls_stop]) (simp add: im_next_defs)
next
  case stop_return
  then show ?thesis by (intro exI [of _ Stop_ends]) (simp add: im_next_defs)
next
  case close_flag
  then show ?thesis by (intro exI [of _ Calls_close]) (simp add: im_next_defs)
next
  case close_channel
  then show ?thesis by (intro exI [of _ Closes_channel]) (simp add: im_next_defs)
qed

lemma im_step_iff: "im_step q ev q' \<longleftrightarrow> (\<exists>a. im_next a q = Some (ev, q'))"
  using im_next_step step_im_next by blast

text \<open>Runs from a new queue, with their events in order.\<close>

inductive im_run :: "InMemoryQueueConfig \<Rightarrow> event list \<Rightarrow> imq \<Rightarrow> bool" for config where
  new: "im_run config [] (NewInMemoryQueue config)"
| step: "im_run config evs q \<Longrightarrow> im_step q ev q' \<Longrightarrow> im_run config (evs @ [ev]) q'"

text \<open>Runs by their actions.\<close>

fun im_exec :: "action list \<Rightarrow> imq \<Rightarrow> (event list \<times> imq) option" where
  "im_exec [] q = Some ([], q)"
| "im_exec (a # as) q = (case im_next a q of
     None \<Rightarrow> None
   | Some (ev, q1) \<Rightarrow> map_option (\<lambda>(evs, q2). (ev # evs, q2)) (im_exec as q1))"

lemma im_exec_run:
  assumes "im_run config evs0 q" and "im_exec as q = Some (evs, q')"
  shows "im_run config (evs0 @ evs) q'"
  using assms
proof (induction as arbitrary: evs0 evs q)
  case (Cons a as)
  then obtain ev q1 evs1 where s: "im_next a q = Some (ev, q1)" "im_exec as q1 = Some (evs1, q')" "evs = ev # evs1"
    by (auto split: option.splits)
  from Cons.IH [OF im_run.step [OF Cons.prems(1) im_next_step [OF s(1)]] s(2)] s(3) show ?case by simp
qed simp


inductive_cases im_step_PublishedE: "im_step q (Published m) q'"
inductive_cases im_step_TakenE: "im_step q (Taken m) q'"

section \<open>What the events say\<close>

definition published :: "event list \<Rightarrow> Message list" where
  "published evs = List.map_filter (\<lambda>ev. case ev of Published m \<Rightarrow> Some m | _ \<Rightarrow> None) evs"

definition taken :: "event list \<Rightarrow> Message list" where
  "taken evs = List.map_filter (\<lambda>ev. case ev of Taken m \<Rightarrow> Some m | _ \<Rightarrow> None) evs"

definition started :: "event list \<Rightarrow> (nat \<times> Message) list" where
  "started evs = List.map_filter (\<lambda>ev. case ev of HandlerStarted h m \<Rightarrow> Some (h, m) | _ \<Rightarrow> None) evs"

definition handled :: "event list \<Rightarrow> (nat \<times> Message) list" where
  "handled evs = List.map_filter (\<lambda>ev. case ev of HandlerDone h m b \<Rightarrow> Some (h, m) | _ \<Rightarrow> None) evs"

definition results :: "bool \<Rightarrow> event list \<Rightarrow> nat" where
  "results b evs = length (filter (\<lambda>ev. case ev of HandlerDone h m b' \<Rightarrow> b' = b | _ \<Rightarrow> False) evs)"

lemma events_Nil [simp]: "published [] = []" "taken [] = []" "started [] = []" "handled [] = []" "results b [] = 0"
  by (simp_all add: published_def taken_def started_def handled_def results_def List.map_filter_def)

lemma events_snoc [simp]:
  "published (evs @ [ev]) = published evs @ (case ev of Published m \<Rightarrow> [m] | _ \<Rightarrow> [])"
  "taken (evs @ [ev]) = taken evs @ (case ev of Taken m \<Rightarrow> [m] | _ \<Rightarrow> [])"
  "started (evs @ [ev]) = started evs @ (case ev of HandlerStarted h m \<Rightarrow> [(h, m)] | _ \<Rightarrow> [])"
  "handled (evs @ [ev]) = handled evs @ (case ev of HandlerDone h m b \<Rightarrow> [(h, m)] | _ \<Rightarrow> [])"
  "results b (evs @ [ev]) = results b evs + (case ev of HandlerDone h m b' \<Rightarrow> (if b' = b then 1 else 0) | _ \<Rightarrow> 0)"
  by (auto simp: published_def taken_def started_def handled_def results_def List.map_filter_def split: event.splits)

lemma im_Subscribe_sel [simp]:
  "im_messages (snd (im_Subscribe t h q)) = im_messages q" "im_executing (snd (im_Subscribe t h q)) = im_executing q"
  "im_bufferSize (snd (im_Subscribe t h q)) = im_bufferSize q" "im_maxWorkers (snd (im_Subscribe t h q)) = im_maxWorkers q"
  "im_workerPool (snd (im_Subscribe t h q)) = im_workerPool q" "im_totalPublished (snd (im_Subscribe t h q)) = im_totalPublished q"
  "im_totalDelivered (snd (im_Subscribe t h q)) = im_totalDelivered q" "im_totalErrors (snd (im_Subscribe t h q)) = im_totalErrors q"
  "im_dispatcher (snd (im_Subscribe t h q)) = im_dispatcher q" "im_ctx (snd (im_Subscribe t h q)) = im_ctx q"
  "im_running (snd (im_Subscribe t h q)) = im_running q" "im_closed (snd (im_Subscribe t h q)) = im_closed q"
  "im_chanClosed (snd (im_Subscribe t h q)) = im_chanClosed q" "im_closing (snd (im_Subscribe t h q)) = im_closing q"
  "im_sending (snd (im_Subscribe t h q)) = im_sending q"
  by (simp_all add: im_Subscribe_def)

section \<open>Invariants\<close>

lemma im_run_fifo: "im_run config evs q \<Longrightarrow> taken evs @ im_messages q = published evs"
proof (induction rule: im_run.induct)
  case new
  then show ?case by (simp add: NewInMemoryQueue_def Let_def)
next
  case (step evs q ev q')
  from step.hyps(2) step.IH show ?case by cases (auto simp: im_Unsubscribe_def)
qed

lemma im_run_bounds: "im_run config evs q \<Longrightarrow> length (im_messages q) \<le> im_bufferSize q
    \<and> im_workerPool q = length (im_executing q) \<and> im_workerPool q \<le> im_maxWorkers q"
proof (induction rule: im_run.induct)
  case new
  then show ?case by (simp add: NewInMemoryQueue_def Let_def)
next
  case (step evs q ev q')
  from step.hyps(2) step.IH show ?case
    by cases (auto simp: im_Unsubscribe_def length_remove1 length_pos_if_in_set)
qed

lemma im_run_counters: "im_run config evs q \<Longrightarrow> im_totalPublished q = of_nat (length (published evs))
    \<and> im_totalDelivered q = of_nat (results True evs) \<and> im_totalErrors q = of_nat (results False evs)"
proof (induction rule: im_run.induct)
  case new
  then show ?case by (simp add: NewInMemoryQueue_def Let_def)
next
  case (step evs q ev q')
  from step.hyps(2) step.IH show ?case by cases (auto simp: im_Unsubscribe_def)
qed

lemma im_run_started: "im_run config evs q \<Longrightarrow> mset (started evs) = mset (handled evs) + mset (im_executing q)"
proof (induction rule: im_run.induct)
  case new
  then show ?case by (simp add: NewInMemoryQueue_def Let_def)
next
  case (step evs q ev q')
  from step.hyps(2) step.IH show ?case by cases (auto simp: im_Unsubscribe_def)
qed

text \<open>
  The dispatcher serves the messages in the order in which it takes them: a handler is started
  for a message that was taken, and a message is taken only after all handlers of the one
  before were started.
\<close>

lemma im_run_taken_started: "im_run config evs q \<Longrightarrow> snd ` set (started evs) \<subseteq> set (taken evs)
    \<and> (\<forall>m d. im_dispatcher q = Got m d \<longrightarrow> m \<in> set (taken evs))
    \<and> (\<forall>hs m d. im_dispatcher q = Starting hs m d \<longrightarrow> m \<in> set (taken evs))"
proof (induction rule: im_run.induct)
  case new
  then show ?case by (simp add: NewInMemoryQueue_def Let_def)
next
  case (step evs q ev q')
  from step.hyps(2) step.IH show ?case
    by cases (auto simp: im_Unsubscribe_def resume_def)
qed

lemma im_run_workers: "im_run config evs q \<Longrightarrow> 1 \<le> im_maxWorkers q"
proof (induction rule: im_run.induct)
  case new
  then show ?case by (simp add: NewInMemoryQueue_def Let_def Suc_le_eq)
next
  case (step evs q ev q')
  from step.hyps(2) step.IH show ?case by cases (auto simp: im_Unsubscribe_def)
qed

lemma handler_goes_on:
  assumes "im_executing q \<noteq> []"
  shows "\<exists>ev q'. im_step q ev q' \<and> length (im_executing q') < length (im_executing q)"
proof -
  obtain h m where hm: "(h, m) \<in> set (im_executing q)" using assms by (cases "im_executing q") auto
  then have "length (remove1 (h, m) (im_executing q)) < length (im_executing q)"
    using assms by (simp add: length_remove1)
  then show ?thesis using im_step.handler_ok [OF hm] by fastforce
qed

lemma dispatcher_goes_on:
  assumes "im_run config evs q" and "im_ctx q = Some True" and "im_dispatcher q \<notin> {NotStarted, Finished}"
    and "im_executing q = []"
  shows "\<exists>ev q'. im_step q ev q' \<and> im_dispatcher q' \<noteq> im_dispatcher q"
proof (cases "im_dispatcher q")
  case Looping
  then show ?thesis using im_step.loop_done [OF _ assms(2)] by fastforce
next
  case Draining
  then show ?thesis using im_step.drained [of q] im_step.take_drain [of q] by (cases "im_messages q") fastforce+
next
  case (Got m d)
  then show ?thesis using im_step.look_up [OF Got] by fastforce
next
  case (Starting hs m d)
  have "im_workerPool q < im_maxWorkers q"
    using im_run_bounds [OF assms(1)] im_run_workers [OF assms(1)] assms(4) by simp
  then have "\<exists>ev q'. dispatchMessage q = Some (ev, q') \<and> im_dispatcher q' \<noteq> im_dispatcher q"
    using Starting by (cases hs) (auto simp: dispatchMessage_def resume_def)
  then show ?thesis using im_next_step [of Dispatches q] by auto
qed (use assms(3) in simp_all)

section \<open>Properties\<close>

text \<open>A run for the witnesses: a handler subscribes, a message is published, taken and handled, the
  queue stops.\<close>

definition note_message :: Message where
  "note_message = \<lparr>msg_ID = ''m1'', msg_Topic = ''t'', msg_Payload = Raw (Json JNull),
     msg_Headers = None, msg_Timestamp = \<lparr>t_ns = 0, t_off = 0\<rparr>, msg_Metadata = None\<rparr>"

definition full_actions :: "action list" where
  "full_actions = [Calls_subscribe ''t'' 0, Calls_start, Goes_on_starting, Calls_publish note_message, Sends note_message,
     Receives, Dispatches, Dispatches, Dispatches, Calls_stop, Context_done, Handler_returns 0 note_message True, Receives]"

definition full_run :: "event list" where
  "full_run = [Silent, Silent, Silent, Silent, Published note_message, Taken note_message, Silent,
     HandlerStarted 0 note_message, Silent, Silent, Silent, HandlerDone 0 note_message True, Silent]"

lemma full_exec: "map_option fst (im_exec (full_actions @ [Stop_ends]) (NewInMemoryQueue DefaultInMemoryQueueConfig)) = Some (full_run @ [Stopped])"
  by code_simp

lemma full_run_runs: "\<exists>q. im_run DefaultInMemoryQueueConfig (full_run @ [Stopped]) q"
  using full_exec im_exec_run [OF im_run.new] by fastforce

text \<open>C13. In every run of the queue in memory, whatever publishers, handlers and callers of \<open>Stop\<close> and \<open>Close\<close>
  do: the dispatcher takes the messages whose \<open>Publish\<close> returned nil in the order of their publication,
  each once, and the channel holds exactly those it has not taken.\<close>

theorem queue_is_fifo:
  assumes "im_run config evs q"
  shows "taken evs @ im_messages q = published evs"
  using assms by (rule im_run_fifo)

theorem queue_is_fifo_witness:
  "\<exists>q :: imq. taken (full_run @ [Stopped]) @ im_messages q = [note_message]"
proof -
  obtain q where "im_run DefaultInMemoryQueueConfig (full_run @ [Stopped]) q" using full_run_runs by blast
  then have "taken (full_run @ [Stopped]) @ im_messages q = published (full_run @ [Stopped])"
    by (rule queue_is_fifo)
  moreover have "published (full_run @ [Stopped]) = [note_message]"
    by (simp add: full_run_def published_def List.map_filter_def)
  ultimately have "taken (full_run @ [Stopped]) @ im_messages q = [note_message]" by (simp only:)
  then show ?thesis by blast
qed





text \<open>The beginning the two races share: a publisher has passed its checks, the queue closes and has drained.\<close>

definition closing_actions :: "Message \<Rightarrow> action list" where
  "closing_actions m = [Calls_start, Goes_on_starting, Calls_publish m, Calls_close, Calls_stop, Context_done, Receives]"

lemmas run_simps = im_next_defs NewInMemoryQueue_def start_check_def publish_check_def closing_actions_def

lemma message_lost:
  fixes m :: Message
  shows
  "\<exists>evs q. im_run config evs q \<and> published evs = [m :: Message] \<and> taken evs = [] \<and> Stopped \<in> set evs
     \<and> im_chanClosed q \<and> im_dispatcher q = Finished"
proof -
  have [simp]: "0 < (if ic_BufferSize config \<le> 0 then 1000 else ic_BufferSize config)" by simp
  obtain evs q where r: "im_exec (closing_actions (m :: Message) @ [Sends m, Stop_ends, Closes_channel]) (NewInMemoryQueue config) = Some (evs, q)"
    "evs = replicate 7 Silent @ [Published m, Stopped, Silent]" "im_chanClosed q" "im_dispatcher q = Finished"
    by (simp add: run_simps numeral_eq_Suc del: not_None_eq)
  then have "published evs = [m] \<and> taken evs = [] \<and> Stopped \<in> set evs"
    by (simp add: published_def taken_def List.map_filter_def numeral_eq_Suc)
  with r(3,4) im_exec_run [OF im_run.new r(1)] show ?thesis by auto
qed

lemma send_panics: "\<exists>evs q. im_run config (evs @ [PublishPanicked SendOnClosedChannel]) q"
proof -
  obtain evs q where r: "im_exec (closing_actions note_message @ [Stop_ends, Closes_channel, Sends note_message]) (NewInMemoryQueue config) = Some (evs, q)"
    "evs = (replicate 7 Silent @ [Stopped, Silent]) @ [PublishPanicked SendOnClosedChannel]"
    by (simp add: run_simps numeral_eq_Suc del: not_None_eq)
  from im_exec_run [OF im_run.new r(1)] show ?thesis unfolding r(2) append_Nil by blast
qed

text \<open>Two races of the shutdown. A \<open>Publish\<close> that passed its checks before \<open>Close\<close> can return nil after the
  last drain, and its message is then never taken; or it can send on the closed channel and panic.\<close>

theorem shutdown_races:
  "(\<exists>evs q. im_run config evs q \<and> published evs = [m] \<and> taken evs = [] \<and> Stopped \<in> set evs
      \<and> im_chanClosed q \<and> im_dispatcher q = Finished)
   \<and> (\<exists>evs q. im_run config (evs @ [PublishPanicked SendOnClosedChannel]) q)"
  by (intro conjI message_lost send_panics)

end
