(* ===== verification/Subscriptions.thy ===== *)
theory Subscriptions
  imports Prelude
begin

text \<open>
  The life of the subscriptions of \<open>internal/mq/http_queue_client.go\<close>: \<open>Subscribe\<close> starts a polling
  goroutine under a context derived from its caller's, \<open>Unsubscribe\<close> cancels it and waits for it,
  \<open>Shutdown\<close> cancels the client's own context and waits for all of them.
\<close>

section \<open>State\<close>

text \<open>
  A goroutine knows the context its subscription was made under (by a number), whether it was
  cancelled, and whether it has closed its \<open>doneChan\<close>.
\<close>

record poller =
  po_topic :: string
  po_parent :: nat
  po_cancelled :: bool
  po_finished :: bool

text \<open>
  The subscriptions by topic are indexes of goroutines; \<open>sb_done\<close> are the caller contexts that are
  done; \<open>sb_ctxDone\<close> says whether the client's own context is. \<open>sb_checked\<close> are the callers of \<open>Subscribe\<close>
  that found no subscription and have released the lock.
\<close>

record subs =
  sb_subscriptions :: "nat gomap"
  sb_pollers :: "poller list"
  sb_done :: "nat list"
  sb_ctxDone :: bool
  sb_checked :: "(string \<times> nat) list"

definition new_subs :: subs where
  "new_subs = \<lparr>sb_subscriptions = [], sb_pollers = [], sb_done = [], sb_ctxDone = False, sb_checked = []\<rparr>"

section \<open>Operations\<close>

definition subscribe_check :: "string \<Rightarrow> subs \<Rightarrow> error option" where
  "subscribe_check topic s =
     (if map_of (sb_subscriptions s) topic \<noteq> None then Some (Errorf (''already subscribed to topic: '' @ topic)) else None)"

definition subscribe_insert :: "string \<Rightarrow> nat \<Rightarrow> subs \<Rightarrow> subs" where
  "subscribe_insert topic parent s = s\<lparr>
     sb_subscriptions := map_put topic (length (sb_pollers s)) (sb_subscriptions s),
     sb_pollers := sb_pollers s @ [\<lparr>po_topic = topic, po_parent = parent, po_cancelled = False, po_finished = False\<rparr>],
     sb_checked := remove1 (topic, parent) (sb_checked s)\<rparr>"

text \<open>A call of \<open>Subscribe\<close> that no other call overtakes.\<close>

definition client_Subscribe :: "string \<Rightarrow> nat \<Rightarrow> subs \<Rightarrow> error option \<times> subs" where
  "client_Subscribe topic parent s =
     (case subscribe_check topic s of Some e \<Rightarrow> (Some e, s) | None \<Rightarrow> (None, subscribe_insert topic parent s))"

definition set_poller :: "nat \<Rightarrow> (poller \<Rightarrow> poller) \<Rightarrow> subs \<Rightarrow> subs" where
  "set_poller i f s = s\<lparr>sb_pollers := (sb_pollers s)[i := f (sb_pollers s ! i)]\<rparr>"

text \<open>\<open>Unsubscribe\<close> up to its wait; the result names the goroutine it waits for.\<close>

definition client_Unsubscribe :: "string \<Rightarrow> subs \<Rightarrow> (error + nat) \<times> subs" where
  "client_Unsubscribe topic s =
     (case map_of (sb_subscriptions s) topic of
        None \<Rightarrow> (Inl (Errorf ''not subscribed to topic''), s)
      | Some i \<Rightarrow> (Inr i, set_poller i (\<lambda>p. p\<lparr>po_cancelled := True\<rparr>)
          (s\<lparr>sb_subscriptions := map_del topic (sb_subscriptions s)\<rparr>)))"

text \<open>\<open>Shutdown\<close> up to its wait, and what it waits for.\<close>

definition shutdown_begin :: "subs \<Rightarrow> nat list \<times> subs" where
  "shutdown_begin s = (map snd (sb_subscriptions s), s\<lparr>sb_ctxDone := True\<rparr>)"

definition shutdown_may_return :: "nat list \<Rightarrow> subs \<Rightarrow> bool" where
  "shutdown_may_return is s \<longleftrightarrow> (\<forall>i \<in> set is. po_finished (sb_pollers s ! i))"

section \<open>Steps\<close>

datatype action =
    Checks string nat        \<comment> \<open>the first half of \<open>Subscribe\<close>\<close>
  | Inserts string nat       \<comment> \<open>the second half\<close>
  | Unsubscribes string
  | ContextDone nat          \<comment> \<open>a caller's context ends\<close>
  | Shutdowns
  | Finishes nat             \<comment> \<open>a goroutine sees its context done\<close>

inductive sub_step :: "subs \<Rightarrow> action \<Rightarrow> subs \<Rightarrow> bool" where
  checks: "subscribe_check topic s = None \<Longrightarrow>
    sub_step s (Checks topic n) (s\<lparr>sb_checked := (topic, n) # sb_checked s\<rparr>)"
| inserts: "(topic, n) \<in> set (sb_checked s) \<Longrightarrow> sub_step s (Inserts topic n) (subscribe_insert topic n s)"
| unsubscribes: "client_Unsubscribe topic s = (Inr i, s') \<Longrightarrow> sub_step s (Unsubscribes topic) s'"
| context_done: "sub_step s (ContextDone n) (s\<lparr>sb_done := n # sb_done s\<rparr>)"
| shutdowns: "shutdown_begin s = (is, s') \<Longrightarrow> sub_step s Shutdowns s'"
| finishes: "i < length (sb_pollers s) \<Longrightarrow> p = sb_pollers s ! i \<Longrightarrow>
    po_cancelled p \<or> po_parent p \<in> set (sb_done s) \<Longrightarrow>
    sub_step s (Finishes i) (set_poller i (\<lambda>p. p\<lparr>po_finished := True\<rparr>) s)"

inductive_cases sub_stepE: "sub_step s a s'"

inductive sub_run :: "subs \<Rightarrow> action list \<Rightarrow> subs \<Rightarrow> bool" where
  sub_nil: "sub_run s [] s"
| sub_cons: "sub_step s a s1 \<Longrightarrow> sub_run s1 as s' \<Longrightarrow> sub_run s (a # as) s'"

section \<open>Invariants\<close>

text \<open>Every subscription is a goroutine of its topic, and distinct topics have distinct goroutines.\<close>

definition subs_ok :: "subs \<Rightarrow> bool" where
  "subs_ok s \<longleftrightarrow> map_ok (sb_subscriptions s)
     \<and> (\<forall>t i. map_of (sb_subscriptions s) t = Some i \<longrightarrow>
          i < length (sb_pollers s) \<and> po_topic (sb_pollers s ! i) = t \<and> \<not> po_cancelled (sb_pollers s ! i))"

lemma set_poller_sel [simp]:
  "sb_subscriptions (set_poller i f s) = sb_subscriptions s" "length (sb_pollers (set_poller i f s)) = length (sb_pollers s)"
  "sb_done (set_poller i f s) = sb_done s"
  by (simp_all add: set_poller_def)

lemma set_poller_nth [simp]:
  "i < length (sb_pollers s) \<Longrightarrow> sb_pollers (set_poller i f s) ! j = (if j = i then f (sb_pollers s ! i) else sb_pollers s ! j)"
  by (simp add: set_poller_def nth_list_update)

lemma sub_step_ok: "sub_step s a s' \<Longrightarrow> subs_ok s \<Longrightarrow> subs_ok s'"
proof (induction rule: sub_step.induct)
  case (inserts topic n s)
  then show ?case by (auto simp: subs_ok_def subscribe_insert_def nth_append intro: less_SucI split: if_splits)
next
  case (unsubscribes topic s i s')
  then have i: "map_of (sb_subscriptions s) topic = Some i"
    and s': "s' = set_poller i (\<lambda>p. p\<lparr>po_cancelled := True\<rparr>) (s\<lparr>sb_subscriptions := map_del topic (sb_subscriptions s)\<rparr>)"
    by (auto simp: client_Unsubscribe_def split: option.splits)
  have "i < length (sb_pollers s)" "po_topic (sb_pollers s ! i) = topic"
    using unsubscribes.prems i by (auto simp: subs_ok_def)
  then show ?case using unsubscribes.prems unfolding s' by (auto simp: subs_ok_def)
qed (auto simp: subs_ok_def shutdown_begin_def)

lemma sub_step_length: "sub_step s a s' \<Longrightarrow> length (sb_pollers s) \<le> length (sb_pollers s')"
  by (induction rule: sub_step.induct)
     (auto simp: subscribe_insert_def client_Unsubscribe_def shutdown_begin_def split: option.splits)

text \<open>
  A goroutine runs on as long as nothing unsubscribes its topic and its caller's context is live;
  the client's own context does not reach it.
\<close>

definition runs_on :: "nat \<Rightarrow> subs \<Rightarrow> bool" where
  "runs_on i s \<longleftrightarrow> i < length (sb_pollers s) \<and> \<not> po_cancelled (sb_pollers s ! i)
     \<and> \<not> po_finished (sb_pollers s ! i) \<and> po_parent (sb_pollers s ! i) \<notin> set (sb_done s)"

lemma sub_step_runs_on:
  assumes "sub_step s a s'" and "subs_ok s" and "runs_on i s"
    and "a \<noteq> Unsubscribes (po_topic (sb_pollers s ! i))" and "a \<noteq> ContextDone (po_parent (sb_pollers s ! i))"
  shows "runs_on i s' \<and> po_topic (sb_pollers s' ! i) = po_topic (sb_pollers s ! i)
    \<and> po_parent (sb_pollers s' ! i) = po_parent (sb_pollers s ! i)"
  using assms
proof (induction rule: sub_step.induct)
  case (inserts topic n s)
  then show ?case by (auto simp: runs_on_def subscribe_insert_def nth_append)
next
  case (unsubscribes topic s j s')
  then have j: "map_of (sb_subscriptions s) topic = Some j"
    and s': "s' = set_poller j (\<lambda>p. p\<lparr>po_cancelled := True\<rparr>) (s\<lparr>sb_subscriptions := map_del topic (sb_subscriptions s)\<rparr>)"
    by (auto simp: client_Unsubscribe_def split: option.splits)
  have "j < length (sb_pollers s)" "po_topic (sb_pollers s ! j) = topic"
    using unsubscribes.prems j by (auto simp: subs_ok_def)
  then show ?case using unsubscribes.prems unfolding s' by (auto simp: runs_on_def)
next
  case (finishes j s p)
  then show ?case by (auto simp: runs_on_def)
qed (auto simp: runs_on_def shutdown_begin_def)

lemma sub_run_runs_on:
  assumes "sub_run s as s'" and "subs_ok s" and "runs_on i s"
    and "Unsubscribes (po_topic (sb_pollers s ! i)) \<notin> set as" and "ContextDone (po_parent (sb_pollers s ! i)) \<notin> set as"
  shows "runs_on i s'"
  using assms
proof (induction rule: sub_run.induct)
  case (sub_nil s)
  then show ?case by simp
next
  case (sub_cons s a s1 as s')
  have "runs_on i s1 \<and> po_topic (sb_pollers s1 ! i) = po_topic (sb_pollers s ! i)
      \<and> po_parent (sb_pollers s1 ! i) = po_parent (sb_pollers s ! i)"
    using sub_cons.prems by (intro sub_step_runs_on [OF sub_cons.hyps(1)]) auto
  with sub_cons.prems sub_cons.IH sub_step_ok [OF sub_cons.hyps(1)] show ?case by simp
qed

section \<open>Properties\<close>


definition one_subscription :: subs where
  "one_subscription = snd (client_Subscribe ''telemetry'' 7 new_subs)"


text \<open>Two overlapping calls of \<open>Subscribe\<close> for one topic can both succeed, since the lock is released
  between the check and the insertion: both start a goroutine, and only the second can be unsubscribed.\<close>

theorem subscribe_race:
  "\<exists>s. sub_run new_subs [Checks t n, Checks t n', Inserts t n, Inserts t n'] s
     \<and> length (sb_pollers s) = 2 \<and> \<not> po_finished (sb_pollers s ! 0) \<and> \<not> po_finished (sb_pollers s ! 1)
     \<and> sb_subscriptions s = [(t, 1)]"
proof -
  define s1 where "s1 = new_subs\<lparr>sb_checked := [(t, n)]\<rparr>"
  define s2 where "s2 = s1\<lparr>sb_checked := [(t, n'), (t, n)]\<rparr>"
  define s3 where "s3 = subscribe_insert t n s2"
  define s4 where "s4 = subscribe_insert t n' s3"
  note defs = s1_def s2_def s3_def s4_def new_subs_def subscribe_insert_def
  have "sub_step new_subs (Checks t n) s1"
    using sub_step.checks [of t new_subs n] by (simp add: subscribe_check_def s1_def new_subs_def)
  moreover have "sub_step s1 (Checks t n') s2"
    using sub_step.checks [of t s1 n'] by (simp add: subscribe_check_def s2_def s1_def new_subs_def)
  moreover have "sub_step s2 (Inserts t n) s3"
    unfolding s3_def by (rule sub_step.inserts) (simp add: s2_def)
  moreover have "(t, n') \<in> set (sb_checked s3)"
    by (cases "n = n'") (simp_all add: defs)
  then have "sub_step s3 (Inserts t n') s4" unfolding s4_def by (rule sub_step.inserts)
  ultimately have "sub_run new_subs [Checks t n, Checks t n', Inserts t n, Inserts t n'] s4"
    by (blast intro: sub_run.intros)
  moreover have "length (sb_pollers s4) = 2" "\<not> po_finished (sb_pollers s4 ! 0)" "\<not> po_finished (sb_pollers s4 ! 1)"
    "sb_subscriptions s4 = [(t, 1)]"
    by (simp_all add: defs)
  ultimately show ?thesis by blast
qed

end
