(* ===== verification/Csv.thy ===== *)
theory Csv
  imports GoText
begin

text \<open>
  Go's \<open>encoding/csv\<close> reader as the parser uses it: comma separated, \<open>TrimLeadingSpace\<close>, no comments,
  no lazy quotes, and as many fields in every record as in the first. The input is the list of
  its lines and the error that follows them, if the file cannot be read to its end; the positions
  in parse errors are left out.
\<close>

section \<open>Lines\<close>

definition LF :: char where "LF = CHR 0x0A"
definition CR :: char where "CR = CHR 0x0D"
definition QUOTE :: char where "QUOTE = CHR 0x22"
definition COMMA :: char where "COMMA = CHR '',''"

fun raw_lines :: "string \<Rightarrow> string list" where
  "raw_lines [] = []"
| "raw_lines (c # cs) =
     (if c = LF then [c] # raw_lines cs
      else (case raw_lines cs of [] \<Rightarrow> [[c]] | l # ls \<Rightarrow> (c # l) # ls))"

text \<open>\<open>readLine\<close>: a carriage return before the line feed, or at the end of the file, is dropped.\<close>

definition normalize_line :: "string \<Rightarrow> string" where
  "normalize_line l =
     (if HasSuffix l [CR, LF] then take (length l - 2) l @ [LF]
      else if HasSuffix l [CR] then take (length l - 1) l else l)"

definition csv_lines :: "string \<Rightarrow> string list" where
  "csv_lines text = map normalize_line (raw_lines text)"

definition lengthNL :: "string \<Rightarrow> nat" where
  "lengthNL l = (if l \<noteq> [] \<and> last l = LF then 1 else 0)"

section \<open>A record\<close>

record csv_reader =
  cr_lines :: "string list"
  cr_ioError :: "error option"
  cr_FieldsPerRecord :: nat

definition ErrQuote :: error where "ErrQuote = Errorf ''parse error: extraneous or missing quote in quoted-field''"
definition ErrBareQuote :: error where "ErrBareQuote = Errorf ''parse error: bare quote in non-quoted-field''"
definition ErrFieldCount :: error where "ErrFieldCount = Errorf ''wrong number of fields''"

lemma strip_left_length: "length (strip_left ps s) \<le> length s"
proof (induction ps s rule: strip_left.induct)
  case (1 ps s)
  then show ?case by (subst strip_left.simps) (auto intro: order_trans)
qed

lemma drop_dropWhile_length:
  "x \<in> set l \<Longrightarrow> length (drop 1 (dropWhile (\<lambda>y. y \<noteq> x) l)) < length l"
  by (induction l) auto

text \<open>
  The fields of a record from the rest of its line, with the fields collected so far and the lines
  that follow: \<open>parse_fields\<close> is at the start of a field, \<open>parse_quoted\<close> inside a quoted one, with
  the text collected so far. The result is an error, the fields, and the lines left. \<open>io\<close> is the
  read error after the last line.
\<close>

function (sequential) parse_fields :: "error option \<Rightarrow> string \<Rightarrow> string list \<Rightarrow> string list
      \<Rightarrow> error option \<times> string list \<times> string list"
  and parse_quoted :: "error option \<Rightarrow> string \<Rightarrow> string \<Rightarrow> string list \<Rightarrow> string list
      \<Rightarrow> error option \<times> string list \<times> string list" where
  "parse_fields io line acc rest =
     (let l = strip_left space_runes line
      in case l of
           c # cs \<Rightarrow>
             if c = QUOTE then parse_quoted io cs [] acc rest
             else if COMMA \<in> set l then
               (let field = takeWhile (\<lambda>x. x \<noteq> COMMA) l; l' = drop 1 (dropWhile (\<lambda>x. x \<noteq> COMMA) l)
                in if QUOTE \<in> set field then (Some ErrBareQuote, acc, rest)
                   else parse_fields io l' (acc @ [field]) rest)
             else
               (let field = take (length l - lengthNL l) l
                in if QUOTE \<in> set field then (Some ErrBareQuote, acc, rest)
                   else (None, acc @ [field], rest))
         | [] \<Rightarrow> (None, acc @ [[]], rest))"
| "parse_quoted io line buf acc rest =
     (if QUOTE \<in> set line then
        (let buf' = buf @ takeWhile (\<lambda>x. x \<noteq> QUOTE) line; l = drop 1 (dropWhile (\<lambda>x. x \<noteq> QUOTE) line)
         in if l \<noteq> [] \<and> hd l = QUOTE then parse_quoted io (tl l) (buf' @ [QUOTE]) acc rest
            else if l \<noteq> [] \<and> hd l = COMMA then parse_fields io (tl l) (acc @ [buf']) rest
            else if length l = lengthNL l then (None, acc @ [buf'], rest)
            else (Some ErrQuote, acc, rest))
      else if line \<noteq> [] then
        (case rest of l # ls \<Rightarrow> parse_quoted io l (buf @ line) acc ls
         | [] \<Rightarrow> parse_quoted io [] (buf @ line) acc [])
      else (case io of None \<Rightarrow> (Some ErrQuote, acc, rest) | Some e \<Rightarrow> (Some e, acc @ [buf], rest)))"
  by pat_completeness auto

termination
proof (relation "measure (case_sum (\<lambda>(io, line, acc, rest). length line + sum_list (map length rest))
    (\<lambda>(io, line, buf, acc, rest). length line + sum_list (map length rest)))", goal_cases)
  case 1
  show ?case by simp
next
  case (2 io line acc rest l c cs)
  then have "length (c # cs) \<le> length line" using strip_left_length [of space_runes line] by metis
  then show ?case by simp
next
  case (3 io line acc rest l c cs x xa)
  then have "length (strip_left space_runes line) \<le> length line" "l = strip_left space_runes line" "COMMA \<in> set l"
    using strip_left_length by auto
  with 3 drop_dropWhile_length [of COMMA l] show ?case by simp
next
  case (4 io line buf acc rest x xa)
  with drop_dropWhile_length [of QUOTE line] show ?case by simp
next
  case (5 io line buf acc rest x xa)
  with drop_dropWhile_length [of QUOTE line] show ?case by simp
qed auto

declare parse_fields.simps [simp del] parse_quoted.simps [simp del]

text \<open>Empty lines before a record are skipped; \<open>EOF\<close> or the read error when no line is left.\<close>

definition csv_Read :: "csv_reader \<Rightarrow> (error + string list) \<times> csv_reader" where
  "csv_Read r =
     (case dropWhile (\<lambda>l. length l = lengthNL l) (cr_lines r) of
        [] \<Rightarrow> (Inl (case cr_ioError r of None \<Rightarrow> EOF | Some e \<Rightarrow> e), r\<lparr>cr_lines := []\<rparr>)
      | line # rest \<Rightarrow>
          (let (err, acc, rest') = parse_fields (cr_ioError r) line [] rest;
               r' = r\<lparr>cr_lines := rest', cr_FieldsPerRecord :=
                      (if cr_FieldsPerRecord r = 0 then length acc else cr_FieldsPerRecord r)\<rparr>
           in case err of Some e \<Rightarrow> (Inl e, r')
              | None \<Rightarrow> if cr_FieldsPerRecord r > 0 \<and> length acc \<noteq> cr_FieldsPerRecord r
                        then (Inl ErrFieldCount, r') else (Inr acc, r')))"

section \<open>Every call makes progress\<close>

lemma parse_rest:
  "length (snd (snd (parse_fields io line acc rest))) \<le> length rest"
  "length (snd (snd (parse_quoted io line buf acc rest))) \<le> length rest"
proof (induction io line acc rest and io line buf acc rest rule: parse_fields_parse_quoted.induct)
  case (1 io line acc rest)
  then show ?case
    by (subst parse_fields.simps) (auto simp: Let_def split: list.splits)
next
  case (2 io line buf acc rest)
  then show ?case
    by (subst parse_quoted.simps) (auto simp: Let_def split: list.splits option.splits intro: le_SucI)
qed

lemma csv_Read_progress:
  assumes "csv_Read r = (res, r')"
  shows "cr_ioError r' = cr_ioError r
    \<and> (length (cr_lines r') < length (cr_lines r)
       \<or> cr_lines r' = [] \<and> res = Inl (case cr_ioError r of None \<Rightarrow> EOF | Some e \<Rightarrow> e))"
proof (cases "dropWhile (\<lambda>l. length l = lengthNL l) (cr_lines r)")
  case Nil
  with assms show ?thesis by (auto simp: csv_Read_def)
next
  case (Cons line rest)
  then have "length (line # rest) \<le> length (cr_lines r)" by (metis length_dropWhile_le)
  moreover have "length (snd (snd (parse_fields (cr_ioError r) line [] rest))) \<le> length rest"
    by (rule parse_rest)
  ultimately show ?thesis
    using assms Cons by (auto simp: csv_Read_def Let_def split: prod.splits option.splits if_splits)
qed

section \<open>The end of the file\<close>

lemma chars_differ [simp]: "QUOTE \<noteq> COMMA" "QUOTE \<noteq> LF" "COMMA \<noteq> LF" "COMMA \<noteq> QUOTE" "LF \<noteq> QUOTE" "LF \<noteq> COMMA"
  by (simp_all add: QUOTE_def COMMA_def LF_def)

text \<open>A file that ends with a read error is never reported to end.\<close>

lemma parse_not_EOF:
  "io \<noteq> Some EOF \<Longrightarrow> fst (parse_fields io line acc rest) \<noteq> Some EOF"
  "io \<noteq> Some EOF \<Longrightarrow> fst (parse_quoted io line buf acc rest) \<noteq> Some EOF"
proof (induction io line acc rest and io line buf acc rest rule: parse_fields_parse_quoted.induct)
  case (1 io line acc rest)
  then show ?case
    by (subst parse_fields.simps) (auto simp: Let_def ErrBareQuote_def split: list.splits; metis)
next
  case (2 io line buf acc rest)
  then show ?case
    by (subst parse_quoted.simps) (auto simp: Let_def ErrQuote_def split: list.splits option.splits)
qed

lemma csv_Read_never_EOF:
  assumes "csv_Read r = (Inl e, r')" and "cr_ioError r = Some io" and "io \<noteq> EOF"
  shows "e \<noteq> EOF"
proof (cases "dropWhile (\<lambda>l. length l = lengthNL l) (cr_lines r)")
  case Nil
  with assms show ?thesis by (simp add: csv_Read_def)
next
  case (Cons line rest)
  then show ?thesis
    using assms parse_not_EOF(1) [of "Some io" line "[]" rest]
    by (auto simp: csv_Read_def Let_def ErrFieldCount_def split: prod.splits option.splits if_splits)
qed

section \<open>Quoted records are read back\<close>

text \<open>A record with every field in quotes, a quote inside a field doubled (RFC 4180).\<close>

definition quote_field :: "string \<Rightarrow> string" where
  "quote_field f = QUOTE # concat (map (\<lambda>c. if c = QUOTE then [QUOTE, QUOTE] else [c]) f) @ [QUOTE]"

fun quote_record :: "string list \<Rightarrow> string" where
  "quote_record [] = []"
| "quote_record [f] = quote_field f @ [LF]"
| "quote_record (f # fs) = quote_field f @ COMMA # quote_record fs"

lemma strip_left_quote: "strip_left space_runes (QUOTE # cs) = QUOTE # cs"
proof -
  have "\<not> HasPrefix (QUOTE # cs) p" if "p \<in> set space_runes" for p
    using that by (auto simp: space_runes_def HasPrefix_def QUOTE_def)
  then have "find (HasPrefix (QUOTE # cs)) space_runes = None" by (auto simp: find_None_iff)
  then show ?thesis by (simp add: strip_left_idle leading_def)
qed

text \<open>The body of a quoted field up to its closing quote.\<close>

lemma parse_quoted_body:
  assumes "l = [] \<or> hd l \<noteq> QUOTE"
  shows "parse_quoted io (concat (map (\<lambda>c. if c = QUOTE then [QUOTE, QUOTE] else [c]) f) @ QUOTE # l) buf acc rest
    = (if l \<noteq> [] \<and> hd l = COMMA then parse_fields io (tl l) (acc @ [buf @ f]) rest
       else if length l = lengthNL l then (None, acc @ [buf @ f], rest) else (Some ErrQuote, acc, rest))"
proof (induction "length (filter (\<lambda>c. c = QUOTE) f)" arbitrary: f buf)
  case 0
  then have nq: "QUOTE \<notin> set f" by (auto simp: filter_empty_conv)
  then have body: "concat (map (\<lambda>c. if c = QUOTE then [QUOTE, QUOTE] else [c]) f) = f"
    by (induction f) auto
  have w: "takeWhile (\<lambda>x. x \<noteq> QUOTE) (f @ QUOTE # l) = f" "dropWhile (\<lambda>x. x \<noteq> QUOTE) (f @ QUOTE # l) = QUOTE # l"
    using nq by (induction f) auto
  have nl: "(l \<noteq> [] \<and> hd l = QUOTE) = False" using assms by blast
  have d1: "drop 1 (QUOTE # l) = l" and q: "(QUOTE \<in> set (f @ QUOTE # l)) = True" by simp_all
  show ?case unfolding body
    by (subst parse_quoted.simps) (simp only: w d1 q nl Let_def if_True if_False)
next
  case (Suc n)
  then have "filter (\<lambda>c. c = QUOTE) f \<noteq> []" by (cases "filter (\<lambda>c. c = QUOTE) f") auto
  then have "QUOTE \<in> set f" by (auto simp: filter_empty_conv)
  then obtain a b where f: "f = a @ QUOTE # b" and a: "QUOTE \<notin> set a" using split_list_first by metis
  let ?d = "\<lambda>f. concat (map (\<lambda>c. if c = QUOTE then [QUOTE, QUOTE] else [c]) f)"
  have d: "?d a = a" using a by (induction a) auto
  have w: "takeWhile (\<lambda>x. x \<noteq> QUOTE) (a @ QUOTE # r) = a" "dropWhile (\<lambda>x. x \<noteq> QUOTE) (a @ QUOTE # r) = QUOTE # r" for r
    using a by (induction a) auto
  have "?d f @ QUOTE # l = a @ QUOTE # QUOTE # ?d b @ QUOTE # l" by (simp add: f d)
  then have "parse_quoted io (?d f @ QUOTE # l) buf acc rest
      = parse_quoted io (?d b @ QUOTE # l) (buf @ a @ [QUOTE]) acc rest"
    by (subst parse_quoted.simps) (simp add: w Let_def)
  moreover have "n = length (filter (\<lambda>c. c = QUOTE) b)"
  proof -
    have "filter (\<lambda>c. c = QUOTE) a = []" using a by (auto simp: filter_empty_conv)
    then show ?thesis using Suc.hyps(2) by (simp add: f)
  qed
  ultimately show ?case using Suc.hyps(1) [of b "buf @ a @ [QUOTE]"] by (simp add: f)
qed

lemma parse_quote_record:
  assumes "fs \<noteq> []"
  shows "parse_fields io (quote_record fs) acc rest = (None, acc @ fs, rest)"
  using assms
proof (induction fs arbitrary: acc rule: quote_record.induct)
  case 1
  then show ?case by simp
next
  case (2 f)
  have "parse_fields io (quote_record [f]) acc rest
      = parse_quoted io (concat (map (\<lambda>c. if c = QUOTE then [QUOTE, QUOTE] else [c]) f) @ QUOTE # [LF]) [] acc rest"
    by (subst parse_fields.simps) (simp add: quote_field_def strip_left_quote Let_def)
  then show ?case by (simp add: parse_quoted_body lengthNL_def)
next
  case (3 f g fs)
  have "parse_fields io (quote_record (f # g # fs)) acc rest
      = parse_quoted io (concat (map (\<lambda>c. if c = QUOTE then [QUOTE, QUOTE] else [c]) f)
          @ QUOTE # COMMA # quote_record (g # fs)) [] acc rest"
    by (subst parse_fields.simps) (simp add: quote_field_def strip_left_quote Let_def)
  then show ?case using 3 by (simp add: parse_quoted_body)
qed

lemma csv_Read_quoted [wire]:
  assumes "cr_lines r = quote_record fs # rest" and "fs \<noteq> []"
    and "cr_FieldsPerRecord r = 0 \<or> cr_FieldsPerRecord r = length fs"
  shows "csv_Read r = (Inr fs, r\<lparr>cr_lines := rest, cr_FieldsPerRecord := length fs\<rparr>)"
proof -
  have "2 \<le> length (quote_record fs)"
    using assms(2) by (cases fs rule: quote_record.cases) (simp_all add: quote_field_def)
  moreover have "lengthNL (quote_record fs) \<le> 1" by (simp add: lengthNL_def)
  ultimately have "length (quote_record fs) \<noteq> lengthNL (quote_record fs)" by linarith
  then show ?thesis
    using assms by (auto simp: csv_Read_def parse_quote_record)
qed

text \<open>The line of a quoted record is cut off the text as it is.\<close>

lemma raw_lines_line: "LF \<notin> set l \<Longrightarrow> raw_lines (l @ LF # text) = (l @ [LF]) # raw_lines text"
  by (induction l) auto

lemma quote_field_chars: "c \<in> set (quote_field f) \<Longrightarrow> c = QUOTE \<or> c \<in> set f"
  by (auto simp: quote_field_def split: if_splits)

lemma quote_record_line:
  assumes "fs \<noteq> []" and "LF \<notin> set (concat fs)"
  shows "\<exists>l. quote_record fs = l @ [QUOTE, LF] \<and> LF \<notin> set l"
  using assms
proof (induction fs rule: quote_record.induct)
  case 1
  then show ?case by simp
next
  case (2 f)
  have "LF \<notin> set (quote_field f)" using quote_field_chars [of LF f] 2 by auto
  then show ?case by (auto simp: quote_field_def)
next
  case (3 f g fs)
  then obtain l where "quote_record (g # fs) = l @ [QUOTE, LF]" "LF \<notin> set l" by auto
  moreover have "LF \<notin> set (quote_field f)" using quote_field_chars [of LF f] 3 by auto
  ultimately show ?case by (intro exI [of _ "quote_field f @ COMMA # l"]) simp
qed

lemma csv_lines_quoted:
  assumes "fs \<noteq> []" and "LF \<notin> set (concat fs)"
  shows "csv_lines (quote_record fs @ text) = quote_record fs # csv_lines text"
proof -
  obtain l where l: "quote_record fs = l @ [QUOTE, LF]" "LF \<notin> set l" using quote_record_line [OF assms] by blast
  have "raw_lines ((l @ [QUOTE]) @ LF # text) = ((l @ [QUOTE]) @ [LF]) # raw_lines text"
    using l(2) by (intro raw_lines_line) simp
  moreover have "normalize_line (l @ [QUOTE, LF]) = l @ [QUOTE, LF]"
    by (simp add: normalize_line_def HasSuffix_def QUOTE_def LF_def CR_def)
  ultimately show ?thesis by (simp add: csv_lines_def l(1))
qed

end
