(* ===== verification/CsvParser.thy ===== *)
theory CsvParser
  imports Csv Domain
begin

text \<open>
  \<open>internal/parser/csv_parser.go\<close>: the column index map built from the header, rows turned into
  records, records into domain values, and the stream reader over \<open>encoding/csv\<close>.
\<close>

section \<open>Records\<close>

record CSVRecord =
  csr_Timestamp :: string
  csr_MetricName :: string
  csr_GPUID :: string
  csr_Device :: string
  csr_UUID :: string
  csr_ModelName :: string
  csr_Hostname :: string
  csr_Container :: string
  csr_Pod :: string
  csr_Namespace :: string
  csr_Value :: string
  csr_LabelsRaw :: string

record CSVParser =
  headerMap :: "nat gomap"

definition NewCSVParser :: CSVParser where
  "NewCSVParser = \<lparr>headerMap = []\<rparr>"

text \<open>The loop over the header: a repeated column takes its last index.\<close>

fun index_columns :: "nat \<Rightarrow> string list \<Rightarrow> nat gomap \<Rightarrow> nat gomap" where
  "index_columns i [] m = m"
| "index_columns i (col # cols) m = index_columns (i + 1) cols (map_put (TrimSpace col) i m)"

definition required_columns :: "string list" where
  "required_columns = [''timestamp'', ''metric_name'', ''gpu_id'', ''device'', ''uuid'', ''modelName'', ''Hostname'', ''value'']"

definition ParseHeader :: "string list \<Rightarrow> CSVParser \<Rightarrow> error option \<times> CSVParser" where
  "ParseHeader header p =
     (if header = [] then (Some ErrInvalidInput, p)
      else let p' = p\<lparr>headerMap := index_columns 0 header (headerMap p)\<rparr>
           in case find (\<lambda>col. map_of (headerMap p') col = None) required_columns of
                Some col \<Rightarrow> (Some (Errorf (''missing required column: '' @ col)), p')
              | None \<Rightarrow> (None, p'))"

definition getCol :: "CSVParser \<Rightarrow> string list \<Rightarrow> string \<Rightarrow> string" where
  "getCol p row name = (case map_of (headerMap p) name of
       Some idx \<Rightarrow> if idx < length row then TrimSpace (row ! idx) else []
     | None \<Rightarrow> [])"

definition ParseRow :: "CSVParser \<Rightarrow> string list \<Rightarrow> error + CSVRecord" where
  "ParseRow p row =
     (if row = [] then Inl ErrInvalidInput
      else if headerMap p = [] then Inl (Errorf ''header not parsed yet'')
      else let r = \<lparr>csr_Timestamp = getCol p row ''timestamp'', csr_MetricName = getCol p row ''metric_name'',
             csr_GPUID = getCol p row ''gpu_id'', csr_Device = getCol p row ''device'',
             csr_UUID = getCol p row ''uuid'', csr_ModelName = getCol p row ''modelName'',
             csr_Hostname = getCol p row ''Hostname'', csr_Container = getCol p row ''container'',
             csr_Pod = getCol p row ''pod'', csr_Namespace = getCol p row ''namespace'',
             csr_Value = getCol p row ''value'', csr_LabelsRaw = getCol p row ''labels_raw''\<rparr>
           in if csr_UUID r = [] \<or> csr_MetricName r = []
              then Inl (Errorf ''missing required fields: uuid or metric_name'') else Inr r)"

definition ToTelemetryPoint :: "CSVRecord \<Rightarrow> TelemetryPoint" where
  "ToTelemetryPoint r = zero_TelemetryPoint\<lparr>tp_GPUUUID := csr_UUID r, tp_MetricName := csr_MetricName r,
     tp_Value := csr_Value r, tp_LabelsRaw := csr_LabelsRaw r\<rparr>"

definition ToGPU :: "CSVRecord \<Rightarrow> GPU" where
  "ToGPU r = \<lparr>gpu_UUID = csr_UUID r, gpu_DeviceID = csr_Device r, gpu_GPUIndex = csr_GPUID r,
     gpu_ModelName = csr_ModelName r, gpu_Hostname = csr_Hostname r, gpu_Container = csr_Container r,
     gpu_Pod = csr_Pod r, gpu_Namespace = csr_Namespace r\<rparr>"

section \<open>The stream reader\<close>

record StreamReader =
  sr_reader :: csv_reader
  sr_parser :: CSVParser
  sr_row :: int

text \<open>A file: its text and the read error that ends it, if it cannot be read to its end.\<close>

definition NewStreamReader :: "string \<Rightarrow> error option \<Rightarrow> error + StreamReader" where
  "NewStreamReader text io =
     (case csv_Read \<lparr>cr_lines = csv_lines text, cr_ioError = io, cr_FieldsPerRecord = 0\<rparr> of
        (Inl e, r) \<Rightarrow> Inl (Wrapf ''failed to read header'' e)
      | (Inr header, r) \<Rightarrow>
          (case ParseHeader header NewCSVParser of
             (Some e, p) \<Rightarrow> Inl (Wrapf ''failed to parse header'' e)
           | (None, p) \<Rightarrow> Inr \<lparr>sr_reader = r, sr_parser = p, sr_row = 1\<rparr>))"

definition Next :: "StreamReader \<Rightarrow> (error + CSVRecord) \<times> StreamReader" where
  "Next sr =
     (case csv_Read (sr_reader sr) of
        (Inl e, r) \<Rightarrow> (Inl e, sr\<lparr>sr_reader := r\<rparr>)
      | (Inr row, r) \<Rightarrow>
          let sr' = sr\<lparr>sr_reader := r, sr_row := sr_row sr + 1\<rparr>
          in (case ParseRow (sr_parser sr) row of
                Inl e \<Rightarrow> (Inl (Wrapf (''row '' @ Itoa (sr_row sr')) e), sr')
              | Inr rec \<Rightarrow> (Inr rec, sr')))"

definition Row :: "StreamReader \<Rightarrow> int" where
  "Row sr = sr_row sr"

section \<open>Lemmas\<close>

definition has_column :: "string list \<Rightarrow> string \<Rightarrow> bool" where
  "has_column header name \<longleftrightarrow> name \<in> TrimSpace ` set header"

lemma index_columns_None:
  "map_of (index_columns i cols m) name = None \<longleftrightarrow> map_of m name = None \<and> \<not> has_column cols name"
  by (induction i cols m rule: index_columns.induct) (auto simp: has_column_def)

text \<open>The index of a column is the last one whose trimmed header has its name.\<close>

definition last_column :: "string list \<Rightarrow> string \<Rightarrow> nat \<Rightarrow> bool" where
  "last_column cols name k \<longleftrightarrow> k < length cols \<and> TrimSpace (cols ! k) = name
     \<and> (\<forall>k'. k < k' \<longrightarrow> k' < length cols \<longrightarrow> TrimSpace (cols ! k') \<noteq> name)"

lemma last_column_Cons: "last_column cols name k \<Longrightarrow> last_column (c # cols) name (Suc k)"
  unfolding last_column_def by (auto simp: nth_Cons split: nat.splits)

lemma last_column_first: "\<not> has_column cols name \<Longrightarrow> TrimSpace c = name \<Longrightarrow> last_column (c # cols) name 0"
proof -
  assume "\<not> has_column cols name" "TrimSpace c = name"
  moreover have "TrimSpace ((c # cols) ! k) \<noteq> name" if k: "0 < k" "k < length (c # cols)" for k
  proof -
    obtain j where "k = Suc j" "j < length cols" using k by (cases k) auto
    then show ?thesis using \<open>\<not> has_column cols name\<close> by (auto simp: has_column_def)
  qed
  ultimately show ?thesis by (simp add: last_column_def)
qed

lemma index_columns_Some:
  assumes "map_of (index_columns i cols m) name = Some j"
  shows "map_of m name = Some j \<and> \<not> has_column cols name \<or> (\<exists>k. j = i + k \<and> last_column cols name k)"
  using assms
proof (induction i cols m rule: index_columns.induct)
  case (1 i m)
  then show ?case by (simp add: has_column_def)
next
  case (2 i col cols m)
  then consider "map_of (map_put (TrimSpace col) i m) name = Some j" "\<not> has_column cols name"
    | k where "j = i + 1 + k" "last_column cols name k" by fastforce
  then show ?case
  proof cases
    case 1
    then show ?thesis
      using last_column_first [OF 1(2), of col] by (auto simp: has_column_def split: if_splits)
  next
    case (2 k)
    then show ?thesis using last_column_Cons by (metis add.assoc plus_1_eq_Suc)
  qed
qed

lemma ParseHeader_ok:
  "fst (ParseHeader header NewCSVParser) = None
     \<longleftrightarrow> header \<noteq> [] \<and> (\<forall>col \<in> set required_columns. has_column header col)"
proof (cases "header = []")
  case False
  show ?thesis
  proof (cases "find (\<lambda>col. map_of (index_columns 0 header []) col = None) required_columns")
    case None
    then have "\<forall>col \<in> set required_columns. has_column header col"
      by (auto simp: find_None_iff index_columns_None)
    with False None show ?thesis by (simp add: ParseHeader_def NewCSVParser_def Let_def)
  next
    case (Some col)
    then have "col \<in> set required_columns" "\<not> has_column header col"
      by (auto simp: find_Some_iff index_columns_None dest: nth_mem)
    with False Some show ?thesis by (auto simp: ParseHeader_def NewCSVParser_def Let_def)
  qed
qed (simp add: ParseHeader_def)

lemma ParseHeader_map:
  assumes "ParseHeader header NewCSVParser = (None, p)"
  shows "headerMap p = index_columns 0 header []"
  using assms by (auto simp: ParseHeader_def NewCSVParser_def Let_def split: if_splits option.splits)

text \<open>The value of a column: the trimmed field under the last header with its name.\<close>

lemma getCol_column:
  assumes "ParseHeader header NewCSVParser = (None, p)"
  shows "has_column header name \<Longrightarrow> \<exists>k. last_column header name k
      \<and> getCol p row name = (if k < length row then TrimSpace (row ! k) else [])"
    and "\<not> has_column header name \<Longrightarrow> getCol p row name = []"
proof -
  note hm = ParseHeader_map [OF assms]
  show "\<exists>k. last_column header name k \<and> getCol p row name = (if k < length row then TrimSpace (row ! k) else [])"
    if h: "has_column header name"
  proof -
    obtain j where j: "map_of (index_columns 0 header []) name = Some j"
      using h index_columns_None [of 0 header "[]" name] by auto
    from index_columns_Some [OF this] have "last_column header name j" by auto
    with j show ?thesis by (intro exI [of _ j]) (simp add: getCol_def hm)
  qed
  show "getCol p row name = []" if "\<not> has_column header name"
    using index_columns_None [of 0 header "[]" name] that by (simp add: getCol_def hm)
qed

lemma getCol_trimmed [simp]: "TrimSpace (getCol p row name) = getCol p row name"
proof -
  have "TrimSpace [] = []" by code_simp
  then show ?thesis by (simp add: getCol_def split: option.splits)
qed

lemma ParseRow_ok:
  assumes "ParseRow p row = Inr r"
  shows "csr_UUID r = getCol p row ''uuid'' \<and> csr_MetricName r = getCol p row ''metric_name''
    \<and> csr_Value r = getCol p row ''value'' \<and> csr_Hostname r = getCol p row ''Hostname''
    \<and> csr_UUID r \<noteq> [] \<and> csr_MetricName r \<noteq> []"
  using assms by (auto simp: ParseRow_def Let_def split: if_splits)

lemma Next_record:
  assumes "Next sr = (Inr r, sr')"
  shows "csr_UUID r \<noteq> [] \<and> csr_MetricName r \<noteq> []"
proof -
  obtain row where "ParseRow (sr_parser sr) row = Inr r"
    using assms by (auto simp: Next_def Let_def split: prod.splits sum.splits)
  then show ?thesis using ParseRow_ok by blast
qed

lemma Next_progress:
  assumes "Next sr = (res, sr')"
  shows "cr_ioError (sr_reader sr') = cr_ioError (sr_reader sr)
    \<and> (length (cr_lines (sr_reader sr')) < length (cr_lines (sr_reader sr))
       \<or> cr_lines (sr_reader sr') = []
         \<and> res = Inl (case cr_ioError (sr_reader sr) of None \<Rightarrow> EOF | Some e \<Rightarrow> e))"
proof -
  obtain x r where x: "csv_Read (sr_reader sr) = (x, r)" by fastforce
  show ?thesis
    using assms csv_Read_progress [OF x] x
    by (auto simp: Next_def Let_def split: sum.splits option.splits)
qed

section \<open>Properties\<close>

text \<open>\<open>ParseHeader\<close> accepts a header exactly when it is not empty and has every required column up to
  surrounding white space.\<close>

theorem header_accepted_iff:
  "fst (ParseHeader header NewCSVParser) = None
     \<longleftrightarrow> header \<noteq> [] \<and> (\<forall>col \<in> set required_columns. col \<in> TrimSpace ` set header)"
  unfolding ParseHeader_ok has_column_def ..

theorem header_accepted_iff_witness:
  "fst (ParseHeader [''timestamp'', ''metric_name'', ''gpu_id'', ''device'', ''uuid'', ''modelName'', ''Hostname'', ''value''] NewCSVParser) = None
   \<and> fst (ParseHeader [''uuid''] NewCSVParser) \<noteq> None"
proof -
  have t: "map TrimSpace required_columns = required_columns" by code_simp
  then have "\<forall>col \<in> set required_columns. col \<in> TrimSpace ` set required_columns"
    by (metis image_set)
  moreover have "''value'' \<notin> TrimSpace ` set [''uuid'']" by code_simp
  ultimately show ?thesis
    using header_accepted_iff [of required_columns] header_accepted_iff [of "[''uuid'']"]
    by (auto simp: required_columns_def)
qed

text \<open>The value of a column in a row, and the columns of a record.\<close>

definition column_value :: "string list \<Rightarrow> string list \<Rightarrow> string \<Rightarrow> string \<Rightarrow> bool" where
  "column_value header row name v \<longleftrightarrow> (if has_column header name
     then \<exists>k. last_column header name k \<and> v = (if k < length row then TrimSpace (row ! k) else []) else v = [])"

definition record_columns :: "(string \<times> (CSVRecord \<Rightarrow> string)) list" where
  "record_columns = [(''timestamp'', csr_Timestamp), (''metric_name'', csr_MetricName), (''gpu_id'', csr_GPUID),
     (''device'', csr_Device), (''uuid'', csr_UUID), (''modelName'', csr_ModelName), (''Hostname'', csr_Hostname),
     (''container'', csr_Container), (''pod'', csr_Pod), (''namespace'', csr_Namespace), (''value'', csr_Value),
     (''labels_raw'', csr_LabelsRaw)]"

lemma getCol_value:
  "ParseHeader header NewCSVParser = (None, p) \<Longrightarrow> column_value header row name (getCol p row name)"
  unfolding column_value_def by (cases "has_column header name") (simp_all add: getCol_column)

text \<open>C30. A row that is accepted gives, for each column of a record, the trimmed field under the last header of
  that name, empty when the row is too short or the header has no such column; its UUID and its metric name are
  not empty. They carry over to the telemetry point and to the GPU.\<close>

theorem row_columns:
  assumes "ParseHeader header NewCSVParser = (None, p)" and "ParseRow p row = Inr r"
  shows "(\<forall>(name, field) \<in> set record_columns. column_value header row name (field r))
    \<and> csr_UUID r \<noteq> [] \<and> csr_MetricName r \<noteq> []
    \<and> tp_GPUUUID (ToTelemetryPoint r) = csr_UUID r \<and> gpu_UUID (ToGPU r) = csr_UUID r
    \<and> tp_MetricName (ToTelemetryPoint r) = csr_MetricName r \<and> tp_Value (ToTelemetryPoint r) = csr_Value r"
proof -
  have r: "r = \<lparr>csr_Timestamp = getCol p row ''timestamp'', csr_MetricName = getCol p row ''metric_name'',
      csr_GPUID = getCol p row ''gpu_id'', csr_Device = getCol p row ''device'', csr_UUID = getCol p row ''uuid'',
      csr_ModelName = getCol p row ''modelName'', csr_Hostname = getCol p row ''Hostname'',
      csr_Container = getCol p row ''container'', csr_Pod = getCol p row ''pod'',
      csr_Namespace = getCol p row ''namespace'', csr_Value = getCol p row ''value'',
      csr_LabelsRaw = getCol p row ''labels_raw''\<rparr> \<and> csr_UUID r \<noteq> [] \<and> csr_MetricName r \<noteq> []"
    using assms(2) by (auto simp: ParseRow_def Let_def split: if_splits)
  have "\<forall>(name, field) \<in> set record_columns. field r = getCol p row name"
    unfolding record_columns_def by (subst conjunct1 [OF r])+ simp
  then have "\<forall>(name, field) \<in> set record_columns. column_value header row name (field r)"
    using getCol_value [OF assms(1)] by fastforce
  moreover have "csr_UUID r \<noteq> [] \<and> csr_MetricName r \<noteq> []" by (rule conjunct2 [OF r])
  ultimately show ?thesis by (simp add: ToTelemetryPoint_def ToGPU_def)
qed

theorem row_columns_witness:
  "csr_UUID (projr (ParseRow (snd (ParseHeader required_columns NewCSVParser))
      [''t'', ''util'', ''0'', ''d'', '' u1 '', ''m'', ''h'', ''9''])) = ''u1''"
proof -
  let ?row = "[''t'', ''util'', ''0'', ''d'', '' u1 '', ''m'', ''h'', ''9'']"
  have h: "fst (ParseHeader required_columns NewCSVParser) = None" by code_simp
  then obtain p where p: "ParseHeader required_columns NewCSVParser = (None, p)" by (metis prod.collapse)
  have "\<not> isl (ParseRow (snd (ParseHeader required_columns NewCSVParser)) ?row)" by code_simp
  then obtain r where r: "ParseRow p ?row = Inr r" using p by (cases "ParseRow p ?row") auto
  have "(''uuid'', csr_UUID) \<in> set record_columns" by (simp add: record_columns_def)
  moreover have "TrimSpace ''uuid'' = ''uuid'' \<and> ''uuid'' \<in> set required_columns" by code_simp
  then have "has_column required_columns ''uuid''" unfolding has_column_def by force
  moreover have "column_value required_columns ?row ''uuid'' (csr_UUID r)"
    using bspec [OF conjunct1 [OF row_columns [OF p r]], of "(''uuid'', csr_UUID)"] calculation(1) by simp
  ultimately have "\<exists>k. last_column required_columns ''uuid'' k \<and> csr_UUID r = (if k < length ?row then TrimSpace (?row ! k) else [])"
    unfolding column_value_def by presburger
  then obtain k where k: "last_column required_columns ''uuid'' k"
    "csr_UUID r = (if k < length ?row then TrimSpace (?row ! k) else [])" by blast
  have "\<forall>j < 8. TrimSpace (required_columns ! j) = ''uuid'' \<longrightarrow> j = 4" by code_simp
  moreover have "length required_columns = 8" by code_simp
  ultimately have "k = 4" using k(1) by (auto simp: last_column_def)
  moreover have "TrimSpace (?row ! 4) = ''u1''" by code_simp
  ultimately show ?thesis using p r k(2) by simp
qed

text \<open>A CSV record whose fields are all quoted, with the quotes inside doubled, is read back field by
  field whatever its fields hold but line feeds, and the reader goes on with the text behind it.\<close>

theorem quoted_record_roundtrip:
  assumes "cr_lines r = csv_lines (quote_record fs @ text)" and "fs \<noteq> []" and "LF \<notin> set (concat fs)"
    and "cr_FieldsPerRecord r = 0 \<or> cr_FieldsPerRecord r = length fs"
  shows "csv_Read r = (Inr fs, r\<lparr>cr_lines := csv_lines text, cr_FieldsPerRecord := length fs\<rparr>)"
  by (rule csv_Read_quoted [OF _ assms(2,4)]) (simp add: assms(1) csv_lines_quoted [OF assms(2,3)])

theorem quoted_record_roundtrip_witness:
  "fst (csv_Read \<lparr>cr_lines = csv_lines (quote_record [''a,b'', [QUOTE]]), cr_ioError = None, cr_FieldsPerRecord = 0\<rparr>)
     = Inr [''a,b'', [QUOTE]]"
  using quoted_record_roundtrip [of "\<lparr>cr_lines = csv_lines (quote_record [''a,b'', [QUOTE]]), cr_ioError = None, cr_FieldsPerRecord = 0\<rparr>"
      "[''a,b'', [QUOTE]]" "[]"]
  by (simp add: LF_def QUOTE_def)

end
