(* ===== verification/BatchLock.thy ===== *)
theory BatchLock
  imports GoTime Prelude
begin

text \<open>
  The lock of the streamers, \<open>internal/streamer/batch_lock.go\<close>: a Redis key that holds the ID of the
  instance that may publish, with an expiry. The server is a parameter with laws; the two Lua
  scripts are functions on the key.
\<close>

section \<open>The server\<close>

text \<open>A key's value with the instant (in nanoseconds) at which it expires.\<close>

type_synonym lock_key = "(string \<times> int) option"

text \<open>What the key is worth at an instant: an expired key is absent.\<close>

definition holder :: "int \<Rightarrow> lock_key \<Rightarrow> string option" where
  "holder now k = (case k of Some (v, ex) \<Rightarrow> if now < ex then Some v else None | None \<Rightarrow> None)"

text \<open>
  \<open>SetNX\<close> with a context, a value and a time to live; \<open>Eval\<close> runs a script, which sees the instant
  and the key and gives a number and the new key.
\<close>

type_synonym script = "int \<Rightarrow> lock_key \<Rightarrow> int \<times> lock_key"

record 'w lock_redis =
  SetNX :: "ctx \<Rightarrow> string \<Rightarrow> duration \<Rightarrow> 'w \<Rightarrow> (error + bool) \<times> 'w"
  Eval :: "ctx \<Rightarrow> script \<Rightarrow> 'w \<Rightarrow> (error + int) \<times> 'w"

text \<open>
  The laws. \<open>key\<close> and \<open>clock\<close> are what the server holds when a command is executed; a command that
  fails was refused or was executed without its reply arriving.
\<close>

definition set_nx :: "string \<Rightarrow> duration \<Rightarrow> int \<Rightarrow> lock_key \<Rightarrow> lock_key" where
  "set_nx v ttl now k = (if holder now k = None then Some (v, now + ttl) else k)"

locale lock_server =
  fixes L :: "'w lock_redis" and key :: "'w \<Rightarrow> lock_key" and clock :: "'w \<Rightarrow> int"
  assumes SetNX_ok: "SetNX L cx v ttl w = (Inr b, w') \<Longrightarrow>
      (b \<longleftrightarrow> holder (clock w) (key w) = None) \<and> key w' = set_nx v ttl (clock w) (key w) \<and> clock w' = clock w"
    and SetNX_err: "SetNX L cx v ttl w = (Inl e, w') \<Longrightarrow>
      (key w' = key w \<or> key w' = set_nx v ttl (clock w) (key w)) \<and> clock w' = clock w"
    and Eval_ok: "Eval L cx f w = (Inr n, w') \<Longrightarrow> (n, key w') = f (clock w) (key w) \<and> clock w' = clock w"
    and Eval_err: "Eval L cx f w = (Inl e, w') \<Longrightarrow>
      (key w' = key w \<or> key w' = snd (f (clock w) (key w))) \<and> clock w' = clock w"

section \<open>The lock\<close>

definition lockTTL :: duration where "lockTTL = 5 * minute"

record BatchLock =
  bl_lockValue :: string

definition NewBatchLock :: "string \<Rightarrow> BatchLock" where
  "NewBatchLock instanceID = \<lparr>bl_lockValue = instanceID\<rparr>"

text \<open>
  The loop of \<open>AcquireLock\<close>. A round sees the context at its start and while it waits, and the
  world moves on while it waits: other instances act, time passes. \<open>None\<close> means that the call has
  not returned after the rounds given.
\<close>

record 'w attempt =
  at_start :: ctx
  at_wait :: ctx
  at_world :: "'w \<Rightarrow> 'w"

fun AcquireLock :: "'w lock_redis \<Rightarrow> BatchLock \<Rightarrow> 'w attempt list \<Rightarrow> 'w \<Rightarrow> error option option \<times> 'w" where
  "AcquireLock L bl [] w = (None, w)"
| "AcquireLock L bl (a # as) w =
     (case at_start a of Some e \<Rightarrow> (Some (Some e), w)
      | None \<Rightarrow>
          (case SetNX L (at_start a) (bl_lockValue bl) lockTTL w of
             (Inl err, w1) \<Rightarrow> AcquireLock L bl as (at_world a w1)
           | (Inr True, w1) \<Rightarrow> (Some None, w1)
           | (Inr False, w1) \<Rightarrow>
               (case at_wait a of Some e \<Rightarrow> (Some (Some e), w1)
                | None \<Rightarrow> AcquireLock L bl as (at_world a w1))))"

text \<open>The scripts: only the value of the caller is deleted, or gets a new expiry.\<close>

definition release_script :: "string \<Rightarrow> script" where
  "release_script v now k = (if holder now k = Some v then (1, None) else (0, k))"

definition extend_script :: "string \<Rightarrow> duration \<Rightarrow> script" where
  "extend_script v ttl now k = (if holder now k = Some v then (1, Some (v, now + ttl)) else (0, k))"

definition ReleaseLock :: "'w lock_redis \<Rightarrow> BatchLock \<Rightarrow> ctx \<Rightarrow> 'w \<Rightarrow> error option \<times> 'w" where
  "ReleaseLock L bl cx w =
     (case Eval L cx (release_script (bl_lockValue bl)) w of
        (Inl e, w1) \<Rightarrow> (Some (Wrapf ''failed to release lock'' e), w1)
      | (Inr result, w1) \<Rightarrow> (None, w1))"

definition ExtendLock :: "'w lock_redis \<Rightarrow> BatchLock \<Rightarrow> ctx \<Rightarrow> 'w \<Rightarrow> error option \<times> 'w" where
  "ExtendLock L bl cx w =
     (case Eval L cx (extend_script (bl_lockValue bl) lockTTL) w of
        (Inl e, w1) \<Rightarrow> (Some (Wrapf ''failed to extend lock'' e), w1)
      | (Inr result, w1) \<Rightarrow>
          if result = 0 then (Some (Errorf ''lock not owned by this instance''), w1) else (None, w1))"

section \<open>What the operations guarantee\<close>

context lock_server
begin

lemma AcquireLock_owner:
  assumes "AcquireLock L bl as w = (Some None, w')"
  shows "key w' = Some (bl_lockValue bl, clock w' + lockTTL)"
  using assms
proof (induction as arbitrary: w)
  case Nil
  then show ?case by simp
next
  case (Cons a as)
  obtain r w1 where s: "SetNX L (at_start a) (bl_lockValue bl) lockTTL w = (r, w1)" by fastforce
  show ?case
  proof (cases r)
    case (Inl e)
    with Cons s show ?thesis by (auto split: option.splits)
  next
    case (Inr b)
    show ?thesis
    proof (cases b)
      case True
      then have "w' = w1" using Cons.prems s Inr by (auto split: option.splits)
      then show ?thesis using SetNX_ok [of "at_start a" "bl_lockValue bl" lockTTL w b w1] s Inr True
        by (auto simp: set_nx_def)
    next
      case False
      with Cons s Inr show ?thesis by (auto split: option.splits)
    qed
  qed
qed

lemma ReleaseLock_effect:
  assumes "ReleaseLock L bl cx w = (r, w')"
  shows "holder (clock w) (key w) \<noteq> Some (bl_lockValue bl) \<Longrightarrow> key w' = key w"
    and "r = None \<Longrightarrow> holder (clock w) (key w') \<noteq> Some (bl_lockValue bl)"
    and "clock w' = clock w"
proof -
  obtain x w1 where x: "Eval L cx (release_script (bl_lockValue bl)) w = (x, w1)" by fastforce
  have w: "w' = w1" "r = None \<longleftrightarrow> (\<exists>n. x = Inr n)"
    using assms x by (auto simp: ReleaseLock_def split: sum.splits)
  show "key w' = key w" if "holder (clock w) (key w) \<noteq> Some (bl_lockValue bl)"
    using that x Eval_ok Eval_err by (cases x) (fastforce simp: w(1) release_script_def)+
  show "holder (clock w) (key w') \<noteq> Some (bl_lockValue bl)" if n: "r = None"
  proof -
    obtain n where "x = Inr n" using n w(2) by blast
    with x Eval_ok have "(n, key w1) = release_script (bl_lockValue bl) (clock w) (key w)" by blast
    then show ?thesis by (auto simp: w(1) release_script_def holder_def split: if_splits)
  qed
  show "clock w' = clock w" using x Eval_ok Eval_err by (cases x) (auto simp: w(1))
qed

lemma ExtendLock_effect:
  assumes "ExtendLock L bl cx w = (None, w')"
  shows "holder (clock w) (key w) = Some (bl_lockValue bl)"
    and "key w' = Some (bl_lockValue bl, clock w + lockTTL)"
proof -
  obtain n where "Eval L cx (extend_script (bl_lockValue bl) lockTTL) w = (Inr n, w')" "n \<noteq> 0"
    using assms by (auto simp: ExtendLock_def split: prod.splits sum.splits if_splits)
  with Eval_ok have "(n, key w') = extend_script (bl_lockValue bl) lockTTL (clock w) (key w)" "n \<noteq> 0" by blast+
  then show "holder (clock w) (key w) = Some (bl_lockValue bl)" "key w' = Some (bl_lockValue bl, clock w + lockTTL)"
    by (auto simp: extend_script_def split: if_splits)
qed

end

text \<open>A server that is up runs every script a live context asks for.\<close>

locale live_lock_server = lock_server +
  assumes Eval_up: "\<exists>n w'. Eval L None f w = (Inr n, w')"

context live_lock_server
begin

lemma ReleaseLock_released:
  "holder (clock w) (key (snd (ReleaseLock L bl None w))) \<noteq> Some (bl_lockValue bl)
   \<and> clock (snd (ReleaseLock L bl None w)) = clock w"
proof -
  obtain n w' where e: "Eval L None (release_script (bl_lockValue bl)) w = (Inr n, w')" using Eval_up by blast
  then have r: "ReleaseLock L bl None w = (None, w')" by (simp add: ReleaseLock_def)
  show ?thesis using ReleaseLock_effect(2,3) [OF r] by (simp add: r)
qed

end

section \<open>A server in memory\<close>

text \<open>A key, a clock, and the faults of the next commands: a fault refuses its command.\<close>

record lock_mem =
  lm_key :: lock_key
  lm_clock :: int
  lm_faults :: "bool list"

definition lock_fault :: "ctx \<Rightarrow> lock_mem \<Rightarrow> error option" where
  "lock_fault cx w = (case cx of Some e \<Rightarrow> Some e
     | None \<Rightarrow> if lm_faults w \<noteq> [] \<and> hd (lm_faults w) then Some (External ''connection refused'') else None)"

definition next_fault :: "lock_mem \<Rightarrow> lock_mem" where
  "next_fault w = w\<lparr>lm_faults := tl (lm_faults w)\<rparr>"

definition mem_lock :: "lock_mem lock_redis" where
  "mem_lock = \<lparr>
     SetNX = (\<lambda>cx v ttl w. case lock_fault cx w of Some e \<Rightarrow> (Inl e, next_fault w)
       | None \<Rightarrow> (Inr (holder (lm_clock w) (lm_key w) = None),
                 (next_fault w)\<lparr>lm_key := set_nx v ttl (lm_clock w) (lm_key w)\<rparr>)),
     Eval = (\<lambda>cx f w. case lock_fault cx w of Some e \<Rightarrow> (Inl e, next_fault w)
       | None \<Rightarrow> (let (n, k) = f (lm_clock w) (lm_key w) in (Inr n, (next_fault w)\<lparr>lm_key := k\<rparr>)))\<rparr>"

lemma next_fault_sel [simp]: "lm_key (next_fault w) = lm_key w" "lm_clock (next_fault w) = lm_clock w"
  by (simp_all add: next_fault_def)

interpretation mem_lock: lock_server mem_lock lm_key lm_clock
  by unfold_locales (auto simp: mem_lock_def split: option.splits prod.splits)

text \<open>The same server without faults.\<close>

definition calm_lock :: "lock_mem lock_redis" where
  "calm_lock = \<lparr>SetNX = (\<lambda>cx v ttl w. SetNX mem_lock cx v ttl (w\<lparr>lm_faults := []\<rparr>)),
     Eval = (\<lambda>cx f w. Eval mem_lock cx f (w\<lparr>lm_faults := []\<rparr>))\<rparr>"

interpretation calm_lock: live_lock_server calm_lock lm_key lm_clock
  by unfold_locales (auto simp: calm_lock_def mem_lock_def lock_fault_def split: option.splits prod.splits)

section \<open>Several instances\<close>

text \<open>
  The instances by number. \<open>name i\<close> is the lock value of instance \<open>i\<close>; an instance is inside from
  the \<open>SetNX\<close> that gave it the lock until it starts to release it. \<open>Start\<close> of the streamer never
  calls \<open>ExtendLock\<close>, so nothing prolongs the key.
\<close>

record lock_system =
  ls_key :: lock_key
  ls_now :: int
  ls_inside :: "(nat \<times> int) list"  \<comment> \<open>who is inside, since when\<close>

inductive lock_step :: "(nat \<Rightarrow> string) \<Rightarrow> lock_system \<Rightarrow> lock_system \<Rightarrow> bool" for name where
  acquires: "holder (ls_now s) (ls_key s) = None \<Longrightarrow> i \<notin> fst ` set (ls_inside s) \<Longrightarrow>
    lock_step name s (s\<lparr>ls_key := set_nx (name i) lockTTL (ls_now s) (ls_key s), ls_inside := (i, ls_now s) # ls_inside s\<rparr>)"
| leaves: "(i, t) \<in> set (ls_inside s) \<Longrightarrow>
    lock_step name s (s\<lparr>ls_key := snd (release_script (name i) (ls_now s) (ls_key s)),
      ls_inside := filter (\<lambda>(j, t). j \<noteq> i) (ls_inside s)\<rparr>)"
| time_passes: "0 \<le> d \<Longrightarrow> lock_step name s (s\<lparr>ls_now := ls_now s + d\<rparr>)"

inductive lock_reach :: "(nat \<Rightarrow> string) \<Rightarrow> lock_system \<Rightarrow> bool" for name where
  lock_start: "lock_reach name \<lparr>ls_key = None, ls_now = t0, ls_inside = []\<rparr>"
| lock_next: "lock_reach name s \<Longrightarrow> lock_step name s s' \<Longrightarrow> lock_reach name s'"

inductive_cases lock_stepE: "lock_step name s s'"

definition lock_inv :: "(nat \<Rightarrow> string) \<Rightarrow> lock_system \<Rightarrow> bool" where
  "lock_inv name s \<longleftrightarrow> distinct (map fst (ls_inside s))
     \<and> (\<forall>i t. (i, t) \<in> set (ls_inside s) \<longrightarrow> t \<le> ls_now s
          \<and> (ls_now s < t + lockTTL \<longrightarrow> ls_key s = Some (name i, t + lockTTL)))"

lemma lockTTL_pos [simp]: "0 < lockTTL"
  by (simp add: lockTTL_def minute_def second_def)

lemma lock_step_inv:
  assumes "lock_step name s s'" and "inj name" and "lock_inv name s"
  shows "lock_inv name s'"
  using assms
proof (induction rule: lock_step.induct)
  case (acquires s i)
  have "\<not> ls_now s < t + lockTTL" if "(j, t) \<in> set (ls_inside s)" for j t
    using that acquires by (auto simp: lock_inv_def holder_def)
  with acquires show ?case by (auto simp: lock_inv_def set_nx_def)
next
  case (leaves i t s)
  have "snd (release_script (name i) (ls_now s) (ls_key s)) = Some (name j, u + lockTTL)"
    if "(j, u) \<in> set (ls_inside s)" "j \<noteq> i" "ls_now s < u + lockTTL" for j u
  proof -
    have "ls_key s = Some (name j, u + lockTTL)" using that leaves.prems(2) by (auto simp: lock_inv_def)
    moreover have "name j \<noteq> name i" using that(2) leaves.prems(1) by (auto dest: injD)
    ultimately show ?thesis by (simp add: release_script_def holder_def)
  qed
  moreover have "distinct (map fst (filter (\<lambda>(j, t). j \<noteq> i) (ls_inside s)))"
    using leaves.prems(2) by (simp add: lock_inv_def distinct_map_filter)
  ultimately show ?case using leaves.prems(2) by (auto simp: lock_inv_def)
next
  case (time_passes d s)
  then show ?case by (force simp: lock_inv_def)
qed

lemma lock_reach_inv: "lock_reach name s \<Longrightarrow> inj name \<Longrightarrow> lock_inv name s"
proof (induction rule: lock_reach.induct)
  case (lock_start t0)
  then show ?case by (simp add: lock_inv_def)
next
  case (lock_next s s')
  then show ?case using lock_step_inv by blast
qed

section \<open>Properties\<close>

text \<open>Whatever commands fail and whatever the other instances do: when \<open>AcquireLock\<close> returns nil, the key
  holds the instance's value for another five minutes; \<open>ReleaseLock\<close> never touches a key that
  holds another value, and when it returns nil the instance no longer holds the lock.\<close>

theorem lock_operations:
  assumes "lock_server L key clock"
  shows "(AcquireLock L bl as w = (Some None, w') \<longrightarrow> key w' = Some (bl_lockValue bl, clock w' + lockTTL))
    \<and> (holder (clock w) (key w) \<noteq> Some (bl_lockValue bl) \<longrightarrow> key (snd (ReleaseLock L bl cx w)) = key w)
    \<and> (fst (ReleaseLock L bl cx w) = None \<longrightarrow>
         holder (clock w) (key (snd (ReleaseLock L bl cx w))) \<noteq> Some (bl_lockValue bl))"
proof -
  obtain r v where r: "ReleaseLock L bl cx w = (r, v)" by fastforce
  note rel = lock_server.ReleaseLock_effect [OF assms r]
  show ?thesis using lock_server.AcquireLock_owner [OF assms, of bl as w w'] rel by (simp add: r)
qed

theorem lock_operations_witness:
  "lm_key (snd (AcquireLock mem_lock (NewBatchLock ''s1'') [\<lparr>at_start = None, at_wait = None, at_world = id\<rparr>]
     \<lparr>lm_key = None, lm_clock = 0, lm_faults = []\<rparr>)) = Some (''s1'', lockTTL)"
proof -
  have "AcquireLock mem_lock (NewBatchLock ''s1'') [\<lparr>at_start = None, at_wait = None, at_world = id\<rparr>]
     \<lparr>lm_key = None, lm_clock = 0, lm_faults = []\<rparr>
     = (Some None, \<lparr>lm_key = Some (''s1'', lockTTL), lm_clock = 0, lm_faults = []\<rparr>)"
    by (simp add: mem_lock_def lock_fault_def next_fault_def holder_def set_nx_def NewBatchLock_def)
  then show ?thesis
    using lock_operations [OF mem_lock.lock_server_axioms, of "NewBatchLock ''s1''"
        "[\<lparr>at_start = None, at_wait = None, at_world = id\<rparr>]" "\<lparr>lm_key = None, lm_clock = 0, lm_faults = []\<rparr>"
        "\<lparr>lm_key = Some (''s1'', lockTTL), lm_clock = 0, lm_faults = []\<rparr>"]
    by (simp add: NewBatchLock_def)
qed





end
