(* ===== verification/Streamer.thy ===== *)
theory Streamer
  imports CsvParser BatchLock Publisher
begin

text \<open>
  The streamer, \<open>internal/streamer/streamer.go\<close>: a pass reads the whole CSV file, stamps every record
  with the time of the pass and publishes the records in order; \<open>Start\<close> repeats passes under the
  batch lock. The queue, the lock server, the file, the clock and the identifiers are arguments.
\<close>

section \<open>State\<close>

record streamer_Config =
  sc_CSVPath :: string
  sc_StreamInterval :: duration
  sc_InstanceID :: string
  sc_QueueBufferSize :: int
  sc_QueueWorkers :: int
  sc_LoopMode :: bool

record Streamer =
  s_config :: streamer_Config
  s_rowsSent :: int64
  s_errorCount :: int64

definition NewStreamer :: "streamer_Config \<Rightarrow> Streamer" where
  "NewStreamer config = \<lparr>s_config = config, s_rowsSent = 0, s_errorCount = 0\<rparr>"

record StreamerStats =
  ss_RowsSent :: int64
  ss_ErrorCount :: int64

definition streamer_Stats :: "Streamer \<Rightarrow> StreamerStats" where
  "streamer_Stats s = \<lparr>ss_RowsSent = s_rowsSent s, ss_ErrorCount = s_errorCount s\<rparr>"

definition TopicTelemetry :: string where "TopicTelemetry = ''telemetry''"

section \<open>One record\<close>

definition batch_point :: "CSVRecord \<Rightarrow> go_time \<Rightarrow> string \<Rightarrow> TelemetryPoint" where
  "batch_point record batchTimestamp batchID =
     (ToTelemetryPoint record)\<lparr>tp_Timestamp := batchTimestamp, tp_BatchID := batchID\<rparr>"

definition record_headers :: "string \<Rightarrow> TelemetryPoint \<Rightarrow> string \<Rightarrow> string gomap" where
  "record_headers instanceID telemetry batchID =
     map_put ''batch_id'' batchID (map_put ''metric_name'' (tp_MetricName telemetry)
       (map_put ''gpu_uuid'' (tp_GPUUUID telemetry) (map_put ''instance_id'' instanceID [])))"

definition record_metadata :: "CSVRecord \<Rightarrow> json gomap" where
  "record_metadata record =
     map_put ''namespace'' (JStr (csr_Namespace record)) (map_put ''pod'' (JStr (csr_Pod record))
       (map_put ''container'' (JStr (csr_Container record)) (map_put ''model_name'' (JStr (csr_ModelName record))
       (map_put ''gpu_index'' (JStr (csr_GPUID record)) (map_put ''device'' (JStr (csr_Device record))
       (map_put ''hostname'' (JStr (csr_Hostname record)) []))))))"

text \<open>The message of a record, with the identifier \<open>uuid.New\<close> makes for it.\<close>

definition record_message :: "streamer_Config \<Rightarrow> CSVRecord \<Rightarrow> go_time \<Rightarrow> string \<Rightarrow> string \<Rightarrow> error + Message" where
  "record_message config record batchTimestamp batchID uuid =
     (let telemetry = batch_point record batchTimestamp batchID
      in case telemetry_json telemetry of
           Inl e \<Rightarrow> Inl (Wrapf ''failed to marshal telemetry'' e)
         | Inr payload \<Rightarrow> Inr \<lparr>msg_ID = uuid, msg_Topic = TopicTelemetry, msg_Payload = Raw (Json payload),
             msg_Headers = Some (record_headers (sc_InstanceID config) telemetry batchID),
             msg_Timestamp = batchTimestamp, msg_Metadata = Some (record_metadata record)\<rparr>)"

type_synonym 'w publish = "ctx \<Rightarrow> Message \<Rightarrow> 'w \<Rightarrow> error option \<times> 'w"

definition processRecord :: "'w publish \<Rightarrow> streamer_Config \<Rightarrow> ctx \<Rightarrow> CSVRecord \<Rightarrow> go_time \<Rightarrow> string \<Rightarrow> string \<Rightarrow> 'w
    \<Rightarrow> error option \<times> 'w" where
  "processRecord publish config cx record batchTimestamp batchID uuid w =
     (case record_message config record batchTimestamp batchID uuid of
        Inl e \<Rightarrow> (Some e, w)
      | Inr msg \<Rightarrow> (case publish cx msg w of
            (Some e, w1) \<Rightarrow> (Some (Wrapf ''failed to publish message'' e), w1)
          | (None, w1) \<Rightarrow> (None, w1)))"

section \<open>One pass\<close>

text \<open>
  The loop that reads the records. An error other than \<open>io.EOF\<close> is counted and skipped, so a file that cannot
  be read to its end is read forever: \<open>None\<close>.
\<close>

partial_function (option) read_records :: "StreamReader \<Rightarrow> CSVRecord list \<Rightarrow> int64
    \<Rightarrow> (CSVRecord list \<times> int64) option" where
  "read_records reader records errorCount =
     (case Next reader of
        (Inr record, reader') \<Rightarrow> read_records reader' (records @ [record]) errorCount
      | (Inl err, reader') \<Rightarrow>
          if err = EOF then Some (records, errorCount) else read_records reader' records (errorCount + 1))"

text \<open>
  What the publishing loop sees for a record: the context when it is looked at and when the request is made,
  and the identifier of the message.
\<close>

record record_round =
  rr_ctx :: ctx
  rr_publish :: ctx
  rr_uuid :: string

fun publish_records :: "'w publish \<Rightarrow> go_time \<Rightarrow> string \<Rightarrow> (nat \<Rightarrow> record_round) \<Rightarrow> nat \<Rightarrow> CSVRecord list \<Rightarrow> Streamer \<Rightarrow> 'w
    \<Rightarrow> error option \<times> Streamer \<times> 'w" where
  "publish_records publish ts batchID rounds i [] s w = (None, s, w)"
| "publish_records publish ts batchID rounds i (record # records) s w =
     (case rr_ctx (rounds i) of
        Some e \<Rightarrow> (Some e, s, w)
      | None \<Rightarrow>
          (case processRecord publish (s_config s) (rr_publish (rounds i)) record ts batchID (rr_uuid (rounds i)) w of
             (Some e, w1) \<Rightarrow> publish_records publish ts batchID rounds (Suc i) records s w1
           | (None, w1) \<Rightarrow> publish_records publish ts batchID rounds (Suc i) records (s\<lparr>s_rowsSent := s_rowsSent s + 1\<rparr>) w1))"

text \<open>The file as \<open>os.Open\<close> gives it: an error, or a text with the read error that ends it.\<close>

type_synonym csv_file = "error + string \<times> error option"

definition streamFile :: "'w publish \<Rightarrow> csv_file \<Rightarrow> go_time \<Rightarrow> (nat \<Rightarrow> record_round) \<Rightarrow> Streamer \<Rightarrow> 'w
    \<Rightarrow> (error option \<times> Streamer \<times> 'w) option" where
  "streamFile publish file now rounds s w =
     (case file of
        Inl e \<Rightarrow> Some (Some (Wrapf (''failed to open CSV file '' @ sc_CSVPath (s_config s)) e), s, w)
      | Inr (text, io) \<Rightarrow>
          (case NewStreamReader text io of
             Inl e \<Rightarrow> Some (Some (Wrapf ''failed to create stream reader'' e), s, w)
           | Inr reader \<Rightarrow>
               (case read_records reader [] (s_errorCount s) of
                  None \<Rightarrow> None
                | Some (records, errors) \<Rightarrow>
                    Some (publish_records publish now (format_rfc3339 True now) rounds 0 records
                            (s\<lparr>s_errorCount := errors\<rparr>) w))))"

section \<open>Passes under the lock\<close>

text \<open>
  What a pass sees: the context at its start, the rounds of the lock, the file, the clock, the rounds of its
  records, the context when it releases the lock, and what happens while it sleeps.
\<close>

record 'w pass =
  ps_ctx :: ctx
  ps_lock :: "'w attempt list"
  ps_file :: csv_file
  ps_now :: go_time
  ps_rounds :: "nat \<Rightarrow> record_round"
  ps_release :: ctx
  ps_sleep :: "'w \<Rightarrow> 'w"

definition release :: "'w lock_redis \<Rightarrow> BatchLock option \<Rightarrow> ctx \<Rightarrow> 'w \<Rightarrow> 'w" where
  "release L lock cx w = (case lock of None \<Rightarrow> w | Some bl \<Rightarrow> snd (ReleaseLock L bl cx w))"

text \<open>The deferred releases run when \<open>Start\<close> returns, one for each time the lock was acquired.\<close>

definition deferred :: "'w lock_redis \<Rightarrow> BatchLock option \<Rightarrow> nat \<Rightarrow> 'w \<Rightarrow> 'w" where
  "deferred L lock n = release L lock None ^^ n"

definition ctx_error :: "error \<Rightarrow> bool" where
  "ctx_error e \<longleftrightarrow> e = Canceled \<or> e = DeadlineExceeded"

text \<open>
  The result of \<open>Start\<close> for the passes given: it is still running, its file never ends, or it has returned.
\<close>

datatype run_result = Running | NeverReturns | Returned "error option"

fun streamer_Start :: "'w lock_redis \<Rightarrow> BatchLock option \<Rightarrow> 'w publish \<Rightarrow> nat \<Rightarrow> 'w pass list \<Rightarrow> Streamer \<Rightarrow> 'w
    \<Rightarrow> run_result \<times> Streamer \<times> 'w" where
  "streamer_Start L lock publish n [] s w = (Running, s, w)"
| "streamer_Start L lock publish n (p # ps) s w =
     (case ps_ctx p of
        Some e \<Rightarrow> (Returned (Some e), s, deferred L lock n w)
      | None \<Rightarrow>
          (case (case lock of None \<Rightarrow> (Some None, w) | Some bl \<Rightarrow> AcquireLock L bl (ps_lock p) w) of
             (None, w1) \<Rightarrow> (Running, s, w1)
           | (Some (Some e), w1) \<Rightarrow>
               if ctx_error e then (Returned (Some e), s, deferred L lock n w1)
               else streamer_Start L lock publish n ps s (ps_sleep p w1)
           | (Some None, w1) \<Rightarrow>
               let n1 = (case lock of None \<Rightarrow> n | Some bl \<Rightarrow> Suc n)
               in (case streamFile publish (ps_file p) (ps_now p) (ps_rounds p) s w1 of
                     None \<Rightarrow> (NeverReturns, s, w1)
                   | Some (Some e, s2, w2) \<Rightarrow>
                       let w3 = release L lock None w2; s3 = s2\<lparr>s_errorCount := s_errorCount s2 + 1\<rparr>
                       in if ctx_error e then (Returned (Some e), s2, deferred L lock n1 w3)
                          else if \<not> sc_LoopMode (s_config s2) then (Returned (Some e), s3, deferred L lock n1 w3)
                          else streamer_Start L lock publish n1 ps s3 (ps_sleep p w3)
                   | Some (None, s2, w2) \<Rightarrow>
                       let w3 = release L lock (ps_release p) w2
                       in if \<not> sc_LoopMode (s_config s2) then (Returned None, s2, deferred L lock n1 w3)
                          else streamer_Start L lock publish n1 ps s2 (ps_sleep p w3))))"

end
