(* ===== verification/StreamerCorrect.thy ===== *)
theory StreamerCorrect
  imports Streamer
begin

text \<open>
  What the streamer does: the reading loop ends exactly when the file can be read to its end, and then it has
  the records a reference reading of the file gives; the publishing loop sends one message per record, in
  order; and a file written with quotes is published record by record.
\<close>

section \<open>The reading loop\<close>

text \<open>
  A reference: the results of the calls of \<open>Next\<close> until the end of the file, or until one takes no line.
\<close>

function results_of :: "StreamReader \<Rightarrow> (error + CSVRecord) list" where
  "results_of reader =
     (let (res, reader') = Next reader
      in if res = Inl EOF then []
         else if length (cr_lines (sr_reader reader')) < length (cr_lines (sr_reader reader))
         then res # results_of reader' else [])"
  by pat_completeness auto
termination by (relation "measure (\<lambda>reader. length (cr_lines (sr_reader reader)))") auto

declare results_of.simps [simp del]

definition successes :: "('e + 'a) list \<Rightarrow> 'a list" where
  "successes xs = List.map_filter (\<lambda>x. case x of Inl e \<Rightarrow> None | Inr a \<Rightarrow> Some a) xs"

definition failures :: "('e + 'a) list \<Rightarrow> nat" where
  "failures xs = length (filter isl xs)"

lemma successes_simps [simp]:
  "successes [] = []" "successes (Inr a # xs) = a # successes xs" "successes (Inl e # xs) = successes xs"
  by (simp_all add: successes_def List.map_filter_def)

lemma failures_simps [simp]:
  "failures [] = 0" "failures (Inr a # xs) = failures xs" "failures (Inl e # xs) = Suc (failures xs)"
  by (simp_all add: failures_def)

lemma read_records_ends:
  assumes "cr_ioError (sr_reader reader) = None \<or> cr_ioError (sr_reader reader) = Some EOF"
  shows "read_records reader records n
    = Some (records @ successes (results_of reader), n + of_nat (failures (results_of reader)))"
  using assms
proof (induction reader arbitrary: records n rule: results_of.induct)
  case (1 reader)
  obtain res reader' where nx: "Next reader = (res, reader')" by fastforce
  have io: "cr_ioError (sr_reader reader') = None \<or> cr_ioError (sr_reader reader') = Some EOF" using Next_progress [OF nx] 1(2) by simp
  show ?case
  proof (cases "res = Inl EOF")
    case True
    then have "results_of reader = []" by (subst results_of.simps) (simp add: nx)
    with True show ?thesis by (subst read_records.simps) (simp add: nx)
  next
    case False
    then have less: "length (cr_lines (sr_reader reader')) < length (cr_lines (sr_reader reader))"
      using Next_progress [OF nx] 1(2) by auto
    note IH = 1(1) [OF nx [symmetric] refl False less io]
    have "results_of reader = res # results_of reader'"
      by (subst results_of.simps) (simp add: nx False less)
    then show ?thesis
      using False by (subst read_records.simps) (cases res; simp add: nx IH)
  qed
qed

text \<open>With a read error, the end of the file is never seen.\<close>

lemma Next_never_EOF:
  assumes "Next reader = (Inl e, reader')" and "cr_ioError (sr_reader reader) = Some io" and "io \<noteq> EOF"
  shows "e \<noteq> EOF"
proof (cases "csv_Read (sr_reader reader)")
  case (Pair x r)
  then show ?thesis using assms csv_Read_never_EOF [of "sr_reader reader"]
    by (cases x) (auto simp: Next_def Let_def split: sum.splits)
qed

lemma read_records_never:
  assumes "cr_ioError (sr_reader reader) = Some io" and "io \<noteq> EOF"
  shows "read_records reader records n = None"
proof (rule ccontr)
  assume "read_records reader records n \<noteq> None"
  then obtain y where "read_records reader records n = Some y" by blast
  then have "cr_ioError (sr_reader reader) \<noteq> Some io"
  proof (induction rule: read_records.raw_induct [rotated, consumes 1, case_names step])
    case (step read_records reader records n y)
    obtain res reader' where nx: "Next reader = (res, reader')" by fastforce
    have io: "cr_ioError (sr_reader reader') = cr_ioError (sr_reader reader)" using Next_progress [OF nx] by simp
    show ?case
    proof
      assume s: "cr_ioError (sr_reader reader) = Some io"
      show False
      proof (cases res)
        case (Inl e)
        then have "e \<noteq> EOF" using Next_never_EOF [OF _ s assms(2)] nx by simp
        then show ?thesis
          using step(1) [of reader' records "n + 1" y] step(2) s io by (simp add: nx Inl)
      next
        case (Inr r)
        then show ?thesis
          using step(1) [of reader' "records @ [r]" n y] step(2) s io by (simp add: nx)
      qed
    qed
  qed
  with assms show False by simp
qed

lemma NewStreamReader_io: "NewStreamReader text io = Inr reader \<Longrightarrow> cr_ioError (sr_reader reader) = io"
  by (auto simp: NewStreamReader_def split: prod.splits sum.splits option.splits dest: csv_Read_progress)

section \<open>The publishing loop\<close>

definition clock_ok :: "go_time \<Rightarrow> bool" where
  "clock_ok now \<longleftrightarrow> t_off now mod 60 = 0 \<and> \<not> isl (time_json now)"

definition batch_message :: "streamer_Config \<Rightarrow> go_time \<Rightarrow> (nat \<Rightarrow> record_round) \<Rightarrow> nat \<times> CSVRecord \<Rightarrow> error + Message" where
  "batch_message config now rounds = (\<lambda>(i, record).
     record_message config record now (format_rfc3339 True now) (rr_uuid (rounds i)))"

definition batch_messages :: "streamer_Config \<Rightarrow> go_time \<Rightarrow> (nat \<Rightarrow> record_round) \<Rightarrow> nat \<Rightarrow> CSVRecord list \<Rightarrow> Message list" where
  "batch_messages config now rounds i records = successes (map (batch_message config now rounds) (enumerate i records))"

lemma batch_messages_simps [simp]:
  "batch_messages config now rounds i [] = []"
  "batch_messages config now rounds i (r # rs) =
     (case record_message config r now (format_rfc3339 True now) (rr_uuid (rounds i)) of
        Inl e \<Rightarrow> [] | Inr m \<Rightarrow> [m]) @ batch_messages config now rounds (Suc i) rs"
  by (simp_all add: batch_messages_def batch_message_def split: sum.split)

lemma map_put_neq [simp]: "map_put k v m \<noteq> []"
  by (cases "(k, v, m)" rule: map_put.cases) auto

lemma record_maps:
  "record_headers i t b \<noteq> []" "map_ok (record_headers i t b)" "record_metadata r \<noteq> []" "map_ok (record_metadata r)"
  unfolding record_headers_def record_metadata_def by (intro map_put_neq map_ok_put map_ok_Nil)+

lemma nil_if_empty_Some: "h \<noteq> [] \<Longrightarrow> nil_if_empty (Some h) = Some h"
  by (cases h) (simp_all add: nil_if_empty_def)

lemma record_message_props:
  assumes "record_message config r ts b i = Inr m" and "t_off ts mod 60 = 0"
  shows "message_ok m" "msg_Topic m = TopicTelemetry" "wire_form m = m" "\<exists>j. message_json m = Inr j"
    "\<exists>j. telemetry_json (batch_point r ts b) = Inr j \<and> msg_Payload m = Raw (Json j)"
proof -
  obtain j where j: "telemetry_json (batch_point r ts b) = Inr j"
    and m: "m = \<lparr>msg_ID = i, msg_Topic = TopicTelemetry, msg_Payload = Raw (Json j),
             msg_Headers = Some (record_headers (sc_InstanceID config) (batch_point r ts b) b),
             msg_Timestamp = ts, msg_Metadata = Some (record_metadata r)\<rparr>"
    using assms(1) by (auto simp: record_message_def Let_def split: sum.splits)
  obtain tj where tj: "time_json ts = Inr tj"
    using j by (auto simp: telemetry_json_def batch_point_def split: sum.splits)
  have "\<forall>(k, v) \<in> set (record_metadata r). any_ok v"
    unfolding record_metadata_def by (auto dest!: in_map_put simp: any_ok_def)
  then show "message_ok m"
    using assms(2) by (simp add: m message_ok_def record_maps)
  show "wire_form m = m"
    by (simp add: m wire_form_def nil_if_empty_Some record_maps)
  show "msg_Topic m = TopicTelemetry" by (simp add: m)
  show "\<exists>j. message_json m = Inr j" by (simp add: m message_json_def raw_json_def tj)
  show "\<exists>j. telemetry_json (batch_point r ts b) = Inr j \<and> msg_Payload m = Raw (Json j)" using j by (simp add: m)
qed

lemma record_message_total:
  assumes "clock_ok ts"
  shows "\<exists>m. record_message config r ts b i = Inr m"
  using assms by (cases "time_json ts")
    (auto simp: clock_ok_def record_message_def telemetry_json_def batch_point_def Let_def)

context publisher
begin

text \<open>Whatever publications fail, only messages of the batch are added, in order, and each at most once.\<close>

lemma publish_records_subseq:
  assumes "publish_records publish now (format_rfc3339 True now) rounds i records s w = (r, s', w')"
    and "t_off now mod 60 = 0"
  shows "\<exists>ms k. sent w' = (sent w)(TopicTelemetry := sent w TopicTelemetry @ ms)
    \<and> subseq ms (batch_messages (s_config s) now rounds i records)
    \<and> k \<le> length ms \<and> s' = s\<lparr>s_rowsSent := s_rowsSent s + of_nat k\<rparr>
    \<and> (r = None \<or> (\<exists>i. r = rr_ctx (rounds i)))"
  using assms(1)
proof (induction records arbitrary: i s w)
  case Nil
  then show ?case by (intro exI [of _ "[]"] exI [of _ 0]) auto
next
  case (Cons rec records)
  let ?rm = "record_message (s_config s) rec now (format_rfc3339 True now) (rr_uuid (rounds i))"
  show ?case
  proof (cases "rr_ctx (rounds i)")
    case (Some e)
    then show ?thesis
      using Cons.prems by (intro exI [of _ "[]"] exI [of _ 0]) (auto intro: sym)
  next
    case live: None
    show ?thesis
    proof (cases ?rm)
      case (Inl e)
      then have "publish_records publish now (format_rfc3339 True now) rounds (Suc i) records s w = (r, s', w')"
        using Cons.prems live by (simp add: processRecord_def)
      from Cons.IH [OF this] show ?thesis by (simp add: Inl)
    next
      case (Inr m)
      note m = record_message_props [OF Inr assms(2)]
      obtain x w1 where x: "publish (rr_publish (rounds i)) m w = (x, w1)" by fastforce
      obtain ms1 where ms1: "sent w1 = (sent w)(TopicTelemetry := sent w TopicTelemetry @ ms1)"
        "ms1 = [m] \<or> ms1 = [] \<and> x \<noteq> None"
        using publish_ok [OF m(1)] publish_err [OF m(1)] x
        by (cases x) (force simp: m(2,3))+
      define s1 where "s1 = (case x of None \<Rightarrow> s\<lparr>s_rowsSent := s_rowsSent s + 1\<rparr> | Some e \<Rightarrow> s)"
      have "publish_records publish now (format_rfc3339 True now) rounds (Suc i) records s1 w1 = (r, s', w')"
        using Cons.prems live by (simp add: processRecord_def Inr x s1_def split: option.splits)
      from Cons.IH [OF this] obtain ms k where h:
        "sent w' = (sent w1)(TopicTelemetry := sent w1 TopicTelemetry @ ms)"
        "subseq ms (batch_messages (s_config s1) now rounds (Suc i) records)" "k \<le> length ms"
        "s' = s1\<lparr>s_rowsSent := s_rowsSent s1 + of_nat k\<rparr>" "r = None \<or> (\<exists>i. r = rr_ctx (rounds i))" by blast
      have c: "s_config s1 = s_config s" by (simp add: s1_def split: option.splits)
      have "sent w' = (sent w)(TopicTelemetry := sent w TopicTelemetry @ ms1 @ ms)" by (simp add: h(1) ms1(1))
      moreover have "subseq (ms1 @ ms) (batch_messages (s_config s) now rounds i (rec # records))"
        using ms1(2) h(2) by (auto simp: Inr c)
      moreover have "(if x = None then Suc k else k) \<le> length (ms1 @ ms)" using ms1(2) h(3) by auto
      moreover have "s' = s\<lparr>s_rowsSent := s_rowsSent s + of_nat (if x = None then Suc k else k)\<rparr>"
        by (simp add: h(4) s1_def split: option.splits)
      ultimately show ?thesis using h(5) by blast
    qed
  qed
qed

end

context reliable_publisher
begin

lemma publish_records_all:
  assumes "clock_ok now" and "\<And>i. rr_ctx (rounds i) = None" and "\<And>i. rr_publish (rounds i) = None"
  shows "\<exists>w'. publish_records publish now (format_rfc3339 True now) rounds i records s w
      = (None, s\<lparr>s_rowsSent := s_rowsSent s + of_nat (length records)\<rparr>, w')
    \<and> sent w' = (sent w)(TopicTelemetry := sent w TopicTelemetry @ batch_messages (s_config s) now rounds i records)
    \<and> length (batch_messages (s_config s) now rounds i records) = length records"
proof (induction records arbitrary: i s w)
  case Nil
  then show ?case by simp
next
  case (Cons rec records)
  obtain m where Inr: "record_message (s_config s) rec now (format_rfc3339 True now) (rr_uuid (rounds i)) = Inr m"
    using record_message_total [OF assms(1)] by blast
  have "t_off now mod 60 = 0" using assms(1) by (simp add: clock_ok_def)
  note m = record_message_props [OF Inr this]
  obtain j where j: "message_json m = Inr j" using m(4) by blast
  obtain w1 where w1: "publish None m w = (None, w1)"
    using publish_done [OF m(1) j, of w] by (cases "publish None m w") auto
  note ok = publish_ok [OF m(1) w1]
  define s1 where "s1 = s\<lparr>s_rowsSent := s_rowsSent s + 1\<rparr>"
  have c: "s_config s1 = s_config s" by (simp add: s1_def)
  obtain w' where w': "publish_records publish now (format_rfc3339 True now) rounds (Suc i) records s1 w1
      = (None, s1\<lparr>s_rowsSent := s_rowsSent s1 + of_nat (length records)\<rparr>, w')"
    "sent w' = (sent w1)(TopicTelemetry := sent w1 TopicTelemetry @ batch_messages (s_config s) now rounds (Suc i) records)"
    "length (batch_messages (s_config s) now rounds (Suc i) records) = length records"
    using Cons.IH [of "Suc i" s1 w1] unfolding c by blast
  have "sent w' = (sent w)(TopicTelemetry := sent w TopicTelemetry @ batch_messages (s_config s) now rounds i (rec # records))"
    by (simp add: w'(2) ok m(2,3) Inr)
  moreover have "publish_records publish now (format_rfc3339 True now) rounds i (rec # records) s w
      = (None, s\<lparr>s_rowsSent := s_rowsSent s + of_nat (length (rec # records))\<rparr>, w')"
    using w'(1) by (simp add: assms(2,3) processRecord_def Inr w1 s1_def add.assoc)
  ultimately show ?case using w'(3) by (intro exI [of _ w']) (simp only: batch_messages_simps Inr, simp)
qed

end

section \<open>A quoted file\<close>

definition quoted_file :: "string list list \<Rightarrow> string" where
  "quoted_file rows = concat (map quote_record rows)"

lemma csv_lines_quoted_file:
  "\<forall>row \<in> set rows. row \<noteq> [] \<and> LF \<notin> set (concat row) \<Longrightarrow> csv_lines (quoted_file rows) = map quote_record rows"
proof (induction rows)
  case Nil
  then show ?case by (simp add: quoted_file_def csv_lines_def)
next
  case (Cons row rows)
  then show ?case using csv_lines_quoted [of row "quoted_file rows"] by (simp add: quoted_file_def)
qed

lemma NewStreamReader_quoted:
  assumes "ParseHeader header NewCSVParser = (None, p)"
    and "\<forall>row \<in> set (header # rows). row \<noteq> [] \<and> LF \<notin> set (concat row)"
  shows "NewStreamReader (quoted_file (header # rows)) None = Inr \<lparr>sr_reader = \<lparr>cr_lines = map quote_record rows,
    cr_ioError = None, cr_FieldsPerRecord = length header\<rparr>, sr_parser = p, sr_row = 1\<rparr>"
  using csv_lines_quoted_file [OF assms(2)] assms
  by (simp add: NewStreamReader_def csv_Read_quoted)

lemma results_of_quoted:
  assumes "\<forall>row \<in> set rows. row \<noteq> [] \<and> length row = n"
  shows "successes (results_of \<lparr>sr_reader = \<lparr>cr_lines = map quote_record rows, cr_ioError = None,
      cr_FieldsPerRecord = n\<rparr>, sr_parser = p, sr_row = k\<rparr>) = successes (map (ParseRow p) rows)
    \<and> failures (results_of \<lparr>sr_reader = \<lparr>cr_lines = map quote_record rows, cr_ioError = None,
      cr_FieldsPerRecord = n\<rparr>, sr_parser = p, sr_row = k\<rparr>) = failures (map (ParseRow p) rows)"
  using assms
proof (induction rows arbitrary: k)
  case Nil
  then show ?case by (subst (1 2) results_of.simps) (simp add: Next_def csv_Read_def)
next
  case (Cons row rows)
  let ?sr = "\<lparr>sr_reader = \<lparr>cr_lines = map quote_record (row # rows), cr_ioError = None, cr_FieldsPerRecord = n\<rparr>,
    sr_parser = p, sr_row = k\<rparr>"
  have "csv_Read (sr_reader ?sr) = (Inr row, (sr_reader ?sr)\<lparr>cr_lines := map quote_record rows, cr_FieldsPerRecord := n\<rparr>)"
    using csv_Read_quoted [of "sr_reader ?sr" row "map quote_record rows"] Cons.prems by simp
  then have nx: "Next ?sr = (case ParseRow p row of
      Inl e \<Rightarrow> Inl (Wrapf (''row '' @ Itoa (k + 1)) e) | Inr r \<Rightarrow> Inr r,
      ?sr\<lparr>sr_reader := (sr_reader ?sr)\<lparr>cr_lines := map quote_record rows, cr_FieldsPerRecord := n\<rparr>, sr_row := k + 1\<rparr>)"
    by (simp add: Next_def Let_def split: sum.split)
  from Cons.IH [of "k + 1"] Cons.prems nx show ?case
    by (subst (1 2) results_of.simps) (cases "ParseRow p row"; simp)
qed

section \<open>The lock at the end\<close>

lemma deferred_released:
  assumes "live_lock_server L key clock" and "0 < n"
  shows "holder (clock (deferred L (Some bl) n w)) (key (deferred L (Some bl) n w)) \<noteq> Some (bl_lockValue bl)"
proof -
  obtain k where "n = Suc k" using assms(2) by (cases n) auto
  then have "deferred L (Some bl) n w = snd (ReleaseLock L bl None (deferred L (Some bl) k w))"
    by (simp add: deferred_def release_def)
  then show ?thesis using live_lock_server.ReleaseLock_released [OF assms(1)] by metis
qed

lemma Start_released:
  assumes "live_lock_server L key clock"
    and "streamer_Start L (Some bl) publish n ps s w = (Returned r, s', w')"
    and "\<forall>p \<in> set ps. \<forall>e. ps_ctx p = Some e \<longrightarrow> ctx_error e"
  shows "holder (clock w') (key w') \<noteq> Some (bl_lockValue bl) \<or> n = 0 \<and> (\<exists>e. r = Some e \<and> ctx_error e)"
  using assms(2,3)
proof (induction ps arbitrary: n s w)
  case Nil
  then show ?case by simp
next
  case (Cons p ps)
  note fin = deferred_released [OF assms(1), of _ bl]
  show ?case
  proof (cases "ps_ctx p")
    case (Some e)
    then have "ctx_error e" using Cons.prems(2) by simp
    moreover have "r = Some e" "w' = deferred L (Some bl) n w" using Cons.prems(1) Some by simp_all
    ultimately show ?thesis using fin [of n w] by auto
  next
    case live: None
    obtain a w1 where a: "AcquireLock L bl (ps_lock p) w = (a, w1)" by fastforce
    consider (waits) "a = None" | (refused) e where "a = Some (Some e)" | (got) "a = Some None"
      by (cases a; cases "the a") auto
    then show ?thesis
    proof cases
      case waits
      with Cons.prems live a show ?thesis by simp
    next
      case refused
      with Cons live a show ?thesis using fin [of n w1] by (auto split: if_splits)
    next
      case got
      show ?thesis
      proof (cases "streamFile publish (ps_file p) (ps_now p) (ps_rounds p) s w1")
        case None
        with Cons.prems live a got show ?thesis by simp
      next
        case (Some x)
        obtain r2 s2 w2 where x: "streamFile publish (ps_file p) (ps_now p) (ps_rounds p) s w1 = Some (r2, s2, w2)"
          using Some by (cases x) auto
        note run = Cons.prems(1) [unfolded streamer_Start.simps, simplified live a got x option.case prod.case Let_def]
        note IH = Cons.IH [of "Suc n"]
        show ?thesis
          using run IH fin [of "Suc n"] Cons.prems(2) by (cases r2) (auto split: if_splits)
      qed
    qed
  qed
qed

section \<open>Passes that end\<close>

lemma streamFile_None_iff:
  "streamFile publish file now rounds s w = None \<longleftrightarrow>
     (\<exists>text io reader. file = Inr (text, Some io) \<and> io \<noteq> EOF \<and> NewStreamReader text (Some io) = Inr reader)"
proof (cases "\<exists>text io reader. file = Inr (text, io) \<and> NewStreamReader text io = Inr reader")
  case False
  then show ?thesis by (auto simp: streamFile_def split: sum.splits prod.splits)
next
  case True
  then obtain str io reader where f: "file = Inr (str, io)" "NewStreamReader str io = Inr reader" by blast
  note ioe = NewStreamReader_io [OF f(2)]
  show ?thesis
  proof (cases "io = None \<or> io = Some EOF")
    case True
    then show ?thesis
      using read_records_ends [of reader] ioe by (auto simp: streamFile_def f)
  next
    case False
    then obtain e where e: "io = Some e" "e \<noteq> EOF" by auto
    then have "NewStreamReader str (Some e) = Inr reader" using f(2) by simp
    then show ?thesis
      using read_records_never [of reader e] ioe e by (auto simp: streamFile_def f(1))
  qed
qed

lemma pass_ends_readable:
  assumes "streamFile publish file now rounds s w = Some x" and "file = Inr (str, io)" and "NewStreamReader str io = Inr reader"
  shows "io = None \<or> io = Some EOF"
proof (rule ccontr)
  assume "\<not> (io = None \<or> io = Some EOF)"
  then obtain e where "io = Some e" "e \<noteq> EOF" by auto
  then have "streamFile publish file now rounds s w = None" using assms(2,3) by (auto simp: streamFile_None_iff)
  with assms(1) show False by simp
qed

section \<open>Properties\<close>


text \<open>C20. When \<open>Start\<close> ends for another reason than a done context - the pass is over and loop mode is off, or
  the pass failed - the instance does not hold the batch lock any more, whatever happened to the key.\<close>

theorem start_releases_the_lock:
  assumes "live_lock_server L key clock"
    and "streamer_Start L (Some bl) publish 0 ps s w = (Returned r, s', w')"
    and "\<forall>p \<in> set ps. \<forall>e. ps_ctx p = Some e \<longrightarrow> ctx_error e" and "\<forall>e. r = Some e \<longrightarrow> \<not> ctx_error e"
  shows "holder (clock w') (key w') \<noteq> Some (bl_lockValue bl)"
  using Start_released [OF assms(1-3)] assms(4) by blast

definition one_pass :: "lock_mem pass" where
  "one_pass = \<lparr>ps_ctx = None, ps_lock = [\<lparr>at_start = None, at_wait = None, at_world = id\<rparr>], ps_file = Inl EOF,
     ps_now = zero_time, ps_rounds = (\<lambda>i. \<lparr>rr_ctx = None, rr_publish = None, rr_uuid = []\<rparr>), ps_release = None, ps_sleep = id\<rparr>"

definition one_shot :: streamer_Config where
  "one_shot = \<lparr>sc_CSVPath = ''f'', sc_StreamInterval = 0, sc_InstanceID = ''s1'', sc_QueueBufferSize = 1,
     sc_QueueWorkers = 1, sc_LoopMode = False\<rparr>"

theorem start_releases_the_lock_witness:
  "\<exists>r s' w'. streamer_Start calm_lock (Some (NewBatchLock ''s1'')) (\<lambda>cx m w. (None, w)) 0 [one_pass] (NewStreamer one_shot)
       \<lparr>lm_key = None, lm_clock = 0, lm_faults = []\<rparr> = (Returned r, s', w')
     \<and> holder (lm_clock w') (lm_key w') \<noteq> Some ''s1''"
proof -
  obtain s' w' where run: "streamer_Start calm_lock (Some (NewBatchLock ''s1'')) (\<lambda>cx m w. (None, w)) 0 [one_pass] (NewStreamer one_shot)
       \<lparr>lm_key = None, lm_clock = 0, lm_faults = []\<rparr> = (Returned (Some (Wrapf (''failed to open CSV file '' @ ''f'') EOF)), s', w')"
    by (simp add: one_pass_def one_shot_def calm_lock_def mem_lock_def lock_fault_def holder_def streamFile_def
        ctx_error_def Let_def NewStreamer_def)
  from start_releases_the_lock [OF calm_lock.live_lock_server_axioms run]
  have "holder (lm_clock w') (lm_key w') \<noteq> Some ''s1''"
    by (simp add: one_pass_def ctx_error_def NewBatchLock_def)
  with run show ?thesis by blast
qed

end
