(* ===== verification/Mongo.thy ===== *)
theory Mongo
  imports Domain "HOL-Library.Option_ord"
begin

text \<open>
  The document store as the repositories use it: documents, queries, and the calls of the MongoDB driver
  as a parameter with laws. A collection is a list of documents; the \<open>_id\<close> the driver adds to a document
  is left out, since the program never reads it.
\<close>

section \<open>Documents\<close>

text \<open>The values the program stores: texts, and instants in milliseconds.\<close>

datatype bson = BString string | BDate int

type_synonym document = "(string \<times> bson) list"

text \<open>A condition on a field: a value, or a range of instants.\<close>

datatype condition = Is bson | Range "int option" "int option"

type_synonym query = "(string \<times> condition) list"

fun satisfies :: "condition \<Rightarrow> bson option \<Rightarrow> bool" where
  "satisfies (Is v) x \<longleftrightarrow> x = Some v"
| "satisfies (Range lo hi) (Some (BDate d)) \<longleftrightarrow> (\<forall>l. lo = Some l \<longrightarrow> l \<le> d) \<and> (\<forall>h. hi = Some h \<longrightarrow> d \<le> h)"
| "satisfies (Range lo hi) x \<longleftrightarrow> False"

definition matches :: "query \<Rightarrow> document \<Rightarrow> bool" where
  "matches q d \<longleftrightarrow> list_all (\<lambda>(n, c). satisfies c (map_of d n)) q"

text \<open>\<open>$set\<close>: a field that exists takes the new value in its place, another one is added at the end.\<close>

fun set_field :: "string \<Rightarrow> bson \<Rightarrow> document \<Rightarrow> document" where
  "set_field n v [] = [(n, v)]"
| "set_field n v ((n', v') # d) = (if n' = n then (n, v) # d else (n', v') # set_field n v d)"

definition set_fields :: "document \<Rightarrow> document \<Rightarrow> document" where
  "set_fields u d = fold (\<lambda>(n, v). set_field n v) u d"

text \<open>An upserted document starts with the fields that the query fixes.\<close>

definition query_fields :: "query \<Rightarrow> document" where
  "query_fields q = List.map_filter (\<lambda>(n, c). case c of Is v \<Rightarrow> Some (n, v) | _ \<Rightarrow> None) q"

text \<open>
  An upsert of one document: one of the matching documents is updated, and if there is none, a new one is
  added.
\<close>

definition upserted :: "query \<Rightarrow> document \<Rightarrow> document list \<Rightarrow> document list \<Rightarrow> bool" where
  "upserted q u ds ds' \<longleftrightarrow>
     (if \<exists>d \<in> set ds. matches q d
      then \<exists>i < length ds. matches q (ds ! i) \<and> ds' = ds[i := set_fields u (ds ! i)]
      else ds' = ds @ [set_fields u (query_fields q)])"

fun all_upserted :: "(query \<times> document) list \<Rightarrow> document list \<Rightarrow> document list \<Rightarrow> bool" where
  "all_upserted [] ds ds' \<longleftrightarrow> ds' = ds"
| "all_upserted ((q, u) # us) ds ds' \<longleftrightarrow> (\<exists>ds1. upserted q u ds ds1 \<and> all_upserted us ds1 ds')"

section \<open>The driver\<close>

text \<open>A collection has a database and a name. A result that can fail is a sum, a bare error an option.\<close>

type_synonym collection = "string \<times> string"

record 'w mongo =
  Ping :: "'w \<Rightarrow> error option \<times> 'w"
  UpdateOne :: "collection \<Rightarrow> query \<Rightarrow> document \<Rightarrow> 'w \<Rightarrow> error option \<times> 'w"
  BulkWrite :: "collection \<Rightarrow> (query \<times> document) list \<Rightarrow> 'w \<Rightarrow> error option \<times> 'w"
  InsertOne :: "collection \<Rightarrow> document \<Rightarrow> 'w \<Rightarrow> error option \<times> 'w"
  InsertMany :: "collection \<Rightarrow> document list \<Rightarrow> 'w \<Rightarrow> error option \<times> 'w"
  FindOne :: "collection \<Rightarrow> query \<Rightarrow> 'w \<Rightarrow> (error + document) \<times> 'w"
  Find :: "collection \<Rightarrow> query \<Rightarrow> string option \<Rightarrow> int option \<Rightarrow> 'w \<Rightarrow> (error + document list) \<times> 'w"
  CountDocuments :: "collection \<Rightarrow> query \<Rightarrow> 'w \<Rightarrow> (error + int) \<times> 'w"
  IsDuplicateKeyError :: "error \<Rightarrow> bool"

text \<open>The instant in a field; a document without one sorts before all others.\<close>

definition date_of :: "string \<Rightarrow> document \<Rightarrow> int option" where
  "date_of n d = (case map_of d n of Some (BDate t) \<Rightarrow> Some t | _ \<Rightarrow> None)"

definition not_newer :: "string \<Rightarrow> document \<Rightarrow> document \<Rightarrow> bool" where
  "not_newer n d d' \<longleftrightarrow> (case (date_of n d', date_of n d) of
     (None, _) \<Rightarrow> True | (Some t', None) \<Rightarrow> False | (Some t', Some t) \<Rightarrow> t' \<le> t)"

text \<open>
  A find answers with the matching documents in an order of its own, newest first if it sorts, documents of
  the same instant in any order, cut off at the limit; a limit of 0 is none, and a negative one is taken
  without its sign.
\<close>

definition limited :: "int option \<Rightarrow> 'a list \<Rightarrow> 'a list" where
  "limited lim xs = (case lim of None \<Rightarrow> xs | Some n \<Rightarrow> if n = 0 then xs else take (nat \<bar>n\<bar>) xs)"

definition answers :: "query \<Rightarrow> string option \<Rightarrow> int option \<Rightarrow> document list \<Rightarrow> document list \<Rightarrow> bool" where
  "answers q srt lim ds res \<longleftrightarrow> (\<exists>ps. mset ps = mset (filter (matches q) ds)
     \<and> (\<forall>n. srt = Some n \<longrightarrow> sorted_wrt (not_newer n) ps) \<and> res = limited lim ps)"

text \<open>
  The laws. A call that fails may have been carried out, an unordered bulk of inserts in part.
\<close>

locale mongo_server =
  fixes M :: "'w mongo" and docs :: "'w \<Rightarrow> collection \<Rightarrow> document list"
  assumes Ping_docs: "Ping M w = (x, w') \<Longrightarrow> docs w' = docs w"
    and UpdateOne_ok: "UpdateOne M c q u w = (None, w') \<Longrightarrow>
      \<exists>ds. upserted q u (docs w c) ds \<and> docs w' = (docs w)(c := ds)"
    and UpdateOne_err: "UpdateOne M c q u w = (Some e, w') \<Longrightarrow>
      docs w' = docs w \<or> (\<exists>ds. upserted q u (docs w c) ds \<and> docs w' = (docs w)(c := ds))"
    and BulkWrite_ok: "BulkWrite M c us w = (None, w') \<Longrightarrow>
      \<exists>us' ds. mset us' = mset us \<and> all_upserted us' (docs w c) ds \<and> docs w' = (docs w)(c := ds)"
    and BulkWrite_err: "BulkWrite M c us w = (Some e, w') \<Longrightarrow>
      \<exists>us' ds. mset us' \<subseteq># mset us \<and> all_upserted us' (docs w c) ds \<and> docs w' = (docs w)(c := ds)"
    and InsertOne_ok: "InsertOne M c d w = (None, w') \<Longrightarrow> docs w' = (docs w)(c := docs w c @ [d])"
    and InsertOne_err: "InsertOne M c d w = (Some e, w') \<Longrightarrow>
      docs w' = docs w \<or> docs w' = (docs w)(c := docs w c @ [d])"
    and InsertMany_ok: "InsertMany M c ds w = (None, w') \<Longrightarrow>
      \<exists>ds'. mset ds' = mset ds \<and> docs w' = (docs w)(c := docs w c @ ds')"
    and InsertMany_err: "InsertMany M c ds w = (Some e, w') \<Longrightarrow>
      \<exists>ds'. mset ds' \<subseteq># mset ds \<and> docs w' = (docs w)(c := docs w c @ ds')"
    and FindOne_docs: "FindOne M c q w = (r, w') \<Longrightarrow> docs w' = docs w"
    and FindOne_ok: "FindOne M c q w = (Inr d, w') \<Longrightarrow> d \<in> set (docs w c) \<and> matches q d"
    and FindOne_none: "FindOne M c q w = (Inl ErrNoDocuments, w') \<Longrightarrow> \<forall>d \<in> set (docs w c). \<not> matches q d"
    and Find_docs: "Find M c q srt lim w = (rl, w') \<Longrightarrow> docs w' = docs w"
    and Find_ok: "Find M c q srt lim w = (Inr res, w') \<Longrightarrow> answers q srt lim (docs w c) res"
    and CountDocuments_docs: "CountDocuments M c q w = (rn, w') \<Longrightarrow> docs w' = docs w"
    and CountDocuments_ok: "CountDocuments M c q w = (Inr n, w') \<Longrightarrow>
      n = int (length (filter (matches q) (docs w c)))"

section \<open>A server in memory\<close>

text \<open>Collections, and the faults of the next calls: a fault refuses its call.\<close>

record mongo_mem =
  mm_docs :: "collection \<Rightarrow> document list"
  mm_faults :: "bool list"

definition mongo_fault :: "mongo_mem \<Rightarrow> error option" where
  "mongo_fault w = (if mm_faults w \<noteq> [] \<and> hd (mm_faults w) then Some (External ''server selection timeout'') else None)"

definition called :: "mongo_mem \<Rightarrow> mongo_mem" where
  "called w = w\<lparr>mm_faults := tl (mm_faults w)\<rparr>"

definition put_docs :: "collection \<Rightarrow> document list \<Rightarrow> mongo_mem \<Rightarrow> mongo_mem" where
  "put_docs c ds w = w\<lparr>mm_docs := (mm_docs w)(c := ds)\<rparr>"

fun upsert_first :: "query \<Rightarrow> document \<Rightarrow> document list \<Rightarrow> document list" where
  "upsert_first q u [] = [set_fields u (query_fields q)]"
| "upsert_first q u (d # ds) = (if matches q d then set_fields u d # ds else d # upsert_first q u ds)"

definition newest_first :: "string \<Rightarrow> document list \<Rightarrow> document list" where
  "newest_first n ds = rev (sort_key (date_of n) ds)"

definition unless_down :: "(mongo_mem \<Rightarrow> mongo_mem) \<Rightarrow> mongo_mem \<Rightarrow> error option \<times> mongo_mem" where
  "unless_down f w = (case mongo_fault w of Some e \<Rightarrow> (Some e, called w) | None \<Rightarrow> (None, f (called w)))"

definition reply_unless_down :: "(mongo_mem \<Rightarrow> error + 'a) \<Rightarrow> mongo_mem \<Rightarrow> (error + 'a) \<times> mongo_mem" where
  "reply_unless_down f w = (case mongo_fault w of Some e \<Rightarrow> (Inl e, called w) | None \<Rightarrow> (f w, called w))"

definition mem_mongo :: "mongo_mem mongo" where
  "mem_mongo = \<lparr>
     Ping = unless_down id,
     UpdateOne = (\<lambda>c q u. unless_down (\<lambda>w. put_docs c (upsert_first q u (mm_docs w c)) w)),
     BulkWrite = (\<lambda>c us. unless_down (\<lambda>w. put_docs c (fold (\<lambda>(q, u). upsert_first q u) us (mm_docs w c)) w)),
     InsertOne = (\<lambda>c d. unless_down (\<lambda>w. put_docs c (mm_docs w c @ [d]) w)),
     InsertMany = (\<lambda>c ds. unless_down (\<lambda>w. put_docs c (mm_docs w c @ ds) w)),
     FindOne = (\<lambda>c q. reply_unless_down (\<lambda>w. case find (matches q) (mm_docs w c) of
        None \<Rightarrow> Inl ErrNoDocuments | Some d \<Rightarrow> Inr d)),
     Find = (\<lambda>c q srt lim. reply_unless_down (\<lambda>w. Inr (limited lim
        ((case srt of None \<Rightarrow> id | Some n \<Rightarrow> newest_first n) (filter (matches q) (mm_docs w c)))))),
     CountDocuments = (\<lambda>c q. reply_unless_down (\<lambda>w. Inr (int (length (filter (matches q) (mm_docs w c)))))),
     IsDuplicateKeyError = (\<lambda>e. e = External ''E11000 duplicate key error'')\<rparr>"

lemma upsert_first_upserted: "upserted q u ds (upsert_first q u ds)"
proof (induction ds)
  case Nil
  then show ?case by (simp add: upserted_def)
next
  case (Cons d ds)
  show ?case
  proof (cases "matches q d")
    case True
    then show ?thesis by (auto simp: upserted_def intro!: exI [of _ 0])
  next
    case False
    with Cons show ?thesis
      by (fastforce simp: upserted_def nth_Cons split: if_splits nat.splits intro: exI [of _ "Suc _"])
  qed
qed

lemma all_upserted_fold: "all_upserted us ds (fold (\<lambda>(q, u). upsert_first q u) us ds)"
  by (induction us arbitrary: ds) (auto intro!: exI [of _ "upsert_first _ _ _"] upsert_first_upserted)

lemma newest_first_sorted: "sorted_wrt (not_newer n) (newest_first n ds)" "mset (newest_first n ds) = mset ds"
proof -
  have "sorted_wrt (\<lambda>d d'. date_of n d \<le> date_of n d') (sort_key (date_of n) ds)"
    using sorted_sort_key [of "date_of n" ds] by (simp add: sorted_wrt_map)
  then show "sorted_wrt (not_newer n) (newest_first n ds)"
    unfolding newest_first_def sorted_wrt_rev
    by (rule sorted_wrt_mono_rel [rotated]) (auto simp: not_newer_def split: option.splits)
  show "mset (newest_first n ds) = mset ds" by (simp add: newest_first_def)
qed

lemma mem_docs_sel [simp]: "mm_docs (called w) = mm_docs w" "mm_docs (put_docs c ds w) = (mm_docs w)(c := ds)"
  by (simp_all add: called_def put_docs_def)

lemma unless_down_cases:
  "unless_down f w = (None, w') \<Longrightarrow> w' = f (called w)" "unless_down f w = (Some e, w') \<Longrightarrow> w' = called w"
  by (auto simp: unless_down_def split: option.splits)

lemma reply_unless_down_cases:
  "reply_unless_down f w = (r, w') \<Longrightarrow> w' = called w"
  "reply_unless_down f w = (Inr x, w') \<Longrightarrow> f w = Inr x"
  "reply_unless_down f w = (Inl ErrNoDocuments, w') \<Longrightarrow> f w = Inl ErrNoDocuments"
  by (auto simp: reply_unless_down_def mongo_fault_def split: option.splits if_splits)

interpretation mem_mongo: mongo_server mem_mongo mm_docs
proof
  fix c q u us d ds srt lim e x r n w w' and res :: "document list"
  show "Ping mem_mongo w = (x, w') \<Longrightarrow> mm_docs w' = mm_docs w"
    by (cases x) (auto simp: mem_mongo_def dest: unless_down_cases)
  show "UpdateOne mem_mongo c q u w = (None, w') \<Longrightarrow>
      \<exists>ds. upserted q u (mm_docs w c) ds \<and> mm_docs w' = (mm_docs w)(c := ds)"
    by (auto simp: mem_mongo_def dest!: unless_down_cases intro: upsert_first_upserted)
  show "UpdateOne mem_mongo c q u w = (Some e, w') \<Longrightarrow>
      mm_docs w' = mm_docs w \<or> (\<exists>ds. upserted q u (mm_docs w c) ds \<and> mm_docs w' = (mm_docs w)(c := ds))"
    by (auto simp: mem_mongo_def dest!: unless_down_cases)
  show "BulkWrite mem_mongo c us w = (None, w') \<Longrightarrow>
      \<exists>us' ds. mset us' = mset us \<and> all_upserted us' (mm_docs w c) ds \<and> mm_docs w' = (mm_docs w)(c := ds)"
    by (rule exI [of _ us]) (auto simp: mem_mongo_def dest!: unless_down_cases intro: all_upserted_fold)
  show "BulkWrite mem_mongo c us w = (Some e, w') \<Longrightarrow>
      \<exists>us' ds. mset us' \<subseteq># mset us \<and> all_upserted us' (mm_docs w c) ds \<and> mm_docs w' = (mm_docs w)(c := ds)"
    by (rule exI [of _ "[]"], rule exI [of _ "mm_docs w c"]) (auto simp: mem_mongo_def dest!: unless_down_cases)
  show "InsertOne mem_mongo c d w = (None, w') \<Longrightarrow> mm_docs w' = (mm_docs w)(c := mm_docs w c @ [d])"
    by (auto simp: mem_mongo_def dest!: unless_down_cases)
  show "InsertOne mem_mongo c d w = (Some e, w') \<Longrightarrow>
      mm_docs w' = mm_docs w \<or> mm_docs w' = (mm_docs w)(c := mm_docs w c @ [d])"
    by (auto simp: mem_mongo_def dest!: unless_down_cases)
  show "InsertMany mem_mongo c ds w = (None, w') \<Longrightarrow>
      \<exists>ds'. mset ds' = mset ds \<and> mm_docs w' = (mm_docs w)(c := mm_docs w c @ ds')"
    by (auto simp: mem_mongo_def dest!: unless_down_cases)
  show "InsertMany mem_mongo c ds w = (Some e, w') \<Longrightarrow>
      \<exists>ds'. mset ds' \<subseteq># mset ds \<and> mm_docs w' = (mm_docs w)(c := mm_docs w c @ ds')"
    by (auto simp: mem_mongo_def dest!: unless_down_cases intro!: exI [of _ "[]"])
  show "FindOne mem_mongo c q w = (x1, w') \<Longrightarrow> mm_docs w' = mm_docs w" for x1
    by (auto simp: mem_mongo_def dest!: reply_unless_down_cases(1))
  show "FindOne mem_mongo c q w = (Inr d, w') \<Longrightarrow> d \<in> set (mm_docs w c) \<and> matches q d"
    by (auto simp: mem_mongo_def find_Some_iff dest!: reply_unless_down_cases(2) split: option.splits)
  show "FindOne mem_mongo c q w = (Inl ErrNoDocuments, w') \<Longrightarrow> \<forall>d \<in> set (mm_docs w c). \<not> matches q d"
    by (auto simp: mem_mongo_def find_None_iff dest!: reply_unless_down_cases(3) split: option.splits)
  show "Find mem_mongo c q srt lim w = (x1, w') \<Longrightarrow> mm_docs w' = mm_docs w" for x1
    by (auto simp: mem_mongo_def dest!: reply_unless_down_cases(1))
  show "Find mem_mongo c q srt lim w = (Inr res, w') \<Longrightarrow> answers q srt lim (mm_docs w c) res"
    unfolding answers_def
    by (rule exI [of _ "(case srt of None \<Rightarrow> id | Some n \<Rightarrow> newest_first n) (filter (matches q) (mm_docs w c))"])
      (auto simp: mem_mongo_def newest_first_sorted dest!: reply_unless_down_cases(2) split: option.splits)
  show "CountDocuments mem_mongo c q w = (x1, w') \<Longrightarrow> mm_docs w' = mm_docs w" for x1
    by (auto simp: mem_mongo_def dest!: reply_unless_down_cases(1))
  show "CountDocuments mem_mongo c q w = (Inr n, w') \<Longrightarrow> n = int (length (filter (matches q) (mm_docs w c)))"
    by (auto simp: mem_mongo_def dest!: reply_unless_down_cases(2))
qed

text \<open>The same server without faults.\<close>

definition no_faults :: "mongo_mem \<Rightarrow> mongo_mem" where
  "no_faults w = w\<lparr>mm_faults := []\<rparr>"

definition calm_mongo :: "mongo_mem mongo" where
  "calm_mongo = \<lparr>
     Ping = Ping mem_mongo \<circ> no_faults, UpdateOne = (\<lambda>c q u. UpdateOne mem_mongo c q u \<circ> no_faults),
     BulkWrite = (\<lambda>c us. BulkWrite mem_mongo c us \<circ> no_faults), InsertOne = (\<lambda>c d. InsertOne mem_mongo c d \<circ> no_faults),
     InsertMany = (\<lambda>c ds. InsertMany mem_mongo c ds \<circ> no_faults), FindOne = (\<lambda>c q. FindOne mem_mongo c q \<circ> no_faults),
     Find = (\<lambda>c q srt lim. Find mem_mongo c q srt lim \<circ> no_faults),
     CountDocuments = (\<lambda>c q. CountDocuments mem_mongo c q \<circ> no_faults),
     IsDuplicateKeyError = IsDuplicateKeyError mem_mongo\<rparr>"

lemma no_faults_docs: "mm_docs (no_faults w) = mm_docs w"
  by (simp add: no_faults_def)

interpretation calm_mongo: mongo_server calm_mongo mm_docs
proof (unfold_locales, goal_cases)
  case 1 then show ?case using mem_mongo.Ping_docs by (fastforce simp: calm_mongo_def no_faults_docs)
next
  case 2 then show ?case using mem_mongo.UpdateOne_ok by (fastforce simp: calm_mongo_def no_faults_docs)
next
  case 3 then show ?case using mem_mongo.UpdateOne_err by (fastforce simp: calm_mongo_def no_faults_docs)
next
  case 4 then show ?case using mem_mongo.BulkWrite_ok by (fastforce simp: calm_mongo_def no_faults_docs)
next
  case 5 then show ?case using mem_mongo.BulkWrite_err by (fastforce simp: calm_mongo_def no_faults_docs)
next
  case 6 then show ?case using mem_mongo.InsertOne_ok by (fastforce simp: calm_mongo_def no_faults_docs)
next
  case 7 then show ?case using mem_mongo.InsertOne_err by (fastforce simp: calm_mongo_def no_faults_docs)
next
  case 8 then show ?case using mem_mongo.InsertMany_ok by (fastforce simp: calm_mongo_def no_faults_docs)
next
  case 9 then show ?case using mem_mongo.InsertMany_err by (fastforce simp: calm_mongo_def no_faults_docs)
next
  case 10 then show ?case using mem_mongo.FindOne_docs by (fastforce simp: calm_mongo_def no_faults_docs)
next
  case 11 then show ?case using mem_mongo.FindOne_ok by (fastforce simp: calm_mongo_def no_faults_docs)
next
  case 12 then show ?case using mem_mongo.FindOne_none by (fastforce simp: calm_mongo_def no_faults_docs)
next
  case 13 then show ?case using mem_mongo.Find_docs by (fastforce simp: calm_mongo_def no_faults_docs)
next
  case 14 then show ?case using mem_mongo.Find_ok by (fastforce simp: calm_mongo_def no_faults_docs)
next
  case 15 then show ?case using mem_mongo.CountDocuments_docs by (fastforce simp: calm_mongo_def no_faults_docs)
next
  case 16 then show ?case using mem_mongo.CountDocuments_ok by (fastforce simp: calm_mongo_def no_faults_docs)
qed

lemma calm_mongo_up:
  "\<exists>w'. UpdateOne calm_mongo c q u w = (None, w')" "\<exists>w'. InsertOne calm_mongo c d w = (None, w')"
  by (simp_all add: calm_mongo_def mem_mongo_def unless_down_def mongo_fault_def no_faults_def)

end
