(* ===== verification/Storage.thy ===== *)
theory Storage
  imports Mongo
begin

text \<open>
  The repositories: the interfaces of \<open>internal/storage/repository.go\<close> with the laws their callers rely on, and
  their implementation over MongoDB, \<open>internal/storage/mongodb\<close>.
\<close>

section \<open>The interfaces\<close>

record TimeFilter =
  tf_StartTime :: "go_time option"
  tf_EndTime :: "go_time option"
  tf_Limit :: "int option"

record 'w telemetry_repo =
  tr_Store :: "TelemetryPoint \<Rightarrow> 'w \<Rightarrow> error option \<times> 'w"
  tr_BulkStore :: "TelemetryPoint list \<Rightarrow> 'w \<Rightarrow> error option \<times> 'w"
  tr_GetByGPU :: "string \<Rightarrow> TimeFilter \<Rightarrow> 'w \<Rightarrow> (error + TelemetryPoint list) \<times> 'w"
  tr_Count :: "'w \<Rightarrow> int \<times> 'w"

record 'w gpu_repo =
  gr_Store :: "GPU \<Rightarrow> 'w \<Rightarrow> error option \<times> 'w"
  gr_BulkStore :: "GPU list \<Rightarrow> 'w \<Rightarrow> error option \<times> 'w"
  gr_GetByUUID :: "string \<Rightarrow> 'w \<Rightarrow> (error + GPU) \<times> 'w"
  gr_List :: "'w \<Rightarrow> (error + GPU list) \<times> 'w"
  gr_Count :: "'w \<Rightarrow> int \<times> 'w"

section \<open>What is stored\<close>

text \<open>Instants are kept to the millisecond, and in UTC.\<close>

definition millis :: "go_time \<Rightarrow> int" where
  "millis t = t_ns t div millisecond"

definition of_millis :: "int \<Rightarrow> go_time" where
  "of_millis d = \<lparr>t_ns = d * millisecond, t_off = 0\<rparr>"

definition stored_form :: "TelemetryPoint \<Rightarrow> TelemetryPoint" where
  "stored_form t = t\<lparr>tp_Timestamp := of_millis (millis (tp_Timestamp t))\<rparr>"

definition selected :: "string \<Rightarrow> TimeFilter \<Rightarrow> TelemetryPoint \<Rightarrow> bool" where
  "selected u f t \<longleftrightarrow> tp_GPUUUID t = u
     \<and> (\<forall>s. tf_StartTime f = Some s \<longrightarrow> millis s \<le> millis (tp_Timestamp t))
     \<and> (\<forall>e. tf_EndTime f = Some e \<longrightarrow> millis (tp_Timestamp t) \<le> millis e)"

lemma millis_of_millis [simp]: "millis (of_millis d) = d"
  by (simp add: millis_def of_millis_def millisecond_def)

lemma stored_form_idem [simp]: "stored_form (stored_form t) = stored_form t"
  by (simp add: stored_form_def)

section \<open>The contracts\<close>

text \<open>
  A GPU repository keeps one record per UUID: storing puts a record under its UUID, an error leaves the old or
  the new state, and reading changes nothing.
\<close>

locale gpu_repository =
  fixes G :: "'w gpu_repo" and gpus :: "'w \<Rightarrow> string \<Rightarrow> GPU option" and gpus_ok :: "'w \<Rightarrow> bool"
  assumes gStore_ok: "gpus_ok w \<Longrightarrow> gr_Store G g w = (None, w') \<Longrightarrow>
      gpus_ok w' \<and> gpus w' = (gpus w)(gpu_UUID g \<mapsto> g)"
    and gStore_err: "gpus_ok w \<Longrightarrow> gr_Store G g w = (Some e, w') \<Longrightarrow>
      gpus_ok w' \<and> (gpus w' = gpus w \<or> gpus w' = (gpus w)(gpu_UUID g \<mapsto> g))"
    and gBulkStore_ok: "gpus_ok w \<Longrightarrow> gr_BulkStore G gs w = (None, w') \<Longrightarrow>
      gpus_ok w' \<and> (\<forall>u. if u \<in> gpu_UUID ` set gs then \<exists>g \<in> set gs. gpu_UUID g = u \<and> gpus w' u = Some g
                     else gpus w' u = gpus w u)"
    and GetByUUID_same: "gpus_ok w \<Longrightarrow> gr_GetByUUID G u w = (rg, w') \<Longrightarrow> gpus_ok w' \<and> gpus w' = gpus w"
    and GetByUUID_ok: "gpus_ok w \<Longrightarrow> gr_GetByUUID G u w = (Inr g, w') \<Longrightarrow> gpus w u = Some g"
    and GetByUUID_none: "gpus_ok w \<Longrightarrow> gr_GetByUUID G u w = (Inl ErrGPUNotFound, w') \<Longrightarrow> gpus w u = None"
    and List_same: "gpus_ok w \<Longrightarrow> gr_List G w = (rl, w') \<Longrightarrow> gpus_ok w' \<and> gpus w' = gpus w"
    and List_ok: "gpus_ok w \<Longrightarrow> gr_List G w = (Inr gs, w') \<Longrightarrow>
      distinct (map gpu_UUID gs) \<and> set gs = ran (gpus w)"

text \<open>A telemetry repository keeps every point it is given.\<close>

locale telemetry_repository =
  fixes T :: "'w telemetry_repo" and points :: "'w \<Rightarrow> TelemetryPoint multiset" and points_ok :: "'w \<Rightarrow> bool"
  assumes tStore_ok: "points_ok w \<Longrightarrow> tr_Store T t w = (None, w') \<Longrightarrow>
      points_ok w' \<and> points w' = add_mset (stored_form t) (points w)"
    and tStore_err: "points_ok w \<Longrightarrow> tr_Store T t w = (Some e, w') \<Longrightarrow>
      points_ok w' \<and> (points w' = points w \<or> points w' = add_mset (stored_form t) (points w))"
    and tBulkStore_ok: "points_ok w \<Longrightarrow> tr_BulkStore T ts w = (None, w') \<Longrightarrow>
      points_ok w' \<and> points w' = points w + mset (map stored_form ts)"
    and GetByGPU_same: "points_ok w \<Longrightarrow> tr_GetByGPU T u f w = (r, w') \<Longrightarrow> points_ok w' \<and> points w' = points w"
    and GetByGPU_ok: "points_ok w \<Longrightarrow> tr_GetByGPU T u f w = (Inr ts, w') \<Longrightarrow>
      \<exists>ps. mset ps = filter_mset (selected u f) (points w)
        \<and> sorted_wrt (\<lambda>t t'. t_ns (tp_Timestamp t') \<le> t_ns (tp_Timestamp t)) ps \<and> ts = limited (tf_Limit f) ps"

text \<open>Both over one world; each leaves the records of the other alone.\<close>

locale repositories = gpu_repository + telemetry_repository +
  assumes gStore_points: "points_ok w \<Longrightarrow> gr_Store G g w = (rs, w') \<Longrightarrow> points_ok w' \<and> points w' = points w"
    and tStore_gpus: "gpus_ok w \<Longrightarrow> tr_Store T t w = (rs, w') \<Longrightarrow> gpus_ok w' \<and> gpus w' = gpus w"
    and GetByUUID_points: "points_ok w \<Longrightarrow> gr_GetByUUID G u w = (rg, w') \<Longrightarrow> points_ok w' \<and> points w' = points w"

text \<open>Repositories whose store is up.\<close>

locale live_repositories = repositories +
  assumes gStore_up: "\<exists>w'. gr_Store G g w = (None, w')" and tStore_up: "\<exists>w'. tr_Store T t w = (None, w')"

section \<open>The BSON form\<close>

text \<open>The fields of a GPU have no BSON tags, so the driver uses their names in lower case.\<close>

definition gpu_doc :: "GPU \<Rightarrow> document" where
  "gpu_doc g = [(''uuid'', BString (gpu_UUID g)), (''deviceid'', BString (gpu_DeviceID g)),
     (''gpuindex'', BString (gpu_GPUIndex g)), (''modelname'', BString (gpu_ModelName g)),
     (''hostname'', BString (gpu_Hostname g)), (''container'', BString (gpu_Container g)),
     (''pod'', BString (gpu_Pod g)), (''namespace'', BString (gpu_Namespace g))]"

definition omit_empty_field :: "string \<Rightarrow> string \<Rightarrow> document" where
  "omit_empty_field n s = (if s = [] then [] else [(n, BString s)])"

definition telemetry_doc :: "TelemetryPoint \<Rightarrow> document" where
  "telemetry_doc t = [(''gpu_uuid'', BString (tp_GPUUUID t)), (''metric_name'', BString (tp_MetricName t)),
     (''value'', BString (tp_Value t)), (''timestamp'', BDate (millis (tp_Timestamp t)))]
     @ omit_empty_field ''batch_id'' (tp_BatchID t) @ omit_empty_field ''labels_raw'' (tp_LabelsRaw t)"

type_synonym 'r bson_setter = "bson \<Rightarrow> 'r \<Rightarrow> error + 'r"

definition bson_string :: "(string \<Rightarrow> 'r \<Rightarrow> 'r) \<Rightarrow> 'r bson_setter" where
  "bson_string upd v r = (case v of BString s \<Rightarrow> Inr (upd s r)
     | BDate d \<Rightarrow> Inl (Errorf ''cannot decode UTC datetime into a string type''))"

definition bson_time :: "(go_time \<Rightarrow> 'r \<Rightarrow> 'r) \<Rightarrow> 'r bson_setter" where
  "bson_time upd v r = (case v of BDate d \<Rightarrow> Inr (upd (of_millis d) r)
     | BString s \<Rightarrow> (case parse_rfc3339 s of Some t \<Rightarrow> Inr (upd (t\<lparr>t_off := 0\<rparr>) r)
                    | None \<Rightarrow> Inl (Errorf ''parsing time'')))"

text \<open>A field goes to the struct field of its name; one without a struct field is skipped.\<close>

fun decode_doc :: "(string \<times> 'r bson_setter) list \<Rightarrow> document \<Rightarrow> 'r \<Rightarrow> error + 'r" where
  "decode_doc fs [] r = Inr r"
| "decode_doc fs ((n, v) # d) r =
     (case map_of fs n of None \<Rightarrow> decode_doc fs d r
      | Some f \<Rightarrow> (case f v r of Inl e \<Rightarrow> Inl e | Inr r' \<Rightarrow> decode_doc fs d r'))"

definition zero_GPU :: GPU where
  "zero_GPU = \<lparr>gpu_UUID = [], gpu_DeviceID = [], gpu_GPUIndex = [], gpu_ModelName = [], gpu_Hostname = [],
     gpu_Container = [], gpu_Pod = [], gpu_Namespace = []\<rparr>"

definition gpu_bson_fields :: "(string \<times> GPU bson_setter) list" where
  "gpu_bson_fields = [(''uuid'', bson_string (\<lambda>s g. g\<lparr>gpu_UUID := s\<rparr>)),
     (''deviceid'', bson_string (\<lambda>s g. g\<lparr>gpu_DeviceID := s\<rparr>)), (''gpuindex'', bson_string (\<lambda>s g. g\<lparr>gpu_GPUIndex := s\<rparr>)),
     (''modelname'', bson_string (\<lambda>s g. g\<lparr>gpu_ModelName := s\<rparr>)), (''hostname'', bson_string (\<lambda>s g. g\<lparr>gpu_Hostname := s\<rparr>)),
     (''container'', bson_string (\<lambda>s g. g\<lparr>gpu_Container := s\<rparr>)), (''pod'', bson_string (\<lambda>s g. g\<lparr>gpu_Pod := s\<rparr>)),
     (''namespace'', bson_string (\<lambda>s g. g\<lparr>gpu_Namespace := s\<rparr>))]"

definition telemetry_bson_fields :: "(string \<times> TelemetryPoint bson_setter) list" where
  "telemetry_bson_fields = [(''gpu_uuid'', bson_string (\<lambda>s t. t\<lparr>tp_GPUUUID := s\<rparr>)),
     (''metric_name'', bson_string (\<lambda>s t. t\<lparr>tp_MetricName := s\<rparr>)), (''value'', bson_string (\<lambda>s t. t\<lparr>tp_Value := s\<rparr>)),
     (''timestamp'', bson_time (\<lambda>s t. t\<lparr>tp_Timestamp := s\<rparr>)), (''batch_id'', bson_string (\<lambda>s t. t\<lparr>tp_BatchID := s\<rparr>)),
     (''labels_raw'', bson_string (\<lambda>s t. t\<lparr>tp_LabelsRaw := s\<rparr>))]"

definition decode_gpu :: "document \<Rightarrow> error + GPU" where
  "decode_gpu d = decode_doc gpu_bson_fields d zero_GPU"

definition decode_telemetry :: "document \<Rightarrow> error + TelemetryPoint" where
  "decode_telemetry d = decode_doc telemetry_bson_fields d zero_TelemetryPoint"

text \<open>\<open>cursor.All\<close>: every document, or the first error.\<close>

fun decode_all :: "(document \<Rightarrow> error + 'a) \<Rightarrow> document list \<Rightarrow> error + 'a list" where
  "decode_all dec [] = Inr []"
| "decode_all dec (d # ds) = (case dec d of Inl e \<Rightarrow> Inl e
     | Inr a \<Rightarrow> (case decode_all dec ds of Inl e \<Rightarrow> Inl e | Inr as \<Rightarrow> Inr (a # as)))"

lemma decode_gpu_doc [simp, wire]: "decode_gpu (gpu_doc g) = Inr g"
  by (cases g) (simp add: decode_gpu_def gpu_doc_def gpu_bson_fields_def bson_string_def zero_GPU_def)

lemma decode_telemetry_doc [simp, wire]: "decode_telemetry (telemetry_doc t) = Inr (stored_form t)"
  by (cases t) (simp add: decode_telemetry_def telemetry_doc_def telemetry_bson_fields_def bson_string_def
      bson_time_def zero_TelemetryPoint_def omit_empty_field_def stored_form_def)

lemma decode_all_map: "\<forall>x \<in> set xs. dec (enc x) = Inr (f x) \<Longrightarrow> decode_all dec (map enc xs) = Inr (map f xs)"
  by (induction xs) auto

section \<open>The repositories over MongoDB\<close>

record mongo_repo =
  mr_database :: string
  mr_collection :: string

definition coll :: "mongo_repo \<Rightarrow> collection" where
  "coll r = (mr_database r, mr_collection r)"

text \<open>\<open>mongo.Connect\<close> gives its error; the ping has to succeed.\<close>

definition NewRepository :: "'w mongo \<Rightarrow> error option \<Rightarrow> string \<Rightarrow> string \<Rightarrow> 'w \<Rightarrow> (error + mongo_repo) \<times> 'w" where
  "NewRepository M connect database collection w =
     (case connect of Some e \<Rightarrow> (Inl (Wrapf ''failed to connect to MongoDB'' e), w)
      | None \<Rightarrow> (case Ping M w of
            (Some e, w1) \<Rightarrow> (Inl (Wrapf ''failed to ping MongoDB'' e), w1)
          | (None, w1) \<Rightarrow> (Inr \<lparr>mr_database = database, mr_collection = collection\<rparr>, w1)))"

definition NewGPURepository :: "'w mongo \<Rightarrow> error option \<Rightarrow> string \<Rightarrow> string \<Rightarrow> 'w \<Rightarrow> (error + mongo_repo) \<times> 'w" where
  "NewGPURepository = NewRepository"

definition NewTelemetryRepository :: "'w mongo \<Rightarrow> error option \<Rightarrow> string \<Rightarrow> string \<Rightarrow> 'w \<Rightarrow> (error + mongo_repo) \<times> 'w" where
  "NewTelemetryRepository = NewRepository"

definition wrap :: "string \<Rightarrow> error option \<times> 'w \<Rightarrow> error option \<times> 'w" where
  "wrap s r = map_prod (map_option (Wrapf s)) id r"

definition uuid_query :: "string \<Rightarrow> query" where
  "uuid_query u = [(''uuid'', Is (BString u))]"

definition gpu_Store :: "'w mongo \<Rightarrow> mongo_repo \<Rightarrow> GPU \<Rightarrow> 'w \<Rightarrow> error option \<times> 'w" where
  "gpu_Store M r gpu w = wrap ''failed to store GPU'' (UpdateOne M (coll r) (uuid_query (gpu_UUID gpu)) (gpu_doc gpu) w)"

definition gpu_BulkStore :: "'w mongo \<Rightarrow> mongo_repo \<Rightarrow> GPU list \<Rightarrow> 'w \<Rightarrow> error option \<times> 'w" where
  "gpu_BulkStore M r gpus w =
     (if gpus = [] then (None, w)
      else wrap ''failed to bulk write GPUs''
             (BulkWrite M (coll r) (map (\<lambda>gpu. (uuid_query (gpu_UUID gpu), gpu_doc gpu)) gpus) w))"

definition gpu_GetByUUID :: "'w mongo \<Rightarrow> mongo_repo \<Rightarrow> string \<Rightarrow> 'w \<Rightarrow> (error + GPU) \<times> 'w" where
  "gpu_GetByUUID M r uuid w =
     (case FindOne M (coll r) (uuid_query uuid) w of (res, w1) \<Rightarrow>
        (case (case res of Inl e \<Rightarrow> Inl e | Inr d \<Rightarrow> decode_gpu d) of
           Inl e \<Rightarrow> (Inl (if e = ErrNoDocuments then ErrGPUNotFound else Wrapf ''failed to get GPU'' e), w1)
         | Inr gpu \<Rightarrow> (Inr gpu, w1)))"

definition gpu_List :: "'w mongo \<Rightarrow> mongo_repo \<Rightarrow> 'w \<Rightarrow> (error + GPU list) \<times> 'w" where
  "gpu_List M r w =
     (case Find M (coll r) [] None None w of
        (Inl e, w1) \<Rightarrow> (Inl (Wrapf ''failed to list GPUs'' e), w1)
      | (Inr ds, w1) \<Rightarrow> (map_sum (Wrapf ''failed to decode GPUs'') id (decode_all decode_gpu ds), w1))"

definition mongo_Count :: "'w mongo \<Rightarrow> mongo_repo \<Rightarrow> 'w \<Rightarrow> int \<times> 'w" where
  "mongo_Count M r w = (case CountDocuments M (coll r) [] w of (Inl e, w1) \<Rightarrow> (0, w1) | (Inr n, w1) \<Rightarrow> (n, w1))"

definition telemetry_Store :: "'w mongo \<Rightarrow> mongo_repo \<Rightarrow> TelemetryPoint \<Rightarrow> 'w \<Rightarrow> error option \<times> 'w" where
  "telemetry_Store M r telemetry w = wrap ''failed to insert telemetry'' (InsertOne M (coll r) (telemetry_doc telemetry) w)"

definition telemetry_BulkStore :: "'w mongo \<Rightarrow> mongo_repo \<Rightarrow> TelemetryPoint list \<Rightarrow> 'w \<Rightarrow> error option \<times> 'w" where
  "telemetry_BulkStore M r telemetry w =
     (if telemetry = [] then (None, w)
      else (case InsertMany M (coll r) (map telemetry_doc telemetry) w of
          (None, w1) \<Rightarrow> (None, w1)
        | (Some e, w1) \<Rightarrow>
            (Some (Wrapf (if IsDuplicateKeyError M e then ''some telemetry points already exist''
                          else ''failed to bulk insert telemetry'') e), w1)))"

definition telemetry_query :: "string \<Rightarrow> TimeFilter \<Rightarrow> query" where
  "telemetry_query gpuUUID f = (''gpu_uuid'', Is (BString gpuUUID)) #
     (if tf_StartTime f \<noteq> None \<or> tf_EndTime f \<noteq> None
      then [(''timestamp'', Range (map_option millis (tf_StartTime f)) (map_option millis (tf_EndTime f)))] else [])"

definition telemetry_GetByGPU :: "'w mongo \<Rightarrow> mongo_repo \<Rightarrow> string \<Rightarrow> TimeFilter \<Rightarrow> 'w
    \<Rightarrow> (error + TelemetryPoint list) \<times> 'w" where
  "telemetry_GetByGPU M r gpuUUID f w =
     (case Find M (coll r) (telemetry_query gpuUUID f) (Some ''timestamp'') (tf_Limit f) w of
        (Inl e, w1) \<Rightarrow> (Inl (Wrapf ''failed to query telemetry'' e), w1)
      | (Inr ds, w1) \<Rightarrow> (map_sum (Wrapf ''failed to decode telemetry'') id (decode_all decode_telemetry ds), w1))"

definition GPURepository :: "'w mongo \<Rightarrow> mongo_repo \<Rightarrow> 'w gpu_repo" where
  "GPURepository M r = \<lparr>gr_Store = gpu_Store M r, gr_BulkStore = gpu_BulkStore M r,
     gr_GetByUUID = gpu_GetByUUID M r, gr_List = gpu_List M r, gr_Count = mongo_Count M r\<rparr>"

definition TelemetryRepository :: "'w mongo \<Rightarrow> mongo_repo \<Rightarrow> 'w telemetry_repo" where
  "TelemetryRepository M r = \<lparr>tr_Store = telemetry_Store M r, tr_BulkStore = telemetry_BulkStore M r,
     tr_GetByGPU = telemetry_GetByGPU M r, tr_Count = mongo_Count M r\<rparr>"

end
