(* ===== verification/StorageCorrect.thy ===== *)
theory StorageCorrect
  imports Storage
begin

text \<open>
  The repositories over MongoDB keep the contracts of the interfaces, as long as the GPU collection
  started with at most one document per UUID and both collections hold only what the repositories wrote.
\<close>

section \<open>The GPU collection\<close>

definition gpu_docs_ok :: "document list \<Rightarrow> bool" where
  "gpu_docs_ok ds \<longleftrightarrow> (\<exists>gs. ds = map gpu_doc gs \<and> distinct (map gpu_UUID gs))"

definition gpus_of :: "document list \<Rightarrow> string \<Rightarrow> GPU option" where
  "gpus_of ds u = map_option (projr \<circ> decode_gpu) (find (matches (uuid_query u)) ds)"

lemma matches_uuid [simp]: "matches (uuid_query u) (gpu_doc g) \<longleftrightarrow> gpu_UUID g = u"
  by (simp add: matches_def uuid_query_def gpu_doc_def)

lemma set_fields_gpu_doc [simp]:
  "set_fields (gpu_doc g) (gpu_doc h) = gpu_doc g"
  "set_fields (gpu_doc g) (query_fields (uuid_query u)) = gpu_doc g"
  by (simp_all add: set_fields_def gpu_doc_def query_fields_def uuid_query_def List.map_filter_def)

lemma gpus_of_docs:
  assumes "distinct (map gpu_UUID gs)"
  shows "gpus_of (map gpu_doc gs) u = Some h \<longleftrightarrow> h \<in> set gs \<and> gpu_UUID h = u"
proof -
  have "gpus_of (map gpu_doc gs) u = find (\<lambda>g. gpu_UUID g = u) gs"
    by (induction gs) (auto simp: gpus_of_def)
  moreover have "find (\<lambda>g. gpu_UUID g = u) gs = Some h \<longleftrightarrow> h \<in> set gs \<and> gpu_UUID h = u"
    using assms
  proof (induction gs)
    case (Cons g gs)
    have "gpu_UUID h \<noteq> gpu_UUID g" if "h \<in> set gs" for h
      using imageI [OF that, of gpu_UUID] Cons.prems by auto
    with Cons show ?case by (cases "gpu_UUID g = u") auto
  qed simp
  ultimately show ?thesis by simp
qed

lemma gpus_of_eqI:
  assumes "distinct (map gpu_UUID gs)" and "\<And>h. h \<in> set gs \<Longrightarrow> m (gpu_UUID h) = Some h"
    and "\<And>u h. m u = Some h \<Longrightarrow> h \<in> set gs \<and> gpu_UUID h = u"
  shows "gpus_of (map gpu_doc gs) = m"
proof
  fix u
  show "gpus_of (map gpu_doc gs) u = m u"
  proof (cases "m u")
    case (Some h)
    with gpus_of_docs [OF assms(1), of u h] assms(3) [OF Some] show ?thesis by simp
  next
    case None
    show ?thesis
    proof (rule ccontr)
      assume "gpus_of (map gpu_doc gs) u \<noteq> m u"
      then obtain h where "gpus_of (map gpu_doc gs) u = Some h" using None by fastforce
      then have "h \<in> set gs \<and> gpu_UUID h = u" using gpus_of_docs [OF assms(1)] by blast
      then have "m u = Some h" using assms(2) by blast
      with None show False by simp
    qed
  qed
qed

text \<open>One upsert.\<close>

lemma upserted_gpu:
  assumes "upserted (uuid_query (gpu_UUID g)) (gpu_doc g) ds ds'" and "gpu_docs_ok ds"
  shows "gpu_docs_ok ds' \<and> gpus_of ds' = (gpus_of ds)(gpu_UUID g \<mapsto> g)"
proof -
  obtain gs where gs: "ds = map gpu_doc gs" "distinct (map gpu_UUID gs)" using assms(2) by (auto simp: gpu_docs_ok_def)
  have uniq: "h = k" if "h \<in> set gs" "k \<in> set gs" "gpu_UUID h = gpu_UUID k" for h k
    using that gs(2) by (simp add: distinct_map inj_on_def)
  show ?thesis
  proof (cases "\<exists>h \<in> set gs. gpu_UUID h = gpu_UUID g")
    case True
    then obtain i where i: "i < length gs" "gpu_UUID (gs ! i) = gpu_UUID g" "ds' = map gpu_doc (gs[i := g])"
      using assms(1) by (auto simp: upserted_def gs(1) map_update)
    have "map gpu_UUID (gs[i := g]) = map gpu_UUID gs"
      using i(1,2) by (simp add: map_update list_update_same_conv)
    then have d: "distinct (map gpu_UUID (gs[i := g]))" using gs(2) by simp
    have set: "set (gs[i := g]) = insert g (set gs - {gs ! i})"
      using gs(2) i(1) by (simp add: set_update_distinct distinct_map)
    have "gpus_of (map gpu_doc (gs[i := g])) = (gpus_of ds)(gpu_UUID g \<mapsto> g)"
    proof (rule gpus_of_eqI [OF d])
      show "((gpus_of ds)(gpu_UUID g \<mapsto> g)) (gpu_UUID h) = Some h" if "h \<in> set (gs[i := g])" for h
      proof (cases "h = g")
        case False
        then have h: "h \<in> set gs" "h \<noteq> gs ! i" using that set by auto
        then have "gpu_UUID h \<noteq> gpu_UUID g" using uniq [of h "gs ! i"] i(1,2) by auto
        then show ?thesis using h(1) gpus_of_docs [OF gs(2)] by (simp add: gs(1))
      qed simp
      show "h \<in> set (gs[i := g]) \<and> gpu_UUID h = u" if m: "((gpus_of ds)(gpu_UUID g \<mapsto> g)) u = Some h" for u h
      proof (cases "u = gpu_UUID g")
        case True
        with m have "h = g" by simp
        with True show ?thesis using set by blast
      next
        case False
        with m have h: "h \<in> set gs" "gpu_UUID h = u" using gpus_of_docs [OF gs(2)] by (auto simp: gs(1))
        with False i(2) show ?thesis by (auto simp: set)
      qed
    qed
    with d show ?thesis unfolding gpu_docs_ok_def i(3) by blast
  next
    case False
    then have ds': "ds' = map gpu_doc (gs @ [g])" using assms(1) by (auto simp: upserted_def gs(1))
    have d: "distinct (map gpu_UUID (gs @ [g]))" using gs(2) False by auto
    have "gpus_of (map gpu_doc (gs @ [g])) = (gpus_of ds)(gpu_UUID g \<mapsto> g)"
      by (rule gpus_of_eqI [OF d]) (use False gpus_of_docs [OF gs(2)] in \<open>auto simp: gs(1) split: if_splits\<close>)
    with d show ?thesis unfolding gpu_docs_ok_def ds' by blast
  qed
qed

lemma all_upserted_gpus:
  assumes "all_upserted (map (\<lambda>g. (uuid_query (gpu_UUID g), gpu_doc g)) gs) ds ds'" and "gpu_docs_ok ds"
  shows "gpu_docs_ok ds' \<and> (\<forall>u. if u \<in> gpu_UUID ` set gs then \<exists>g \<in> set gs. gpu_UUID g = u \<and> gpus_of ds' u = Some g
    else gpus_of ds' u = gpus_of ds u)"
  using assms
proof (induction gs arbitrary: ds)
  case Nil
  then show ?case by simp
next
  case (Cons g gs)
  then obtain ds1 where ds1: "upserted (uuid_query (gpu_UUID g)) (gpu_doc g) ds ds1"
    "all_upserted (map (\<lambda>g. (uuid_query (gpu_UUID g), gpu_doc g)) gs) ds1 ds'" by auto
  note one = upserted_gpu [OF ds1(1) Cons.prems(2)]
  have rest: "if u \<in> gpu_UUID ` set gs then \<exists>g \<in> set gs. gpu_UUID g = u \<and> gpus_of ds' u = Some g
    else gpus_of ds' u = gpus_of ds1 u" for u using Cons.IH [OF ds1(2)] one by blast
  have "if u \<in> gpu_UUID ` set (g # gs) then \<exists>h \<in> set (g # gs). gpu_UUID h = u \<and> gpus_of ds' u = Some h
    else gpus_of ds' u = gpus_of ds u" for u
    using rest [of u] one by (cases "u \<in> gpu_UUID ` set gs"; cases "u = gpu_UUID g") auto
  then show ?case using Cons.IH [OF ds1(2)] one by blast
qed

text \<open>A bulk is a permutation of the upserts it was given.\<close>

lemma mset_upserts:
  assumes "mset us = mset (map (\<lambda>g. (uuid_query (gpu_UUID g), gpu_doc g)) gs)"
  shows "\<exists>gs'. set gs' = set gs \<and> us = map (\<lambda>g. (uuid_query (gpu_UUID g), gpu_doc g)) gs'"
proof -
  define gs' where "gs' = map (projr \<circ> decode_gpu \<circ> snd) us"
  let ?f = "\<lambda>g. (uuid_query (gpu_UUID g), gpu_doc g)"
  note eq = mset_eq_setD [OF assms]
  have "?f ((projr \<circ> decode_gpu \<circ> snd) x) = x" if x: "x \<in> set us" for x
  proof -
    obtain g where "x = ?f g" using x eq by auto
    then show ?thesis by simp
  qed
  then have "us = map ?f gs'" unfolding gs'_def by (simp add: map_idI)
  moreover have "set gs' = (projr \<circ> decode_gpu \<circ> snd) ` ?f ` set gs" using eq by (simp add: gs'_def)
  then have "set gs' = set gs" by (simp add: image_image)
  ultimately show ?thesis by blast
qed

section \<open>The telemetry collection\<close>

definition telemetry_docs_ok :: "document list \<Rightarrow> bool" where
  "telemetry_docs_ok ds \<longleftrightarrow> (\<exists>ts. ds = map telemetry_doc ts)"

definition points_of :: "document list \<Rightarrow> TelemetryPoint multiset" where
  "points_of ds = mset (map (projr \<circ> decode_telemetry) ds)"

lemma telemetry_doc_stored [simp]: "telemetry_doc (stored_form t) = telemetry_doc t"
  by (simp add: telemetry_doc_def stored_form_def)

lemma decode_docs [simp]: "projr \<circ> decode_telemetry \<circ> telemetry_doc = stored_form" "projr \<circ> decode_gpu \<circ> gpu_doc = id"
  by (simp_all add: fun_eq_iff)

lemma points_of_docs [simp]: "points_of (map telemetry_doc ts) = mset (map stored_form ts)"
  unfolding points_of_def map_map decode_docs ..

lemma matches_telemetry [simp]: "matches (telemetry_query u f) (telemetry_doc t) \<longleftrightarrow> selected u f (stored_form t)"
  by (auto simp: matches_def telemetry_query_def telemetry_doc_def selected_def stored_form_def)

lemma date_of_telemetry: "date_of ''timestamp'' (telemetry_doc t) = Some (millis (tp_Timestamp t))"
  by (simp add: date_of_def telemetry_doc_def)

lemma not_newer_telemetry: "not_newer ''timestamp'' (telemetry_doc t) (telemetry_doc t')
    \<longleftrightarrow> t_ns (tp_Timestamp (stored_form t')) \<le> t_ns (tp_Timestamp (stored_form t))"
  by (simp add: not_newer_def date_of_telemetry stored_form_def of_millis_def millisecond_def)

lemma decode_all_telemetry:
  "set ds \<subseteq> telemetry_doc ` X \<Longrightarrow> decode_all decode_telemetry ds = Inr (map (projr \<circ> decode_telemetry) ds)"
  by (induction ds) auto

lemma limited_map: "map f (limited lim xs) = limited lim (map f xs)"
  by (simp add: limited_def take_map split: option.split)

lemma answers_telemetry:
  assumes "answers (telemetry_query u f) (Some ''timestamp'') lim ds res" and "telemetry_docs_ok ds"
  shows "\<exists>ps. mset ps = filter_mset (selected u f) (points_of ds)
      \<and> sorted_wrt (\<lambda>t t'. t_ns (tp_Timestamp t') \<le> t_ns (tp_Timestamp t)) ps
      \<and> decode_all decode_telemetry res = Inr (limited lim ps)"
proof -
  obtain ts where ts: "ds = map telemetry_doc ts" using assms(2) by (auto simp: telemetry_docs_ok_def)
  obtain xs where xs: "mset xs = mset (filter (matches (telemetry_query u f)) ds)"
    "sorted_wrt (not_newer ''timestamp'') xs" "res = limited lim xs"
    using assms(1) by (auto simp: answers_def)
  let ?dec = "projr \<circ> decode_telemetry"
  have sub: "set xs \<subseteq> telemetry_doc ` set ts" using mset_eq_setD [OF xs(1)] by (auto simp: ts)
  have "mset (map ?dec xs) = mset (map ?dec (filter (matches (telemetry_query u f)) ds))"
    using xs(1) by (metis mset_map)
  also have "\<dots> = filter_mset (selected u f) (points_of ds)"
    unfolding ts points_of_docs by (induction ts) auto
  finally have m: "mset (map ?dec xs) = filter_mset (selected u f) (points_of ds)" .
  have newer: "t_ns (tp_Timestamp (?dec y)) \<le> t_ns (tp_Timestamp (?dec x))"
    if xy: "x \<in> set xs" "y \<in> set xs" "not_newer ''timestamp'' x y" for x y
  proof -
    obtain t t' where "x = telemetry_doc t" "y = telemetry_doc t'" using xy(1,2) sub by blast
    with xy(3) show ?thesis by (simp add: not_newer_telemetry)
  qed
  have s: "sorted_wrt (\<lambda>t t'. t_ns (tp_Timestamp t') \<le> t_ns (tp_Timestamp t)) (map ?dec xs)"
    unfolding sorted_wrt_map using sorted_wrt_mono_rel [OF newer xs(2)] .
  have "set res \<subseteq> set xs" unfolding xs(3) by (auto simp: limited_def split: option.splits if_splits dest: in_set_takeD)
  then have "decode_all decode_telemetry res = Inr (map ?dec res)"
    using sub decode_all_telemetry [of res "set ts"] by blast
  then have "decode_all decode_telemetry res = Inr (limited lim (map ?dec xs))" by (simp add: xs(3) limited_map)
  with m s show ?thesis by blast
qed

section \<open>The contracts hold\<close>

lemma wrap_eq:
  "wrap s p = (None, w') \<longleftrightarrow> p = (None, w')"
  "wrap s p = (Some e, w') \<longleftrightarrow> (\<exists>e'. p = (Some e', w') \<and> e = Wrapf s e')"
  by (cases p; auto simp: wrap_def)+

locale mongo_repositories = mongo_server +
  fixes rg rt :: mongo_repo
  assumes other: "coll rg \<noteq> coll rt"

context mongo_repositories
begin

lemma gpu_Store_docs:
  assumes "gpu_Store M rg g w = (r, w')" and "gpu_docs_ok (docs w (coll rg))"
  shows "\<exists>ds. docs w' = (docs w)(coll rg := ds) \<and> gpu_docs_ok ds
    \<and> (gpus_of ds = (gpus_of (docs w (coll rg)))(gpu_UUID g \<mapsto> g) \<or> r \<noteq> None \<and> ds = docs w (coll rg))"
proof (cases r)
  case None
  then have "UpdateOne M (coll rg) (uuid_query (gpu_UUID g)) (gpu_doc g) w = (None, w')"
    using assms(1) by (simp add: gpu_Store_def wrap_eq)
  from UpdateOne_ok [OF this] upserted_gpu [OF _ assms(2)] show ?thesis by blast
next
  case (Some e)
  then obtain e' where "UpdateOne M (coll rg) (uuid_query (gpu_UUID g)) (gpu_doc g) w = (Some e', w')"
    using assms(1) by (auto simp: gpu_Store_def wrap_eq)
  from UpdateOne_err [OF this] consider "docs w' = docs w"
    | ds where "upserted (uuid_query (gpu_UUID g)) (gpu_doc g) (docs w (coll rg)) ds" "docs w' = (docs w)(coll rg := ds)"
    by blast
  then show ?thesis
  proof cases
    case 1
    then have "docs w' = (docs w)(coll rg := docs w (coll rg))" by simp
    then show ?thesis using Some assms(2) by blast
  next
    case (2 ds)
    then show ?thesis using upserted_gpu [OF 2(1) assms(2)] by blast
  qed
qed

lemma gpu_BulkStore_docs:
  assumes "gpu_BulkStore M rg gs w = (None, w')" and ok: "gpu_docs_ok (docs w (coll rg))"
  shows "gpu_docs_ok (docs w' (coll rg)) \<and> (\<forall>u. if u \<in> gpu_UUID ` set gs
      then \<exists>g \<in> set gs. gpu_UUID g = u \<and> gpus_of (docs w' (coll rg)) u = Some g
      else gpus_of (docs w' (coll rg)) u = gpus_of (docs w (coll rg)) u)"
proof (cases "gs = []")
  case True
  with assms show ?thesis by (simp add: gpu_BulkStore_def)
next
  case False
  then have "BulkWrite M (coll rg) (map (\<lambda>g. (uuid_query (gpu_UUID g), gpu_doc g)) gs) w = (None, w')"
    using assms(1) by (simp add: gpu_BulkStore_def wrap_eq)
  from BulkWrite_ok [OF this] obtain us ds where
    us: "mset us = mset (map (\<lambda>g. (uuid_query (gpu_UUID g), gpu_doc g)) gs)"
      "all_upserted us (docs w (coll rg)) ds" "docs w' = (docs w)(coll rg := ds)" by blast
  obtain gs' where gs': "set gs' = set gs" "us = map (\<lambda>g. (uuid_query (gpu_UUID g), gpu_doc g)) gs'"
    using mset_upserts [OF us(1)] by blast
  have "all_upserted (map (\<lambda>g. (uuid_query (gpu_UUID g), gpu_doc g)) gs') (docs w (coll rg)) ds"
    using us(2) unfolding gs'(2) .
  from all_upserted_gpus [OF this ok] show ?thesis unfolding gs'(1) us(3) fun_upd_same .
qed

lemma gpu_GetByUUID_docs:
  assumes "gpu_GetByUUID M rg u w = (r, w')" and ok: "gpu_docs_ok (docs w (coll rg))"
  shows "docs w' = docs w" "r = Inr g \<Longrightarrow> gpus_of (docs w (coll rg)) u = Some g"
    "r = Inl ErrGPUNotFound \<Longrightarrow> gpus_of (docs w (coll rg)) u = None"
proof -
  obtain hs where hs: "docs w (coll rg) = map gpu_doc hs" "distinct (map gpu_UUID hs)"
    using ok by (auto simp: gpu_docs_ok_def)
  obtain res where res: "FindOne M (coll rg) (uuid_query u) w = (res, w')"
    and r: "r = (case (case res of Inl e \<Rightarrow> Inl e | Inr d \<Rightarrow> decode_gpu d) of
       Inl e \<Rightarrow> Inl (if e = ErrNoDocuments then ErrGPUNotFound else Wrapf ''failed to get GPU'' e) | Inr gpu \<Rightarrow> Inr gpu)"
    using assms(1) by (cases "FindOne M (coll rg) (uuid_query u) w") (auto simp: gpu_GetByUUID_def split: sum.splits)
  show "docs w' = docs w" using FindOne_docs [OF res] .
  show "gpus_of (docs w (coll rg)) u = Some g" if "r = Inr g"
  proof (cases res)
    case (Inr d)
    with FindOne_ok [of "coll rg" "uuid_query u" w d w'] res that r show ?thesis
      by (auto simp: hs gpus_of_docs)
  qed (use that r in simp)
  show "gpus_of (docs w (coll rg)) u = None" if none: "r = Inl ErrGPUNotFound"
  proof (cases res)
    case (Inl e)
    then have "res = Inl ErrNoDocuments" using none r by (simp split: if_splits)
    with res FindOne_none have "\<forall>d \<in> set (docs w (coll rg)). \<not> matches (uuid_query u) d" by blast
    then show ?thesis by (simp add: gpus_of_def find_None_iff)
  next
    case (Inr d)
    with FindOne_ok [of "coll rg" "uuid_query u" w d w'] res none r show ?thesis by (auto simp: hs)
  qed
qed

lemma gpu_List_docs:
  assumes "gpu_List M rg w = (r, w')" and ok: "gpu_docs_ok (docs w (coll rg))"
  shows "docs w' = docs w" "r = Inr gs \<Longrightarrow> distinct (map gpu_UUID gs) \<and> set gs = ran (gpus_of (docs w (coll rg)))"
proof -
  obtain res where res: "Find M (coll rg) [] None None w = (res, w')"
    and r: "r = (case res of Inl e \<Rightarrow> Inl (Wrapf ''failed to list GPUs'' e)
        | Inr ds \<Rightarrow> map_sum (Wrapf ''failed to decode GPUs'') id (decode_all decode_gpu ds))"
    using assms(1) by (cases "Find M (coll rg) [] None None w") (auto simp: gpu_List_def split: sum.splits)
  show "docs w' = docs w" using Find_docs [OF res] .
  show "distinct (map gpu_UUID gs) \<and> set gs = ran (gpus_of (docs w (coll rg)))" if g: "r = Inr gs"
  proof -
    obtain ds where ds: "res = Inr ds" "decode_all decode_gpu ds = Inr gs"
      using g r by (cases res; cases "decode_all decode_gpu (projr res)") auto
    obtain hs where hs: "docs w (coll rg) = map gpu_doc hs" "distinct (map gpu_UUID hs)"
      using ok by (auto simp: gpu_docs_ok_def)
    have m: "mset ds = mset (map gpu_doc hs)"
      using Find_ok [of "coll rg" "[]" None None w ds w'] res ds(1) by (auto simp: answers_def limited_def matches_def hs(1))
    define ks where "ks = map (projr \<circ> decode_gpu) ds"
    have "(gpu_doc \<circ> (projr \<circ> decode_gpu)) d = d" if "d \<in> set ds" for d
      using mset_eq_setD [OF m] that by auto
    then have dk: "ds = map gpu_doc ks" unfolding ks_def map_map by (simp add: map_idI)
    then have gs: "gs = ks" using ds(2) decode_all_map [of ks decode_gpu gpu_doc id] by simp
    have "mset ks = mset (map (projr \<circ> decode_gpu) (map gpu_doc hs))" unfolding ks_def using m by (metis mset_map)
    then have k: "mset ks = mset hs" unfolding map_map decode_docs by simp
    then have "distinct (map gpu_UUID ks)" using hs(2) by (metis mset_eq_imp_distinct_iff mset_map)
    moreover have "set ks = ran (gpus_of (map gpu_doc hs))"
      using mset_eq_setD [OF k] gpus_of_docs [OF hs(2)] by (auto simp: ran_def)
    ultimately show ?thesis by (simp add: gs hs(1))
  qed
qed

lemma telemetry_Store_docs:
  assumes "telemetry_Store M rt t w = (r, w')" and "telemetry_docs_ok (docs w (coll rt))"
  shows "\<exists>ds. docs w' = (docs w)(coll rt := ds) \<and> telemetry_docs_ok ds
    \<and> (points_of ds = add_mset (stored_form t) (points_of (docs w (coll rt))) \<or> r \<noteq> None \<and> ds = docs w (coll rt))"
proof -
  obtain hs where hs: "docs w (coll rt) = map telemetry_doc hs" using assms(2) by (auto simp: telemetry_docs_ok_def)
  have new: "telemetry_docs_ok (docs w (coll rt) @ [telemetry_doc t])
      \<and> points_of (docs w (coll rt) @ [telemetry_doc t]) = add_mset (stored_form t) (points_of (docs w (coll rt)))"
    unfolding telemetry_docs_ok_def hs by (auto simp: points_of_def intro!: exI [of _ "hs @ [t]"])
  show ?thesis
  proof (cases r)
    case None
    then have "InsertOne M (coll rt) (telemetry_doc t) w = (None, w')"
      using assms(1) by (simp add: telemetry_Store_def wrap_eq)
    from InsertOne_ok [OF this] new show ?thesis by blast
  next
    case (Some e)
    then obtain e' where "InsertOne M (coll rt) (telemetry_doc t) w = (Some e', w')"
      using assms(1) by (auto simp: telemetry_Store_def wrap_eq)
    from InsertOne_err [OF this] consider "docs w' = (docs w)(coll rt := docs w (coll rt))"
      | "docs w' = (docs w)(coll rt := docs w (coll rt) @ [telemetry_doc t])" by fastforce
    then show ?thesis using Some assms(2) new by cases blast+
  qed
qed

lemma telemetry_BulkStore_docs:
  assumes "telemetry_BulkStore M rt ts w = (None, w')" and ok: "telemetry_docs_ok (docs w (coll rt))"
  shows "telemetry_docs_ok (docs w' (coll rt))
    \<and> points_of (docs w' (coll rt)) = points_of (docs w (coll rt)) + mset (map stored_form ts)"
proof (cases "ts = []")
  case True
  with assms show ?thesis by (simp add: telemetry_BulkStore_def)
next
  case False
  obtain hs where hs: "docs w (coll rt) = map telemetry_doc hs" using ok by (auto simp: telemetry_docs_ok_def)
  have "InsertMany M (coll rt) (map telemetry_doc ts) w = (None, w')"
    using assms(1) False by (auto simp: telemetry_BulkStore_def split: prod.splits option.splits)
  from InsertMany_ok [OF this] obtain ds where
    ds: "mset ds = mset (map telemetry_doc ts)" "docs w' = (docs w)(coll rt := docs w (coll rt) @ ds)" by blast
  define ks where "ks = map (projr \<circ> decode_telemetry) ds"
  have "(telemetry_doc \<circ> (projr \<circ> decode_telemetry)) d = d" if "d \<in> set ds" for d
    using mset_eq_setD [OF ds(1)] that by auto
  then have "ds = map telemetry_doc ks" unfolding ks_def map_map by (simp add: map_idI)
  then have w': "docs w' (coll rt) = map telemetry_doc (hs @ ks)" by (simp add: ds(2) hs)
  have "mset (map (projr \<circ> decode_telemetry) ds) = mset (map (projr \<circ> decode_telemetry) (map telemetry_doc ts))"
    using ds(1) by (metis mset_map)
  then have "mset ks = mset (map stored_form ts)" unfolding ks_def map_map decode_docs .
  then have "mset (map stored_form ks) = mset (map stored_form (map stored_form ts))" by (metis mset_map)
  then have "mset (map stored_form ks) = mset (map stored_form ts)" by (simp add: comp_def)
  then show ?thesis unfolding telemetry_docs_ok_def w' hs points_of_docs by (auto intro!: exI [of _ "hs @ ks"])
qed

lemma telemetry_GetByGPU_docs:
  assumes "telemetry_GetByGPU M rt u f w = (r, w')" and ok: "telemetry_docs_ok (docs w (coll rt))"
  shows "docs w' = docs w"
    "r = Inr ts \<Longrightarrow> \<exists>ps. mset ps = filter_mset (selected u f) (points_of (docs w (coll rt)))
        \<and> sorted_wrt (\<lambda>t t'. t_ns (tp_Timestamp t') \<le> t_ns (tp_Timestamp t)) ps \<and> ts = limited (tf_Limit f) ps"
proof -
  obtain res where res: "Find M (coll rt) (telemetry_query u f) (Some ''timestamp'') (tf_Limit f) w = (res, w')"
    and r: "r = (case res of Inl e \<Rightarrow> Inl (Wrapf ''failed to query telemetry'' e)
        | Inr ds \<Rightarrow> map_sum (Wrapf ''failed to decode telemetry'') id (decode_all decode_telemetry ds))"
    using assms(1) by (cases "Find M (coll rt) (telemetry_query u f) (Some ''timestamp'') (tf_Limit f) w")
      (auto simp: telemetry_GetByGPU_def split: sum.splits)
  show "docs w' = docs w" using Find_docs [OF res] .
  show "\<exists>ps. mset ps = filter_mset (selected u f) (points_of (docs w (coll rt)))
        \<and> sorted_wrt (\<lambda>t t'. t_ns (tp_Timestamp t') \<le> t_ns (tp_Timestamp t)) ps \<and> ts = limited (tf_Limit f) ps"
    if "r = Inr ts"
  proof (cases res)
    case (Inr ds)
    with res have "Find M (coll rt) (telemetry_query u f) (Some ''timestamp'') (tf_Limit f) w = (Inr ds, w')" by simp
    from answers_telemetry [OF Find_ok [OF this] ok] Inr that r show ?thesis by auto
  qed (use that r in simp)
qed

end

sublocale mongo_repositories \<subseteq> repositories "GPURepository M rg" "\<lambda>w. gpus_of (docs w (coll rg))"
    "\<lambda>w. gpu_docs_ok (docs w (coll rg))" "TelemetryRepository M rt" "\<lambda>w. points_of (docs w (coll rt))"
    "\<lambda>w. telemetry_docs_ok (docs w (coll rt))"
proof (unfold_locales, goal_cases)
  case (1 w g w')
  then show ?case using gpu_Store_docs [of g w None w'] by (auto simp: GPURepository_def)
next
  case (2 w g e w')
  then show ?case using gpu_Store_docs [of g w "Some e" w'] by (auto simp: GPURepository_def)
next
  case (3 w gs w')
  then show ?case using gpu_BulkStore_docs [of gs w w'] by (simp add: GPURepository_def)
next
  case (4 w u r w')
  then show ?case using gpu_GetByUUID_docs(1) [of u w r w'] by (simp add: GPURepository_def)
next
  case (5 w u g w')
  then show ?case using gpu_GetByUUID_docs(2) [of u w _ w'] by (simp add: GPURepository_def)
next
  case (6 w u w')
  then show ?case using gpu_GetByUUID_docs(3) [of u w _ w'] by (simp add: GPURepository_def)
next
  case (7 w r w')
  then show ?case using gpu_List_docs(1) [of w r w'] by (simp add: GPURepository_def)
next
  case (8 w gs w')
  then show ?case using gpu_List_docs(2) [of w _ w' gs] by (simp add: GPURepository_def)
next
  case (9 w t w')
  then show ?case using telemetry_Store_docs [of t w None w'] by (auto simp: TelemetryRepository_def)
next
  case (10 w t e w')
  then show ?case using telemetry_Store_docs [of t w "Some e" w'] by (auto simp: TelemetryRepository_def)
next
  case (11 w ts w')
  then show ?case using telemetry_BulkStore_docs [of ts w w'] by (simp add: TelemetryRepository_def)
next
  case (12 w u f r w')
  then show ?case using telemetry_GetByGPU_docs(1) [of u f w r w'] by (simp add: TelemetryRepository_def)
next
  case (13 w u f ts w')
  then show ?case using telemetry_GetByGPU_docs(2) [of u f w _ w' ts] by (simp add: TelemetryRepository_def)
next
  case (14 w g rs w')
  then show ?case
    using UpdateOne_ok [of "coll rg" _ _ w w'] UpdateOne_err [of "coll rg" _ _ w _ w'] other
    by (cases rs) (fastforce simp: GPURepository_def gpu_Store_def wrap_eq)+
next
  case (15 w t rs w')
  then show ?case
    using InsertOne_ok [of "coll rt" _ w w'] InsertOne_err [of "coll rt" _ w _ w'] other
    by (cases rs) (fastforce simp: TelemetryRepository_def telemetry_Store_def wrap_eq)+
next
  case (16 w u r w')
  then have "docs w' = docs w"
    by (auto simp: GPURepository_def gpu_GetByUUID_def split: prod.splits sum.splits dest!: FindOne_docs)
  with 16 show ?case by simp
qed

context mongo_repositories
begin

lemma mongo_contracts: "repositories (GPURepository M rg) (\<lambda>w. gpus_of (docs w (coll rg)))
    (\<lambda>w. gpu_docs_ok (docs w (coll rg))) (TelemetryRepository M rt) (\<lambda>w. points_of (docs w (coll rt)))
    (\<lambda>w. telemetry_docs_ok (docs w (coll rt)))"
  by (rule repositories_axioms)

end

text \<open>The collections that the services use.\<close>

definition gpus_repo :: mongo_repo where
  "gpus_repo = \<lparr>mr_database = ''telemetry'', mr_collection = ''gpus''\<rparr>"

definition metrics_repo :: mongo_repo where
  "metrics_repo = \<lparr>mr_database = ''telemetry'', mr_collection = ''metrics''\<rparr>"

interpretation mem_repositories: mongo_repositories mem_mongo mm_docs gpus_repo metrics_repo
  by unfold_locales (simp add: coll_def gpus_repo_def metrics_repo_def)

interpretation calm_repositories: mongo_repositories calm_mongo mm_docs gpus_repo metrics_repo
  by unfold_locales (simp add: coll_def gpus_repo_def metrics_repo_def)

interpretation calm_repositories: live_repositories "GPURepository calm_mongo gpus_repo"
    "\<lambda>w. gpus_of (mm_docs w (coll gpus_repo))" "\<lambda>w. gpu_docs_ok (mm_docs w (coll gpus_repo))"
    "TelemetryRepository calm_mongo metrics_repo" "\<lambda>w. points_of (mm_docs w (coll metrics_repo))"
    "\<lambda>w. telemetry_docs_ok (mm_docs w (coll metrics_repo))"
  by unfold_locales (simp_all add: GPURepository_def TelemetryRepository_def gpu_Store_def telemetry_Store_def
      wrap_eq calm_mongo_up)

section \<open>Properties\<close>

text \<open>A GPU, a point, and a world that holds them, for the witnesses.\<close>

definition some_gpu :: GPU where
  "some_gpu = zero_GPU\<lparr>gpu_UUID := ''GPU-1'', gpu_Hostname := ''h''\<rparr>"

definition some_point :: TelemetryPoint where
  "some_point = zero_TelemetryPoint\<lparr>tp_GPUUUID := ''GPU-1'', tp_MetricName := ''util'', tp_Timestamp := of_millis 5\<rparr>"

definition no_docs :: mongo_mem where
  "no_docs = \<lparr>mm_docs = (\<lambda>c. []), mm_faults = []\<rparr>"

text \<open>C21. Storing a GPU is an upsert by UUID: afterwards the list has the record stored, every other record it had
  before under another UUID, and no UUID twice.\<close>

theorem gpu_store_is_upsert:
  assumes "mongo_repositories M docs rg rt" and "gpu_docs_ok (docs w (coll rg))"
    and "gpu_Store M rg g w = (None, w1)" and "gpu_List M rg w1 = (Inr gs, w2)"
  shows "g \<in> set gs \<and> distinct (map gpu_UUID gs)
    \<and> (\<forall>h. gpu_UUID h \<noteq> gpu_UUID g \<longrightarrow> (h \<in> set gs \<longleftrightarrow> gpus_of (docs w (coll rg)) (gpu_UUID h) = Some h))"
proof -
  obtain ds where ds: "docs w1 = (docs w)(coll rg := ds)" "gpu_docs_ok ds"
    "gpus_of ds = (gpus_of (docs w (coll rg)))(gpu_UUID g \<mapsto> g)"
    using mongo_repositories.gpu_Store_docs [OF assms(1,3,2)] by blast
  then have "gpu_docs_ok (docs w1 (coll rg))" by simp
  from mongo_repositories.gpu_List_docs(2) [OF assms(1,4) this refl]
  have l: "distinct (map gpu_UUID gs)" "set gs = ran (gpus_of ds)" by (simp_all add: ds(1))
  obtain hs where hs: "ds = map gpu_doc hs" "distinct (map gpu_UUID hs)" using ds(2) by (auto simp: gpu_docs_ok_def)
  have "h \<in> set gs \<longleftrightarrow> gpus_of ds (gpu_UUID h) = Some h" for h
    using gpus_of_docs [OF hs(2)] unfolding l(2) by (auto simp: ran_def hs(1))
  with l(1) show ?thesis by (simp add: ds(3))
qed

theorem gpu_store_is_upsert_witness:
  "\<exists>gs w2. gpu_List mem_mongo gpus_repo (snd (gpu_Store mem_mongo gpus_repo some_gpu no_docs)) = (Inr gs, w2) \<and> some_gpu \<in> set gs"
proof -
  have ok: "gpu_docs_ok (mm_docs no_docs (coll gpus_repo))" by (simp add: gpu_docs_ok_def no_docs_def)
  obtain w1 where s: "gpu_Store mem_mongo gpus_repo some_gpu no_docs = (None, w1)"
    and d: "mm_docs w1 (coll gpus_repo) = [gpu_doc some_gpu]" "mm_faults w1 = []"
    by (simp add: gpu_Store_def mem_mongo_def unless_down_def mongo_fault_def no_docs_def wrap_def put_docs_def called_def)
  have "decode_all decode_gpu [gpu_doc some_gpu] = Inr [some_gpu]" by simp
  then obtain w2 where l: "gpu_List mem_mongo gpus_repo w1 = (Inr [some_gpu], w2)"
    using d by (simp add: gpu_List_def mem_mongo_def reply_unless_down_def mongo_fault_def limited_def matches_def)
  from gpu_store_is_upsert [OF mem_repositories.mongo_repositories_axioms ok s l] l s show ?thesis by auto
qed

text \<open>A query for the telemetry of a GPU answers, newest first, with points of that GPU inside the time range
  (compared in milliseconds); without a limit with all of them, and with a limit with that many, none of
  those left out being newer than one in the answer.\<close>

theorem telemetry_query_newest_first:
  assumes "mongo_repositories M docs rg rt" and "telemetry_docs_ok (docs w (coll rt))"
    and "telemetry_GetByGPU M rt u f w = (Inr ts, w')"
  shows "\<exists>rest. filter_mset (selected u f) (points_of (docs w (coll rt))) = mset ts + mset rest
    \<and> sorted_wrt (\<lambda>t t'. t_ns (tp_Timestamp t') \<le> t_ns (tp_Timestamp t)) (ts @ rest)
    \<and> (case tf_Limit f of None \<Rightarrow> rest = [] | Some n \<Rightarrow> n = 0 \<and> rest = [] \<or> int (length ts) \<le> \<bar>n\<bar> \<and> (rest = [] \<or> int (length ts) = \<bar>n\<bar>))"
proof -
  obtain ps where ps: "mset ps = filter_mset (selected u f) (points_of (docs w (coll rt)))"
    "sorted_wrt (\<lambda>t t'. t_ns (tp_Timestamp t') \<le> t_ns (tp_Timestamp t)) ps" "ts = limited (tf_Limit f) ps"
    using mongo_repositories.telemetry_GetByGPU_docs(2) [OF assms(1,3,2) refl] by blast
  define k where "k = (case tf_Limit f of None \<Rightarrow> length ps | Some n \<Rightarrow> if n = 0 then length ps else nat \<bar>n\<bar>)"
  have ts: "ts = take k ps" by (simp add: ps(3) limited_def k_def split: option.split)
  then have "ps = ts @ drop k ps" by simp
  then have "mset ps = mset ts + mset (drop k ps)" by (metis mset_append)
  with ps(1,2) \<open>ps = ts @ drop k ps\<close> show ?thesis
    by (intro exI [of _ "drop k ps"]) (auto simp: ts k_def split: option.splits if_splits)
qed

theorem telemetry_query_newest_first_witness:
  "\<exists>ts w'. telemetry_GetByGPU mem_mongo metrics_repo ''GPU-1'' \<lparr>tf_StartTime = None, tf_EndTime = None, tf_Limit = None\<rparr>
      (snd (telemetry_Store mem_mongo metrics_repo some_point no_docs)) = (Inr ts, w') \<and> mset ts = {#some_point#}"
proof -
  let ?f = "\<lparr>tf_StartTime = None, tf_EndTime = None, tf_Limit = None\<rparr>"
  define w1 where "w1 = snd (telemetry_Store mem_mongo metrics_repo some_point no_docs)"
  have d: "mm_docs w1 (coll metrics_repo) = map telemetry_doc [some_point]" "mm_faults w1 = []"
    by (simp_all add: w1_def telemetry_Store_def mem_mongo_def unless_down_def mongo_fault_def no_docs_def wrap_def
        put_docs_def called_def)
  have sp: "stored_form some_point = some_point" "selected ''GPU-1'' ?f some_point"
    by (simp_all add: stored_form_def some_point_def selected_def)
  obtain w2 where q: "telemetry_GetByGPU mem_mongo metrics_repo ''GPU-1'' ?f w1 = (Inr [some_point], w2)"
    using d sp by (simp add: telemetry_GetByGPU_def mem_mongo_def reply_unless_down_def mongo_fault_def limited_def
        newest_first_def)
  have "telemetry_docs_ok (mm_docs w1 (coll metrics_repo))" unfolding telemetry_docs_ok_def d(1) by blast
  from telemetry_query_newest_first [OF mem_repositories.mongo_repositories_axioms this q] q show ?thesis
    unfolding d(1) w1_def [symmetric] by (simp add: sp)
qed

end
