(* ===== verification/Collector.thy ===== *)
theory Collector
  imports Message StorageCorrect
begin

text \<open>
  The collector, \<open>internal/collector/collector.go\<close>: what it does with one message, and its worker pool as a
  step relation - handler calls that put messages into the work queue, workers that take them, the
  goroutine that watches the queue, and \<open>Start\<close> ending.
\<close>

section \<open>State\<close>

record collector_Config =
  cc_InstanceID :: string
  cc_BatchSize :: int
  cc_MaxConcurrentHandlers :: int
  cc_QueueBufferSize :: int
  cc_QueueWorkers :: int

record Collector =
  c_config :: collector_Config
  c_messagesProcessed :: int64
  c_messagesErrors :: int64
  c_gpusStored :: int64
  c_telemetryStored :: int64

definition NewCollector :: "collector_Config \<Rightarrow> Collector" where
  "NewCollector config = \<lparr>c_config = config, c_messagesProcessed = 0, c_messagesErrors = 0, c_gpusStored = 0,
     c_telemetryStored = 0\<rparr>"

record CollectorStats =
  cs_MessagesProcessed :: int64
  cs_MessagesErrors :: int64
  cs_GPUsStored :: int64
  cs_TelemetryStored :: int64

definition collector_Stats :: "Collector \<Rightarrow> CollectorStats" where
  "collector_Stats c = \<lparr>cs_MessagesProcessed = c_messagesProcessed c, cs_MessagesErrors = c_messagesErrors c,
     cs_GPUsStored = c_gpusStored c, cs_TelemetryStored = c_telemetryStored c\<rparr>"

definition count_error :: "Collector \<Rightarrow> Collector" where
  "count_error c = c\<lparr>c_messagesErrors := c_messagesErrors c + 1\<rparr>"

section \<open>One message\<close>

definition validateTelemetry :: "TelemetryPoint \<Rightarrow> error option" where
  "validateTelemetry t =
     (if tp_GPUUUID t = [] then Some (Errorf ''missing GPU UUID'')
      else if tp_MetricName t = [] then Some (Errorf ''missing metric name'')
      else if IsZero (tp_Timestamp t) then Some (Errorf ''missing timestamp'')
      else None)"

text \<open>\<open>msg.Metadata[key].(string)\<close>: empty when the key is absent or holds another type.\<close>

definition metadata_string :: "Message \<Rightarrow> string \<Rightarrow> string" where
  "metadata_string msg key = (case GetMetadata msg key of Some (JStr s) \<Rightarrow> s | _ \<Rightarrow> [])"

definition extractGPUFromMessage :: "Message \<Rightarrow> TelemetryPoint \<Rightarrow> GPU" where
  "extractGPUFromMessage msg telemetry =
     \<lparr>gpu_UUID = tp_GPUUUID telemetry, gpu_DeviceID = metadata_string msg ''device'',
      gpu_GPUIndex = metadata_string msg ''gpu_index'', gpu_ModelName = metadata_string msg ''model_name'',
      gpu_Hostname = metadata_string msg ''hostname'', gpu_Container = metadata_string msg ''container'',
      gpu_Pod = metadata_string msg ''pod'', gpu_Namespace = metadata_string msg ''namespace''\<rparr>"

definition processMessage :: "'w telemetry_repo \<Rightarrow> 'w gpu_repo \<Rightarrow> Message \<Rightarrow> Collector \<Rightarrow> 'w \<Rightarrow> Collector \<times> 'w" where
  "processMessage T G msg c w =
     (let c1 = c\<lparr>c_messagesProcessed := c_messagesProcessed c + 1\<rparr>
      in case Unmarshal msg Unmarshal_telemetry of
           Inl e \<Rightarrow> (count_error c1, w)
         | Inr telemetry \<Rightarrow>
             (case validateTelemetry telemetry of
                Some e \<Rightarrow> (count_error c1, w)
              | None \<Rightarrow>
                  let (e, w1) = gr_Store G (extractGPUFromMessage msg telemetry) w;
                      c2 = (case e of Some _ \<Rightarrow> c1 | None \<Rightarrow> c1\<lparr>c_gpusStored := c_gpusStored c1 + 1\<rparr>)
                  in (case tr_Store T telemetry w1 of
                        (Some e', w2) \<Rightarrow> (count_error c2, w2)
                      | (None, w2) \<Rightarrow> (c2\<lparr>c_telemetryStored := c_telemetryStored c2 + 1\<rparr>, w2))))"

section \<open>The worker pool\<close>

definition WorkerPoolSize :: nat where "WorkerPoolSize = 50"
definition WorkQueueSize :: nat where "WorkQueueSize = 1000"

datatype worker = Free | Working Message | Gone

text \<open>
  Where \<open>Start\<close> is: at \<open>Subscribe\<close>, back at its caller because that failed, waiting for its context, with its
  subscription gone, waiting for \<open>workersDone\<close> after it closed the work queue, or back at its caller.
\<close>

datatype phase = Starting | Failed | Serving | Unsubscribed | Closed | Ended

text \<open>\<open>pl_calls\<close> are the calls of \<open>handleMessage\<close> that wait in their select.\<close>

record 'w pool =
  pl_queue :: "Message list"
  pl_workers :: "worker list"
  pl_calls :: "Message list"
  pl_ctxDone :: bool
  pl_workersDone :: bool
  pl_phase :: phase
  pl_collector :: Collector
  pl_world :: 'w

definition startWorkerPool :: "Collector \<Rightarrow> 'w \<Rightarrow> 'w pool" where
  "startWorkerPool c w = \<lparr>pl_queue = [], pl_workers = replicate WorkerPoolSize Free, pl_calls = [], pl_ctxDone = False,
     pl_workersDone = False, pl_phase = Starting, pl_collector = c, pl_world = w\<rparr>"

text \<open>
  The cases of the select in \<open>handleMessage\<close>: the message was put into the work queue, five seconds have passed,
  or the context of the call is done. The result is what the queue client acts on: nil acknowledges.
\<close>

datatype choice = Sent | TimedOut | ContextDone error

definition handleMessage :: "choice \<Rightarrow> Message \<Rightarrow> 'w pool \<Rightarrow> error option \<times> 'w pool" where
  "handleMessage ch msg p =
     (case ch of
        Sent \<Rightarrow> (None, p\<lparr>pl_queue := pl_queue p @ [msg]\<rparr>)
      | TimedOut \<Rightarrow> (None, p\<lparr>pl_collector := count_error (pl_collector p)\<rparr>)
      | ContextDone e \<Rightarrow> (Some e, p))"

definition choice_open :: "choice \<Rightarrow> 'w pool \<Rightarrow> bool" where
  "choice_open ch p \<longleftrightarrow> (case ch of
      Sent \<Rightarrow> length (pl_queue p) < WorkQueueSize \<and> pl_phase p \<notin> {Closed, Ended}
    | TimedOut \<Rightarrow> True
    | ContextDone e \<Rightarrow> pl_ctxDone p)"

datatype event =
    Silent
  | Returns_to_queue Message choice   \<comment> \<open>a call of \<open>handleMessage\<close> returns\<close>
  | Processed Message
  | Start_fails error
  | Start_returns

inductive pool_step :: "'w telemetry_repo \<Rightarrow> 'w gpu_repo \<Rightarrow> 'w pool \<Rightarrow> event \<Rightarrow> 'w pool \<Rightarrow> bool" for T G where
  \<comment> \<open>\<open>Subscribe\<close>; when it fails \<open>Start\<close> returns and leaves the workers to their context\<close>
  subscribe_ok: "pl_phase p = Starting \<Longrightarrow> pool_step T G p Silent (p\<lparr>pl_phase := Serving\<rparr>)"
| subscribe_err: "pl_phase p = Starting \<Longrightarrow>
    pool_step T G p (Start_fails (Wrapf ''failed to subscribe to topic'' e)) (p\<lparr>pl_phase := Failed\<rparr>)"
  \<comment> \<open>the queue client calls the handler until the subscription is gone\<close>
| call: "pl_phase p = Serving \<Longrightarrow> pool_step T G p Silent (p\<lparr>pl_calls := m # pl_calls p\<rparr>)"
| handle: "m \<in> set (pl_calls p) \<Longrightarrow> choice_open ch p \<Longrightarrow> handleMessage ch m p = (r, p') \<Longrightarrow>
    pool_step T G p (Returns_to_queue m ch) (p'\<lparr>pl_calls := remove1 m (pl_calls p)\<rparr>)"
  \<comment> \<open>\<open>worker\<close>: the two cases of its select, and the end of \<open>processMessage\<close>\<close>
| pick: "i < length (pl_workers p) \<Longrightarrow> pl_workers p ! i = Free \<Longrightarrow> pl_queue p = m # ms \<Longrightarrow>
    pool_step T G p Silent (p\<lparr>pl_queue := ms, pl_workers := (pl_workers p)[i := Working m]\<rparr>)"
| quit: "i < length (pl_workers p) \<Longrightarrow> pl_workers p ! i = Free \<Longrightarrow>
    pl_ctxDone p \<or> pl_phase p \<in> {Closed, Ended} \<and> pl_queue p = [] \<Longrightarrow>
    pool_step T G p Silent (p\<lparr>pl_workers := (pl_workers p)[i := Gone]\<rparr>)"
| finish: "i < length (pl_workers p) \<Longrightarrow> pl_workers p ! i = Working m \<Longrightarrow>
    processMessage T G m (pl_collector p) (pl_world p) = (c, w) \<Longrightarrow>
    pool_step T G p (Processed m) (p\<lparr>pl_workers := (pl_workers p)[i := Free], pl_collector := c, pl_world := w\<rparr>)"
  \<comment> \<open>the context ends, the monitor goroutine of \<open>startWorkerPool\<close>, the end of \<open>Start\<close>\<close>
| cancel: "pool_step T G p Silent (p\<lparr>pl_ctxDone := True\<rparr>)"
| monitor: "pl_ctxDone p \<Longrightarrow> pl_queue p = [] \<Longrightarrow> pool_step T G p Silent (p\<lparr>pl_workersDone := True\<rparr>)"
| unsubscribe: "pl_phase p = Serving \<Longrightarrow> pl_ctxDone p \<Longrightarrow> pl_calls p = [] \<Longrightarrow>
    pool_step T G p Silent (p\<lparr>pl_phase := Unsubscribed\<rparr>)"
| close_queue: "pl_phase p = Unsubscribed \<Longrightarrow> pool_step T G p Silent (p\<lparr>pl_phase := Closed\<rparr>)"
| end_start: "pl_phase p = Closed \<Longrightarrow> pl_workersDone p \<Longrightarrow>
    pool_step T G p Start_returns (p\<lparr>pl_phase := Ended\<rparr>)"

inductive_cases pool_stepE: "pool_step T G p ev p'"

inductive pool_run :: "'w telemetry_repo \<Rightarrow> 'w gpu_repo \<Rightarrow> 'w pool \<Rightarrow> event list \<Rightarrow> 'w pool \<Rightarrow> bool" for T G p0 where
  pool_start: "pool_run T G p0 [] p0"
| pool_then: "pool_run T G p0 evs p \<Longrightarrow> pool_step T G p ev p' \<Longrightarrow> pool_run T G p0 (evs @ [ev]) p'"

section \<open>What the events say\<close>

text \<open>The messages the collector acknowledged by putting them into the work queue, those it acknowledged by
  dropping them, and those it processed.\<close>

definition accepted :: "event list \<Rightarrow> Message multiset" where
  "accepted evs = mset (List.map_filter (\<lambda>ev. case ev of Returns_to_queue m Sent \<Rightarrow> Some m | _ \<Rightarrow> None) evs)"

definition dropped :: "event list \<Rightarrow> Message multiset" where
  "dropped evs = mset (List.map_filter (\<lambda>ev. case ev of Returns_to_queue m TimedOut \<Rightarrow> Some m | _ \<Rightarrow> None) evs)"

definition processed :: "event list \<Rightarrow> Message multiset" where
  "processed evs = mset (List.map_filter (\<lambda>ev. case ev of Processed m \<Rightarrow> Some m | _ \<Rightarrow> None) evs)"

definition working :: "worker list \<Rightarrow> Message multiset" where
  "working ws = mset (List.map_filter (\<lambda>x. case x of Working m \<Rightarrow> Some m | _ \<Rightarrow> None) ws)"

lemma events_simps [simp]:
  "accepted [] = {#}" "dropped [] = {#}" "processed [] = {#}"
  "accepted (evs @ [ev]) = accepted evs + (case ev of Returns_to_queue m Sent \<Rightarrow> {#m#} | _ \<Rightarrow> {#})"
  "dropped (evs @ [ev]) = dropped evs + (case ev of Returns_to_queue m TimedOut \<Rightarrow> {#m#} | _ \<Rightarrow> {#})"
  "processed (evs @ [ev]) = processed evs + (case ev of Processed m \<Rightarrow> {#m#} | _ \<Rightarrow> {#})"
  by (auto simp: accepted_def dropped_def processed_def List.map_filter_def split: event.splits choice.splits)

lemma events_single [simp]:
  "accepted [ev] = (case ev of Returns_to_queue m Sent \<Rightarrow> {#m#} | _ \<Rightarrow> {#})"
  "processed [ev] = (case ev of Processed m \<Rightarrow> {#m#} | _ \<Rightarrow> {#})"
  "dropped [ev] = (case ev of Returns_to_queue m TimedOut \<Rightarrow> {#m#} | _ \<Rightarrow> {#})"
  using events_simps(4-6) [of "[]" ev] by simp_all

definition at_work :: "worker \<Rightarrow> Message multiset" where
  "at_work x = (case x of Working m \<Rightarrow> {#m#} | _ \<Rightarrow> {#})"

lemma at_work_simps [simp]: "at_work Free = {#}" "at_work Gone = {#}" "at_work (Working m) = {#m#}"
  by (simp_all add: at_work_def)

lemma working_sum: "working ws = sum_list (map at_work ws)"
  by (induction ws) (auto simp: working_def at_work_def List.map_filter_def split: worker.splits)

lemma working_update:
  "i < length ws \<Longrightarrow> working (ws[i := x]) + at_work (ws ! i) = working ws + at_work x"
proof (induction ws arbitrary: i)
  case (Cons y ws)
  then show ?case by (cases i) (auto simp: working_sum ac_simps)
qed simp

lemma processMessage_counters:
  assumes "processMessage T G m c w = (c', w')"
  shows "c_messagesProcessed c' = c_messagesProcessed c + 1
    \<and> c_messagesErrors c' + c_telemetryStored c' = c_messagesErrors c + c_telemetryStored c + 1"
  using assms by (auto simp: processMessage_def count_error_def Let_def split: sum.splits option.splits prod.splits)

lemma pool_step_bounds:
  "pool_step T G p ev p' \<Longrightarrow> length (pl_queue p) \<le> WorkQueueSize \<Longrightarrow>
     length (pl_queue p') \<le> WorkQueueSize \<and> length (pl_workers p') = length (pl_workers p)"
  by (induction rule: pool_step.induct) (auto simp: handleMessage_def choice_open_def split: choice.splits)

text \<open>Nothing that was put into the work queue gets lost inside the pool.\<close>

lemma pool_step_conserves:
  assumes "pool_step T G p ev p'"
  shows "processed [ev] + working (pl_workers p') + mset (pl_queue p')
    = accepted [ev] + working (pl_workers p) + mset (pl_queue p)"
  using assms
proof cases
  case (handle m ch r q)
  then show ?thesis by (auto simp: handleMessage_def split: choice.splits)
next
  case (pick i m ms)
  then show ?thesis using working_update [of i "pl_workers p" "Working m"] by simp
next
  case (quit i)
  then show ?thesis using working_update [of i "pl_workers p" Gone] by simp
next
  case (finish i m c w)
  then show ?thesis using working_update [of i "pl_workers p" Free] by (simp add: ac_simps)
qed simp_all

lemma working_start [simp]: "working (replicate n Free) = {#}"
  by (induction n) (simp_all add: working_sum)

lemma pool_run_accounts:
  assumes "pool_run T G (startWorkerPool c0 w0) evs p"
  shows "accepted evs = processed evs + working (pl_workers p) + mset (pl_queue p)
    \<and> length (pl_queue p) \<le> WorkQueueSize \<and> length (pl_workers p) = WorkerPoolSize"
  using assms
proof induction
  case pool_start
  then show ?case by (simp add: startWorkerPool_def)
next
  case (pool_then evs p ev p')
  have "accepted (evs @ [ev]) = accepted evs + accepted [ev]" "processed (evs @ [ev]) = processed evs + processed [ev]"
    by simp_all
  with pool_then.IH pool_step_conserves [OF pool_then.hyps(2)] pool_step_bounds [OF pool_then.hyps(2)]
  show ?case by (simp add: ac_simps del: events_single events_simps)
qed

lemma pool_step_counters:
  assumes "pool_step T G p ev p'"
  shows "c_messagesProcessed (pl_collector p') = c_messagesProcessed (pl_collector p) + of_nat (size (processed [ev]))
    \<and> c_messagesErrors (pl_collector p') + c_telemetryStored (pl_collector p')
      = c_messagesErrors (pl_collector p) + c_telemetryStored (pl_collector p) + of_nat (size (processed [ev]) + size (dropped [ev]))"
  using assms
proof cases
  case (handle m ch r q)
  then show ?thesis by (auto simp: handleMessage_def count_error_def split: choice.splits)
next
  case (finish i m c w)
  then show ?thesis using processMessage_counters [OF finish(5)] by simp
qed simp_all

lemma pool_run_counters:
  assumes "pool_run T G (startWorkerPool (NewCollector config) w0) evs p"
  shows "c_messagesProcessed (pl_collector p) = of_nat (size (processed evs))
    \<and> c_messagesErrors (pl_collector p) + c_telemetryStored (pl_collector p)
      = of_nat (size (processed evs) + size (dropped evs))"
  using assms
proof induction
  case pool_start
  then show ?case by (simp add: startWorkerPool_def NewCollector_def)
next
  case (pool_then evs p ev p')
  have "processed (evs @ [ev]) = processed evs + processed [ev]" "dropped (evs @ [ev]) = dropped evs + dropped [ev]"
    by simp_all
  with pool_then.IH pool_step_counters [OF pool_then.hyps(2)] show ?case
    by (simp add: ac_simps del: events_single events_simps)
qed

section \<open>Shutting down\<close>

text \<open>All workers have left and a message is still in the work queue.\<close>

definition stranded :: "'w pool \<Rightarrow> bool" where
  "stranded p \<longleftrightarrow> set (pl_workers p) \<subseteq> {Gone} \<and> pl_queue p \<noteq> [] \<and> \<not> pl_workersDone p"

lemma pool_step_stranded:
  assumes "pool_step T G p ev p'" and "stranded p"
  shows "stranded p' \<and> ev \<noteq> Start_returns \<and> processed [ev] = {#}"
proof -
  have gone: "pl_workers p ! i = Gone" if "i < length (pl_workers p)" for i
    using assms(2) nth_mem [OF that] by (auto simp: stranded_def)
  from assms(1) show ?thesis
  proof cases
    case (handle m ch r q)
    then show ?thesis using assms(2) by (auto simp: handleMessage_def stranded_def split: choice.splits)
  qed (use assms(2) gone in \<open>auto simp: stranded_def\<close>)
qed

lemma workers_quit:
  assumes "pool_run T G p0 evs p" and "pl_ctxDone p" and "pl_workers p = replicate j Gone @ replicate k Free"
  shows "pool_run T G p0 (evs @ replicate k Silent) (p\<lparr>pl_workers := replicate (j + k) Gone\<rparr>)"
  using assms
proof (induction k arbitrary: j evs p)
  case 0
  then show ?case by (cases p) simp
next
  case (Suc k)
  have "pool_step T G p Silent (p\<lparr>pl_workers := (pl_workers p)[j := Gone]\<rparr>)"
    by (rule pool_step.quit) (simp_all add: Suc.prems(2,3) nth_append)
  with Suc.prems(1) have run: "pool_run T G p0 (evs @ [Silent]) (p\<lparr>pl_workers := (pl_workers p)[j := Gone]\<rparr>)"
    by (rule pool_then)
  have "(pl_workers p)[j := Gone] = replicate (Suc j) Gone @ replicate k Free"
    by (simp add: Suc.prems(3) list_update_append replicate_app_Cons_same)
  with Suc.IH [OF run, of "Suc j"] Suc.prems(2) show ?case by simp
qed

lemma no_events [simp]:
  "accepted (evs @ replicate k Silent) = accepted evs" "processed (evs @ replicate k Silent) = processed evs"
proof -
  have "List.map_filter f (replicate k Silent) = []" if "f Silent = None" for f :: "event \<Rightarrow> Message option"
    using that by (induction k) (simp_all add: List.map_filter_simps)
  then show "accepted (evs @ replicate k Silent) = accepted evs" "processed (evs @ replicate k Silent) = processed evs"
    by (simp_all add: accepted_def processed_def List.map_filter_def)
qed

text \<open>A message is accepted, then the context ends.\<close>

lemma one_message_run:
  "\<exists>evs. pool_run T G (startWorkerPool c w) evs ((startWorkerPool c w)\<lparr>pl_phase := Serving, pl_queue := [m], pl_ctxDone := True\<rparr>)
     \<and> accepted evs = {#m#} \<and> processed evs = {#}"
proof -
  define p where "p = startWorkerPool c w"
  define p0 where "p0 = p\<lparr>pl_phase := Serving\<rparr>"
  define p1 where "p1 = p0\<lparr>pl_calls := [m]\<rparr>"
  define p2 where "p2 = p0\<lparr>pl_queue := [m]\<rparr>"
  have "pool_step T G p Silent p0" unfolding p0_def
    by (rule pool_step.subscribe_ok) (simp add: p_def startWorkerPool_def)
  then have 0: "pool_run T G p ([] @ [Silent]) p0" by (rule pool_then [OF pool_start])
  have "pool_step T G p0 Silent (p0\<lparr>pl_calls := m # pl_calls p0\<rparr>)"
    by (rule pool_step.call) (simp add: p0_def p_def startWorkerPool_def)
  then have 1: "pool_run T G p (([] @ [Silent]) @ [Silent]) p1"
    by (intro pool_then [OF 0]) (simp add: p1_def p0_def p_def startWorkerPool_def)
  have "pool_step T G p1 (Returns_to_queue m Sent) ((snd (handleMessage Sent m p1))\<lparr>pl_calls := remove1 m (pl_calls p1)\<rparr>)"
    by (rule pool_step.handle [where r = None])
      (simp_all add: p1_def p0_def p_def startWorkerPool_def choice_open_def handleMessage_def WorkQueueSize_def)
  then have "pool_step T G p1 (Returns_to_queue m Sent) p2"
    by (simp add: p2_def p1_def p0_def p_def startWorkerPool_def handleMessage_def)
  from pool_then [OF pool_then [OF 1 this] pool_step.cancel]
  have "pool_run T G p (((([] @ [Silent]) @ [Silent]) @ [Returns_to_queue m Sent]) @ [Silent]) (p2\<lparr>pl_ctxDone := True\<rparr>)" .
  then show ?thesis unfolding p_def [symmetric] p2_def p0_def
    by (intro exI [of _ "((([] @ [Silent]) @ [Silent]) @ [Returns_to_queue m Sent]) @ [Silent]"]) (simp del: append_assoc append_Nil)
qed

lemma reaches_stranded:
  "\<exists>evs p. pool_run T G (startWorkerPool c w) evs p \<and> accepted evs = {#m#} \<and> processed evs = {#} \<and> stranded p"
proof -
  obtain evs where e: "pool_run T G (startWorkerPool c w) evs ((startWorkerPool c w)\<lparr>pl_phase := Serving, pl_queue := [m], pl_ctxDone := True\<rparr>)"
    "accepted evs = {#m#}" "processed evs = {#}" using one_message_run [of T G c w m] by blast
  have "pool_run T G (startWorkerPool c w) (evs @ replicate WorkerPoolSize Silent)
      ((startWorkerPool c w)\<lparr>pl_phase := Serving, pl_queue := [m], pl_ctxDone := True, pl_workers := replicate (0 + WorkerPoolSize) Gone\<rparr>)"
    using workers_quit [OF e(1), of 0 WorkerPoolSize] by (simp add: startWorkerPool_def)
  moreover have "accepted (evs @ replicate WorkerPoolSize Silent) = {#m#}" "processed (evs @ replicate WorkerPoolSize Silent) = {#}"
    by (simp_all add: e(2,3))
  moreover have "stranded ((startWorkerPool c w)\<lparr>pl_phase := Serving, pl_queue := [m], pl_ctxDone := True, pl_workers := replicate (0 + WorkerPoolSize) Gone\<rparr>)"
    by (simp add: stranded_def startWorkerPool_def WorkerPoolSize_def)
  ultimately show ?thesis by blast
qed

section \<open>One message over the repositories\<close>

context repositories
begin

lemma processMessage_effect:
  assumes "processMessage T G m c w = (c', w')" and "gpus_ok w" and "points_ok w"
  shows "gpus_ok w' \<and> points_ok w' \<and>
    (case Unmarshal m Unmarshal_telemetry of
       Inl e \<Rightarrow> w' = w \<and> c' = count_error (c\<lparr>c_messagesProcessed := c_messagesProcessed c + 1\<rparr>)
     | Inr t \<Rightarrow> if validateTelemetry t \<noteq> None then w' = w \<and> c' = count_error (c\<lparr>c_messagesProcessed := c_messagesProcessed c + 1\<rparr>)
         else (gpus w' = (gpus w)(tp_GPUUUID t \<mapsto> extractGPUFromMessage m t) \<or> gpus w' = gpus w \<and> c_gpusStored c' = c_gpusStored c)
           \<and> (points w' = add_mset (stored_form t) (points w) \<or> points w' = points w \<and> c_telemetryStored c' = c_telemetryStored c))"
proof (cases "Unmarshal m Unmarshal_telemetry")
  case (Inl e)
  with assms show ?thesis by (auto simp: processMessage_def count_error_def Let_def)
next
  case (Inr t)
  show ?thesis
  proof (cases "validateTelemetry t")
    case (Some e)
    with Inr assms show ?thesis by (auto simp: processMessage_def count_error_def Let_def)
  next
    case None
    let ?g = "extractGPUFromMessage m t"
    obtain e1 w1 where s1: "gr_Store G ?g w = (e1, w1)" by fastforce
    obtain e2 w2 where s2: "tr_Store T t w1 = (e2, w2)" by fastforce
    have g1: "gpus_ok w1 \<and> (gpus w1 = (gpus w)(gpu_UUID ?g \<mapsto> ?g) \<or> e1 \<noteq> None \<and> gpus w1 = gpus w)"
      using gStore_ok [OF assms(2), of ?g w1] gStore_err [OF assms(2), of ?g _ w1] s1 by (cases e1) auto
    have p1: "points_ok w1 \<and> points w1 = points w" using gStore_points [OF assms(3) s1] .
    have g2: "gpus_ok w2 \<and> gpus w2 = gpus w1" using tStore_gpus s2 g1 by blast
    have p2: "points_ok w2 \<and> (points w2 = add_mset (stored_form t) (points w1) \<or> e2 \<noteq> None \<and> points w2 = points w1)"
      using tStore_ok [of w1 t w2] tStore_err [of w1 t _ w2] s2 p1 by (cases e2) auto
    have "w' = w2" "e1 \<noteq> None \<Longrightarrow> c_gpusStored c' = c_gpusStored c"
      "e2 \<noteq> None \<Longrightarrow> c_telemetryStored c' = c_telemetryStored c"
      using assms(1) Inr None s1 s2 by (auto simp: processMessage_def count_error_def Let_def split: option.splits)
    with g1 p1 g2 p2 None Inr show ?thesis by (auto simp: extractGPUFromMessage_def)
  qed
qed

end

section \<open>Properties\<close>

definition some_message :: Message where
  "some_message = \<lparr>msg_ID = ''m1'', msg_Topic = ''telemetry'', msg_Payload = Raw (Json (projr (telemetry_json some_point))),
     msg_Headers = None, msg_Timestamp = of_millis 5, msg_Metadata = Some [(''hostname'', JStr ''h'')]\<rparr>"

definition some_config :: collector_Config where
  "some_config = \<lparr>cc_InstanceID = ''c1'', cc_BatchSize = 1, cc_MaxConcurrentHandlers = 10, cc_QueueBufferSize = 1000,
     cc_QueueWorkers = 10\<rparr>"


lemma some_message_payload: "Unmarshal some_message Unmarshal_telemetry = Inr some_point" "validateTelemetry some_point = None"
proof -
  obtain j where j: "telemetry_json some_point = Inr j"
    by (simp add: telemetry_json_def time_json_def some_point_def of_millis_def Unix_def second_def millisecond_def Let_def)
  have "t_off (tp_Timestamp some_point) mod 60 = 0" by (simp add: some_point_def of_millis_def)
  from telemetry_roundtrip [OF j this] show "Unmarshal some_message Unmarshal_telemetry = Inr some_point"
    by (simp add: Unmarshal_def some_message_def j)
  show "validateTelemetry some_point = None"
    by (simp add: validateTelemetry_def some_point_def IsZero_def of_millis_def zero_time_def second_def millisecond_def)
qed


text \<open>C9. Every message the collector has put into its work queue is processed, being processed, or waiting; at most
  1000 wait and at most 50 are being processed; and every message processed or dropped is counted, either as
  stored or as an error.\<close>

theorem pool_accounts_for_messages:
  assumes "pool_run T G (startWorkerPool (NewCollector config) w) evs p"
  shows "accepted evs = processed evs + working (pl_workers p) + mset (pl_queue p)
    \<and> length (pl_queue p) \<le> WorkQueueSize \<and> length (pl_workers p) = WorkerPoolSize
    \<and> c_messagesProcessed (pl_collector p) = of_nat (size (processed evs))
    \<and> c_messagesErrors (pl_collector p) + c_telemetryStored (pl_collector p)
        = of_nat (size (processed evs) + size (dropped evs))"
  using pool_run_accounts [OF assms] pool_run_counters [OF assms] by blast

theorem pool_accounts_for_messages_witness:
  "\<exists>evs p. pool_run (TelemetryRepository mem_mongo metrics_repo) (GPURepository mem_mongo gpus_repo)
       (startWorkerPool (NewCollector some_config) no_docs) evs p
     \<and> accepted evs = {#some_message#} \<and> working (pl_workers p) + mset (pl_queue p) = {#some_message#}"
proof -
  obtain evs where e: "pool_run (TelemetryRepository mem_mongo metrics_repo) (GPURepository mem_mongo gpus_repo)
       (startWorkerPool (NewCollector some_config) no_docs) evs
       ((startWorkerPool (NewCollector some_config) no_docs)\<lparr>pl_phase := Serving, pl_queue := [some_message], pl_ctxDone := True\<rparr>)"
    "accepted evs = {#some_message#}" "processed evs = {#}"
    using one_message_run [of "TelemetryRepository mem_mongo metrics_repo" "GPURepository mem_mongo gpus_repo"
        "NewCollector some_config" no_docs some_message] by blast
  from pool_accounts_for_messages [OF e(1)] e show ?thesis by (metis add_0)
qed

text \<open>C23. Once the context is done the workers may all leave while messages wait in the work queue. Such messages were
  acknowledged and are never processed, and \<open>Start\<close> never returns: the monitor waits for the queue to be empty.\<close>

theorem stranded_messages_block_shutdown:
  assumes "stranded p" and "pool_run T G p evs p'"
  shows "Start_returns \<notin> set evs \<and> processed evs = {#} \<and> stranded p'"
  using assms(2,1)
proof induction
  case (pool_then evs p1 ev p2)
  then show ?case using pool_step_stranded [OF pool_then.hyps(2)] by auto
qed simp

theorem stranded_messages_block_shutdown_witness:
  "\<exists>evs p. pool_run (TelemetryRepository mem_mongo metrics_repo) (GPURepository mem_mongo gpus_repo)
       (startWorkerPool (NewCollector some_config) no_docs) evs p \<and> accepted evs = {#some_message#}
     \<and> processed evs = {#} \<and> stranded (p\<lparr>pl_ctxDone := True\<rparr>)"
proof -
  let ?T = "TelemetryRepository mem_mongo metrics_repo" and ?G = "GPURepository mem_mongo gpus_repo"
  obtain evs p where e: "pool_run ?T ?G (startWorkerPool (NewCollector some_config) no_docs) evs p"
    "accepted evs = {#some_message#}" "processed evs = {#}" "stranded p"
    using reaches_stranded [of ?T ?G "NewCollector some_config" no_docs some_message] by blast
  have "pool_run ?T ?G p ([] @ [Silent]) (p\<lparr>pl_ctxDone := True\<rparr>)"
    by (rule pool_then [OF pool_start pool_step.cancel])
  from stranded_messages_block_shutdown [OF e(4) this] e show ?thesis by blast
qed

end
