(* ===== verification/Pipeline.thy ===== *)
theory Pipeline
  imports StreamerCorrect Collector QueueEndToEnd
begin

text \<open>
  The pipeline end to end: a CSV file that the streamer publishes, the messages that wait in the queue service,
  and the records the collector stores for them.
\<close>

section \<open>A record and its message\<close>

lemma metadata_of_record:
  "map_of (record_metadata r) ''device'' = Some (JStr (csr_Device r))"
  "map_of (record_metadata r) ''gpu_index'' = Some (JStr (csr_GPUID r))"
  "map_of (record_metadata r) ''model_name'' = Some (JStr (csr_ModelName r))"
  "map_of (record_metadata r) ''hostname'' = Some (JStr (csr_Hostname r))"
  "map_of (record_metadata r) ''container'' = Some (JStr (csr_Container r))"
  "map_of (record_metadata r) ''pod'' = Some (JStr (csr_Pod r))"
  "map_of (record_metadata r) ''namespace'' = Some (JStr (csr_Namespace r))"
  by (simp_all add: record_metadata_def del: map_put.simps)

lemma record_message_decoded:
  assumes "record_message config r ts b i = Inr m" and "t_off ts mod 60 = 0"
  shows "Unmarshal m Unmarshal_telemetry = Inr (batch_point r ts b)"
    and "extractGPUFromMessage m (batch_point r ts b) = ToGPU r"
proof -
  obtain j where j: "telemetry_json (batch_point r ts b) = Inr j" "msg_Payload m = Raw (Json j)"
    using record_message_props(5) [OF assms] by blast
  have "t_off (tp_Timestamp (batch_point r ts b)) mod 60 = 0" using assms(2) by (simp add: batch_point_def)
  from telemetry_roundtrip [OF j(1) this] show "Unmarshal m Unmarshal_telemetry = Inr (batch_point r ts b)"
    by (simp add: Unmarshal_def j(2))
  have "msg_Metadata m = Some (record_metadata r)"
    using assms(1) by (auto simp: record_message_def Let_def split: sum.splits)
  then show "extractGPUFromMessage m (batch_point r ts b) = ToGPU r"
    by (simp add: extractGPUFromMessage_def metadata_string_def GetMetadata_def lookup_def metadata_of_record
        ToGPU_def batch_point_def ToTelemetryPoint_def)
qed

text \<open>Records as the CSV reader gives them are complete.\<close>

definition complete :: "CSVRecord \<Rightarrow> bool" where
  "complete r \<longleftrightarrow> csr_UUID r \<noteq> [] \<and> csr_MetricName r \<noteq> []"

lemma validate_batch_point:
  "complete r \<Longrightarrow> \<not> IsZero ts \<Longrightarrow> validateTelemetry (batch_point r ts b) = None"
  by (simp add: validateTelemetry_def batch_point_def ToTelemetryPoint_def complete_def)

section \<open>A batch of messages\<close>

text \<open>Messages processed one after the other.\<close>

fun process_all :: "'w telemetry_repo \<Rightarrow> 'w gpu_repo \<Rightarrow> Message list \<Rightarrow> Collector \<Rightarrow> 'w \<Rightarrow> Collector \<times> 'w" where
  "process_all T G [] c w = (c, w)"
| "process_all T G (m # ms) c w = (let (c1, w1) = processMessage T G m c w in process_all T G ms c1 w1)"

context live_repositories
begin

lemma processMessage_live:
  assumes "Unmarshal m Unmarshal_telemetry = Inr t" and "validateTelemetry t = None" and "gpus_ok w" and "points_ok w"
  shows "\<exists>w'. processMessage T G m c w = (c\<lparr>c_messagesProcessed := c_messagesProcessed c + 1,
        c_gpusStored := c_gpusStored c + 1, c_telemetryStored := c_telemetryStored c + 1\<rparr>, w')
    \<and> gpus_ok w' \<and> points_ok w' \<and> gpus w' = (gpus w)(tp_GPUUUID t \<mapsto> extractGPUFromMessage m t)
    \<and> points w' = add_mset (stored_form t) (points w)"
proof -
  let ?g = "extractGPUFromMessage m t"
  obtain w1 where s1: "gr_Store G ?g w = (None, w1)" using gStore_up by blast
  obtain w2 where s2: "tr_Store T t w1 = (None, w2)" using tStore_up by blast
  note g1 = gStore_ok [OF assms(3) s1] and p1 = gStore_points [OF assms(4) s1]
  note g2 = tStore_gpus [OF conjunct1 [OF g1] s2] and p2 = tStore_ok [OF conjunct1 [OF p1] s2]
  have u: "gpu_UUID ?g = tp_GPUUUID t" by (simp add: extractGPUFromMessage_def)
  have "processMessage T G m c w = (c\<lparr>c_messagesProcessed := c_messagesProcessed c + 1,
        c_gpusStored := c_gpusStored c + 1, c_telemetryStored := c_telemetryStored c + 1\<rparr>, w2)"
    by (simp add: processMessage_def assms(1,2) s1 s2 Let_def)
  then show ?thesis using g1 p1 g2 p2 unfolding u by metis
qed

lemma process_batch_live:
  assumes "clock_ok now" and "\<not> IsZero now" and "gpus_ok w" and "points_ok w" and "\<forall>r \<in> set records. complete r"
  shows "\<exists>c' w'. process_all T G (batch_messages config now rounds i records) c w = (c', w')
    \<and> gpus_ok w' \<and> points_ok w'
    \<and> points w' = points w + mset (map (\<lambda>r. stored_form (batch_point r now (format_rfc3339 True now))) records)
    \<and> gpus w' = gpus w ++ map_of (rev (map (\<lambda>r. (csr_UUID r, ToGPU r)) records))"
  using assms(3-5)
proof (induction records arbitrary: i c w)
  case Nil
  then show ?case by simp
next
  case (Cons r records)
  have off: "t_off now mod 60 = 0" using assms(1) by (simp add: clock_ok_def)
  obtain m where m: "record_message config r now (format_rfc3339 True now) (rr_uuid (rounds i)) = Inr m"
    using record_message_total [OF assms(1)] by blast
  note d = record_message_decoded [OF m off]
  have "complete r" using Cons.prems(3) by simp
  from processMessage_live [OF d(1) validate_batch_point [OF this assms(2)] Cons.prems(1,2), of c] obtain c1 w1 where
    one: "processMessage T G m c w = (c1, w1)" "gpus_ok w1" "points_ok w1"
      "gpus w1 = (gpus w)(csr_UUID r \<mapsto> ToGPU r)"
      "points w1 = add_mset (stored_form (batch_point r now (format_rfc3339 True now))) (points w)"
    unfolding d(2) by (auto simp: batch_point_def ToTelemetryPoint_def)
  from Cons.IH [OF one(2,3), of "Suc i" c1] Cons.prems(3) obtain c' w' where
    rest: "process_all T G (batch_messages config now rounds (Suc i) records) c1 w1 = (c', w')" "gpus_ok w'" "points_ok w'"
      "points w' = points w1 + mset (map (\<lambda>r. stored_form (batch_point r now (format_rfc3339 True now))) records)"
      "gpus w' = gpus w1 ++ map_of (rev (map (\<lambda>r. (csr_UUID r, ToGPU r)) records))" by auto
  have "gpus w' = gpus w ++ map_of (rev (map (\<lambda>r. (csr_UUID r, ToGPU r)) (r # records)))"
    unfolding rest(5) one(4) by (simp add: map_add_def fun_eq_iff split: option.split)
  then show ?case using rest(1-4) by (simp add: m one(1,5))
qed

end

section \<open>A file\<close>

text \<open>A pass over a quoted file under live contexts.\<close>

definition live_rounds :: "(nat \<Rightarrow> record_round) \<Rightarrow> bool" where
  "live_rounds rounds \<longleftrightarrow> (\<forall>i. rr_ctx (rounds i) = None \<and> rr_publish (rounds i) = None)"

definition well_formed :: "string list \<Rightarrow> string list list \<Rightarrow> bool" where
  "well_formed header rows \<longleftrightarrow> header \<noteq> [] \<and> (\<forall>row \<in> set (header # rows). length row = length header \<and> LF \<notin> set (concat row))"

lemma successes_complete:
  "r \<in> set (successes (map (ParseRow p) rows)) \<Longrightarrow> complete r"
proof (induction rows)
  case (Cons row rows)
  then show ?case using ParseRow_ok [of p row] by (cases "ParseRow p row") (auto simp: complete_def)
qed simp

lemma streamFile_quoted:
  assumes "reliable_publisher publish sent" and "ParseHeader header NewCSVParser = (None, p)"
    and "well_formed header rows" and "clock_ok now" and "live_rounds rounds"
  shows "\<exists>s' w'. streamFile publish (Inr (quoted_file (header # rows), None)) now rounds s w = Some (None, s', w')
    \<and> sent w' = (sent w)(TopicTelemetry := sent w TopicTelemetry
        @ batch_messages (s_config s) now rounds 0 (successes (map (ParseRow p) rows)))
    \<and> s_rowsSent s' = s_rowsSent s + of_nat (length (successes (map (ParseRow p) rows)))
    \<and> s_errorCount s' = s_errorCount s + of_nat (failures (map (ParseRow p) rows))"
proof -
  let ?recs = "successes (map (ParseRow p) rows)"
  let ?sr = "\<lparr>sr_reader = \<lparr>cr_lines = map quote_record rows, cr_ioError = None, cr_FieldsPerRecord = length header\<rparr>,
    sr_parser = p, sr_row = 1\<rparr>"
  have ne: "\<forall>row \<in> set (header # rows). row \<noteq> [] \<and> LF \<notin> set (concat row)"
    using assms(3) unfolding well_formed_def by (metis length_0_conv)
  have r: "NewStreamReader (quoted_file (header # rows)) None = Inr ?sr"
    by (rule NewStreamReader_quoted [OF assms(2) ne])
  have "\<forall>row \<in> set rows. row \<noteq> [] \<and> length row = length header"
    using assms(3) ne by (simp add: well_formed_def)
  note res = results_of_quoted [OF this, of p 1]
  have read: "read_records ?sr [] (s_errorCount s) = Some (?recs, s_errorCount s + of_nat (failures (map (ParseRow p) rows)))"
    using read_records_ends [of ?sr "[]" "s_errorCount s"] res by simp
  let ?s1 = "s\<lparr>s_errorCount := s_errorCount s + of_nat (failures (map (ParseRow p) rows))\<rparr>"
  have "rr_ctx (rounds i) = None" "rr_publish (rounds i) = None" for i
    using assms(5) by (simp_all add: live_rounds_def)
  from reliable_publisher.publish_records_all [where rounds = rounds and i = 0 and records = ?recs and s = ?s1 and w = w, OF assms(1,4) this]
  show ?thesis by (auto simp: streamFile_def r read)
qed

text \<open>The records of a file, as the reference reading gives them.\<close>

definition file_records :: "csv_file \<Rightarrow> CSVRecord list" where
  "file_records file = (case file of Inl e \<Rightarrow> []
     | Inr (str, io) \<Rightarrow> (case NewStreamReader str io of Inl e \<Rightarrow> [] | Inr reader \<Rightarrow> successes (results_of reader)))"

section \<open>Properties\<close>

text \<open>A file of one row, and a pass over it, for the witnesses.\<close>

definition one_row :: "string list" where
  "one_row = [''t'', ''util'', ''0'', ''d'', ''u1'', ''m'', ''h'', ''9'']"

definition parser1 :: CSVParser where
  "parser1 = snd (ParseHeader required_columns NewCSVParser)"

definition one_file :: csv_file where
  "one_file = Inr (quoted_file [required_columns, one_row], None)"

definition rounds1 :: "nat \<Rightarrow> record_round" where
  "rounds1 i = \<lparr>rr_ctx = None, rr_publish = None, rr_uuid = ''id''\<rparr>"

abbreviation calm_publish :: "mem publish" where
  "calm_publish \<equiv> client_Publish (direct calm_redis sample_queue (cl_baseURL sample_client)) sample_client"

lemma one_file_props:
  "ParseHeader required_columns NewCSVParser = (None, parser1)" "well_formed required_columns [one_row]"
  "length (successes (map (ParseRow parser1) [one_row])) = 1"
proof -
  have "fst (ParseHeader required_columns NewCSVParser) = None" by code_simp
  then show "ParseHeader required_columns NewCSVParser = (None, parser1)" by (simp add: parser1_def prod_eq_iff)
  show "well_formed required_columns [one_row]"
    by (simp add: well_formed_def required_columns_def one_row_def LF_def)
  show "length (successes (map (ParseRow parser1) [one_row])) = 1" by code_simp
qed

lemma rounds1_live: "live_rounds rounds1"
  by (simp add: live_rounds_def rounds1_def)

lemma clock1: "clock_ok (of_millis 5)" "\<not> IsZero (of_millis 5)"
  by (simp_all add: clock_ok_def time_json_def of_millis_def Unix_def IsZero_def zero_time_def second_def millisecond_def Let_def)

text \<open>C7. Whatever the file, the contexts and the queue do: a pass that ends has added to the queue only messages of the
  records of its file, in the order of the file, each at most once, and the rows it counts as sent were added.\<close>

theorem pass_publishes_in_order:
  assumes "publisher publish sent" and "t_off now mod 60 = 0"
    and "streamFile publish file now rounds s w = Some (r, s', w')"
  shows "\<exists>ms k. sent w' = (sent w)(TopicTelemetry := sent w TopicTelemetry @ ms)
    \<and> subseq ms (batch_messages (s_config s) now rounds 0 (file_records file))
    \<and> k \<le> length ms \<and> s_rowsSent s' = s_rowsSent s + of_nat k"
proof (cases "\<exists>str io reader. file = Inr (str, io) \<and> NewStreamReader str io = Inr reader")
  case False
  then have "s' = s" "w' = w" using assms(3) by (auto simp: streamFile_def split: sum.splits prod.splits)
  then show ?thesis by (intro exI [of _ "[]"] exI [of _ 0]) auto
next
  case True
  then obtain str io reader where f: "file = Inr (str, io)" "NewStreamReader str io = Inr reader" by blast
  have "io = None \<or> io = Some EOF"
    using pass_ends_readable [OF assms(3) f(1) f(2)] .
  then have read: "read_records reader [] (s_errorCount s)
      = Some (successes (results_of reader), s_errorCount s + of_nat (failures (results_of reader)))"
    using read_records_ends [of reader "[]" "s_errorCount s"] NewStreamReader_io [OF f(2)] by simp
  let ?s1 = "s\<lparr>s_errorCount := s_errorCount s + of_nat (failures (results_of reader))\<rparr>"
  have "publish_records publish now (format_rfc3339 True now) rounds 0 (successes (results_of reader)) ?s1 w = (r, s', w')"
    using assms(3) by (simp add: streamFile_def f read)
  from publisher.publish_records_subseq [OF assms(1) this assms(2)] obtain ms k where
    "sent w' = (sent w)(TopicTelemetry := sent w TopicTelemetry @ ms)" "k \<le> length ms"
    "subseq ms (batch_messages (s_config s) now rounds 0 (successes (results_of reader)))"
    "s' = ?s1\<lparr>s_rowsSent := s_rowsSent ?s1 + of_nat k\<rparr>" by auto
  then show ?thesis by (intro exI [of _ ms] exI [of _ k]) (simp add: file_records_def f)
qed

theorem pass_publishes_in_order_witness:
  "\<exists>s' w' ms. streamFile calm_publish one_file (of_millis 5) rounds1 (NewStreamer one_shot) empty_world = Some (None, s', w')
     \<and> subseq ms (batch_messages one_shot (of_millis 5) rounds1 0 (file_records one_file))
     \<and> waiting (mem_data w') TopicTelemetry = ms"
proof -
  obtain s' w' where r: "streamFile calm_publish one_file (of_millis 5) rounds1 (NewStreamer one_shot) empty_world = Some (None, s', w')"
    using streamFile_quoted [OF calm_publisher.reliable_publisher_axioms one_file_props(1,2) clock1(1) rounds1_live]
    unfolding one_file_def by blast
  have "t_off (of_millis 5) mod 60 = 0" by (simp add: of_millis_def)
  from pass_publishes_in_order [OF calm_publisher.publisher_axioms this r] r empty_world_props(2) show ?thesis
    by (auto simp: NewStreamer_def)
qed







end
