(* ===== verification/Deployment.thy ===== *)
theory Deployment
  imports Pipeline
begin

text \<open>
  The whole pipeline at work: the queue service on Redis, streamers that publish to it, collectors that poll it and
  settle what they got, their worker pools, and the database, as one step relation over connections that lose
  requests and replies. A ledger records what became of the messages; the theorem is that the account adds up.
\<close>

section \<open>Connections\<close>

text \<open>A request arrives and its reply too, or it gets lost, or its reply does.\<close>

datatype line = Up | Request_lost | Reply_lost

definition connection :: "line \<Rightarrow> 'w redis \<Rightarrow> RedisQueue \<Rightarrow> string \<Rightarrow> 'w transport" where
  "connection k R q base = \<lparr>Do = (\<lambda>cx meth url body w.
     (case k of
        Up \<Rightarrow> Do (direct R q base) cx meth url body w
      | Request_lost \<Rightarrow> (Inl (External ''connection refused''), w)
      | Reply_lost \<Rightarrow> (Inl EOF, snd (Do (direct R q base) cx meth url body w))))\<rparr>"

section \<open>The state\<close>

text \<open>
  Where the polling goroutine of a collector is in \<open>handleBatchPolling\<close>: between rounds, with the rest of a batch,
  inside the handler with a message, or with the result of the handler and about to acknowledge.
\<close>

datatype poll_state =
    Idle
  | Batch "Message option list"
  | Called Message "Message option list"
  | Answered "error option" Message "Message option list"

record 'v collector_process =
  cp_client :: HTTPQueueClient
  cp_poller :: poll_state
  cp_pool :: "'v pool"

text \<open>
  The messages clients tried to publish and those whose publication was confirmed; those that workers processed,
  that \<open>handleMessage\<close> dropped, and that were in the memory of a collector when it crashed.
\<close>

record ledger =
  lg_sent :: "Message set"
  lg_confirmed :: "Message set"
  lg_processed :: "Message set"
  lg_dropped :: "Message set"
  lg_crashed :: "Message set"

definition empty_ledger :: ledger where
  "empty_ledger = \<lparr>lg_sent = {}, lg_confirmed = {}, lg_processed = {}, lg_dropped = {}, lg_crashed = {}\<rparr>"

text \<open>The messages a collector has accepted and not processed.\<close>

definition memory :: "'v pool \<Rightarrow> Message set" where
  "memory p = set (pl_queue p) \<union> set_mset (working (pl_workers p))"

definition memories :: "'v collector_process list \<Rightarrow> Message set" where
  "memories cs = (\<Union>cp \<in> set cs. memory (cp_pool cp))"

definition taken :: "'v collector_process list \<Rightarrow> ledger \<Rightarrow> Message set" where
  "taken cs L = memories cs \<union> lg_processed L \<union> lg_dropped L \<union> lg_crashed L"

definition processed_by :: "event \<Rightarrow> Message set" where
  "processed_by ev = (case ev of Processed m \<Rightarrow> {m} | _ \<Rightarrow> {})"

section \<open>The steps\<close>

inductive deployed :: "'w redis \<Rightarrow> ('w \<Rightarrow> store) \<Rightarrow> duration \<Rightarrow> 'v telemetry_repo \<Rightarrow> 'v gpu_repo \<Rightarrow> 'v
    \<Rightarrow> RedisQueue \<Rightarrow> 'w \<Rightarrow> 'v \<Rightarrow> 'v collector_process list \<Rightarrow> ledger \<Rightarrow> bool" for R data vt T G v0 where
  d_start: "store_ok (data w) \<Longrightarrow> held (data w) = {} \<Longrightarrow> deployed R data vt T G v0 (NewRedisQueue vt mr) w v0 [] empty_ledger"
  \<comment> \<open>a collector starts\<close>
| d_join: "deployed R data vt T G v0 q w v cs L \<Longrightarrow> client_ok c \<Longrightarrow>
    deployed R data vt T G v0 q w v
      (cs @ [\<lparr>cp_client = c, cp_poller = Idle, cp_pool = startWorkerPool (NewCollector config) v\<rparr>]) L"
  \<comment> \<open>a streamer publishes\<close>
| d_publish: "deployed R data vt T G v0 q w v cs L \<Longrightarrow> client_ok c \<Longrightarrow> message_ok m \<Longrightarrow>
    client_Publish (connection k R q (cl_baseURL c)) c cx m w = (r, w') \<Longrightarrow>
    deployed R data vt T G v0 q w' v cs (L\<lparr>lg_sent := insert (wire_form m) (lg_sent L),
      lg_confirmed := lg_confirmed L \<union> (if r = None then {wire_form m} else {})\<rparr>)"
  \<comment> \<open>a round of polling: fetching, the handler, its result, \<open>Ack\<close> or \<open>Nack\<close>\<close>
| d_poll: "deployed R data vt T G v0 q w v cs L \<Longrightarrow> i < length cs \<Longrightarrow> cs ! i = cp \<Longrightarrow> cp_poller cp = Idle \<Longrightarrow>
    pl_phase (cp_pool cp) = Serving \<Longrightarrow>
    poll_fetch (connection k R q (cl_baseURL (cp_client cp))) (cp_client cp) cx TopicTelemetry w = (r, w') \<Longrightarrow>
    deployed R data vt T G v0 q w' v
      (cs[i := cp\<lparr>cp_poller := (case r of None \<Rightarrow> Idle | Some ms \<Rightarrow> Batch ms)\<rparr>]) L"
| d_call: "deployed R data vt T G v0 q w v cs L \<Longrightarrow> i < length cs \<Longrightarrow> cs ! i = cp \<Longrightarrow> cp_poller cp = Batch (Some m # ms) \<Longrightarrow>
    p' = (cp_pool cp)\<lparr>pl_calls := m # pl_calls (cp_pool cp)\<rparr> \<Longrightarrow> pool_step T G (cp_pool cp) Silent p' \<Longrightarrow>
    deployed R data vt T G v0 q w v (cs[i := cp\<lparr>cp_poller := Called m ms, cp_pool := p'\<rparr>]) L"
| d_answer: "deployed R data vt T G v0 q w v cs L \<Longrightarrow> i < length cs \<Longrightarrow> cs ! i = cp \<Longrightarrow> cp_poller cp = Called m ms \<Longrightarrow>
    pool_step T G (cp_pool cp) (Returns_to_queue m ch) p' \<Longrightarrow> r = fst (handleMessage ch m (cp_pool cp)) \<Longrightarrow>
    deployed R data vt T G v0 q w v (cs[i := cp\<lparr>cp_poller := Answered r m ms, cp_pool := p'\<rparr>])
      (L\<lparr>lg_dropped := lg_dropped L \<union> (if ch = TimedOut then {m} else {})\<rparr>)"
| d_settle: "deployed R data vt T G v0 q w v cs L \<Longrightarrow> i < length cs \<Longrightarrow> cs ! i = cp \<Longrightarrow> cp_poller cp = Answered r m ms \<Longrightarrow>
    (if r \<noteq> None
     then client_Nack (connection k R q (cl_baseURL (cp_client cp))) (cp_client cp) TopicTelemetry (msg_ID m) w
     else client_Ack (connection k R q (cl_baseURL (cp_client cp))) (cp_client cp) TopicTelemetry (msg_ID m) w) = (e, w') \<Longrightarrow>
    deployed R data vt T G v0 q w' v (cs[i := cp\<lparr>cp_poller := Batch ms\<rparr>]) L"
| d_round: "deployed R data vt T G v0 q w v cs L \<Longrightarrow> i < length cs \<Longrightarrow> cs ! i = cp \<Longrightarrow> cp_poller cp = Batch [] \<Longrightarrow>
    deployed R data vt T G v0 q w v (cs[i := cp\<lparr>cp_poller := Idle\<rparr>]) L"
  \<comment> \<open>the other steps of a pool: subscribing, workers, shutting down\<close>
| d_work: "deployed R data vt T G v0 q w v cs L \<Longrightarrow> i < length cs \<Longrightarrow> cs ! i = cp \<Longrightarrow>
    pool_step T G ((cp_pool cp)\<lparr>pl_world := v\<rparr>) ev p' \<Longrightarrow> pl_calls p' = pl_calls (cp_pool cp) \<Longrightarrow>
    deployed R data vt T G v0 q w (pl_world p') (cs[i := cp\<lparr>cp_pool := p'\<rparr>])
      (L\<lparr>lg_processed := lg_processed L \<union> processed_by ev\<rparr>)"
  \<comment> \<open>a collector crashes and is started again\<close>
| d_crash: "deployed R data vt T G v0 q w v cs L \<Longrightarrow> i < length cs \<Longrightarrow> cs ! i = cp \<Longrightarrow>
    deployed R data vt T G v0 q w v
      (cs[i := cp\<lparr>cp_poller := Idle, cp_pool := startWorkerPool (NewCollector (c_config (pl_collector (cp_pool cp)))) v\<rparr>])
      (L\<lparr>lg_crashed := lg_crashed L \<union> memory (cp_pool cp)\<rparr>)"
  \<comment> \<open>the expiry loop of the service, and the clock\<close>
| d_sweep: "deployed R data vt T G v0 q w v cs L \<Longrightarrow> checkExpiredMessages R q w = (Returns q', w') \<Longrightarrow>
    deployed R data vt T G v0 q' w' v cs L"
| d_clock: "deployed R data vt T G v0 q w v cs L \<Longrightarrow> data w' = data w \<Longrightarrow> deployed R data vt T G v0 q w' v cs L"

section \<open>Requests over a connection\<close>

lemma connection_do:
  "snd (Do (connection k R q base) cx meth url body w) \<in> {w, snd (Do (direct R q base) cx meth url body w)}"
  "Do (connection k R q base) cx meth url body w = (Inr resp, w') \<Longrightarrow> Do (direct R q base) cx meth url body w = (Inr resp, w')"
  by (cases k; simp add: connection_def)+

lemma connection_Up: "connection Up R q base = direct R q base"
  by (simp add: connection_def direct_def)

text \<open>What an exchange through \<open>post\<close> has done when it ends: nothing, or what the handler does; a success is one.\<close>

lemma post_connection:
  assumes "post (connection k R q base) cx create send status (base @ p) (Json j) w = (r, w')"
    and "CHR ''#'' \<notin> set p" and "CHR ''?'' \<notin> set p"
  shows "\<exists>resp w1. serve_http R \<lparr>hq_Method = MethodPost, hq_Path = p, hq_RawQuery = [], hq_Body = Inr (Json j)\<rparr> q w = (resp, w1)
    \<and> (w' = w \<or> w' = w1) \<and> (r = None \<longrightarrow> w' = w1 \<and> (\<exists>x. resp = Returns x \<and> hr_StatusCode x = StatusOK))"
proof -
  let ?h = "\<lparr>hq_Method = MethodPost, hq_Path = p, hq_RawQuery = [], hq_Body = Inr (Json j)\<rparr>"
  obtain resp w1 where h: "serve_http R ?h q w = (resp, w1)" by fastforce
  obtain x w2 where d: "Do (connection k R q base) cx MethodPost (base @ p) (Json j) w = (x, w2)" by fastforce
  have direct: "Do (direct R q base) cx MethodPost (base @ p) (Json j) w
      = (case cx of Some e \<Rightarrow> (Inl e, w) | None \<Rightarrow>
          (case resp of Panics e \<Rightarrow> (Inl EOF, w1) | Returns y \<Rightarrow> (Inr y, w1)))"
    using direct_path [OF assms(2,3), of R q base MethodPost "Json j" w] by (cases cx) (simp_all add: h)
  have "w2 = w \<or> w2 = w1" using connection_do(1) [of k R q base cx MethodPost "base @ p" "Json j" w] d direct
    by (auto split: option.splits outcome.splits)
  moreover have "x = Inr y \<Longrightarrow> w2 = w1 \<and> resp = Returns y" for y
    using connection_do(2) [of k R q base cx MethodPost "base @ p" "Json j" w y w2] d direct
    by (auto split: option.splits outcome.splits)
  ultimately show ?thesis using assms(1) d h
    by (intro exI [of _ resp] exI [of _ w1]) (auto simp: post_def split: option.splits sum.splits if_splits)
qed

lemma client_Ack_connection:
  assumes "client_Ack (connection k R q (cl_baseURL c)) c t i w = (r, w')"
  shows "w' = w \<or> (\<exists>x. Ack R t (cl_consumerGroup c) i w = (x, w'))"
proof -
  obtain resp w1 where h: "serve_http R \<lparr>hq_Method = MethodPost, hq_Path = ''/api/v1/queue/ack'', hq_RawQuery = [],
      hq_Body = Inr (Json (ack_json c t i))\<rparr> q w = (resp, w1)" "w' = w \<or> w' = w1"
    using post_connection [OF assms [unfolded client_Ack_def]] by auto
  then have "w1 = w \<or> (\<exists>x. Ack R t (cl_consumerGroup c) i w = (x, w1))"
    by (auto simp: serve_http_def handleAck_def ack_json_def Unmarshal_ack_json
        split: if_splits prod.splits outcome.splits option.splits)
  with h(2) show ?thesis by auto
qed

lemma client_Nack_connection:
  assumes "client_Nack (connection k R q (cl_baseURL c)) c t i w = (r, w')"
  shows "w' = w \<or> (\<exists>x. Nack R t (cl_consumerGroup c) i w = (x, w'))"
proof -
  obtain resp w1 where h: "serve_http R \<lparr>hq_Method = MethodPost, hq_Path = ''/api/v1/queue/nack'', hq_RawQuery = [],
      hq_Body = Inr (Json (ack_json c t i))\<rparr> q w = (resp, w1)" "w' = w \<or> w' = w1"
    using post_connection [OF assms [unfolded client_Nack_def]] by auto
  then have "w1 = w \<or> (\<exists>x. Nack R t (cl_consumerGroup c) i w = (x, w1))"
    by (auto simp: serve_http_def handleNack_def ack_json_def Unmarshal_ack_json
        split: if_splits prod.splits outcome.splits option.splits)
  with h(2) show ?thesis by auto
qed

lemma client_Publish_connection:
  assumes "client_Publish (connection k R q (cl_baseURL c)) c cx m w = (r, w')" and "message_ok m"
  shows "(w' = w \<or> (\<exists>e. Publish R (wire_form m) w = (e, w'))) \<and> (r = None \<longrightarrow> Publish R (wire_form m) w = (None, w'))"
proof (cases "message_json m")
  case (Inl e)
  with assms(1) show ?thesis by (auto simp: client_Publish_def)
next
  case (Inr j)
  obtain resp w1 where h: "serve_http R \<lparr>hq_Method = MethodPost, hq_Path = ''/api/v1/queue/publish'', hq_RawQuery = [],
      hq_Body = Inr (Json j)\<rparr> q w = (resp, w1)" "w' = w \<or> w' = w1"
      "r = None \<longrightarrow> w' = w1 \<and> (\<exists>x. resp = Returns x \<and> hr_StatusCode x = StatusOK)"
    using post_connection [OF assms(1) [unfolded client_Publish_def Inr sum.case]] by auto
  note u = message_roundtrip [OF Inr assms(2)]
  have "(w1 = w \<or> (\<exists>e. Publish R (wire_form m) w = (e, w1)))
      \<and> ((\<exists>x. resp = Returns x \<and> hr_StatusCode x = StatusOK) \<longrightarrow> Publish R (wire_form m) w = (None, w1))"
    using h(1) by (auto simp: serve_http_def handlePublish_def u status_defs map_prod_def split: if_splits prod.splits option.splits)
  with h(2,3) show ?thesis by auto
qed

lemma plain_topic: "plain_name TopicTelemetry" "TopicTelemetry \<noteq> []"
  by code_simp+

lemma poll_fetch_connection:
  assumes "redis_live R data (rq_visibilityTimeout q)" and "serves R data q w P A" and "client_ok c"
    and "poll_fetch (connection k R q (cl_baseURL c)) c cx TopicTelemetry w = (r, w')"
  shows "serves R data q w' P A" and "r = Some ms \<Longrightarrow> \<exists>n. ms = map Some (take n (waiting (data w) TopicTelemetry))"
proof -
  let ?T = "connection k R q (cl_baseURL c)" and ?D = "direct R q (cl_baseURL c)" and ?u = "fetch_url c TopicTelemetry"
  obtain x w1 where d: "Do ?T cx MethodGet ?u (Plain []) w = (x, w1)" by fastforce
  have w': "w' = w1" "r \<noteq> None \<Longrightarrow> \<exists>resp. x = Inr resp"
    using assms(4) d fetch_url_no_error [OF assms(3) plain_topic(1)]
    by (auto simp: poll_fetch_def split: sum.splits if_splits)
  have direct: "Do ?D cx MethodGet ?u (Plain []) w = (case cx of Some e \<Rightarrow> (Inl e, w)
      | None \<Rightarrow> (case serve_http R (fetch_request TopicTelemetry (cl_consumerGroup c) (cl_consumerID c) (nat_digits prefetchCount)) q w of
          (Panics p, w1) \<Rightarrow> (Inl EOF, w1) | (Returns resp, w1) \<Rightarrow> (Inr resp, w1)))"
    by (simp add: direct_def fetch_url_request [OF assms(3) plain_topic(1)] split: option.split)
  have names: "plain_name (cl_consumerGroup c)" "plain_name (cl_consumerID c)" "cl_consumerGroup c \<noteq> []" "cl_consumerID c \<noteq> []"
    using assms(3) by (simp_all add: client_ok_def)
  note h = handleFetch_request [OF plain_topic(1) names(1,2) plain_topic(2) names(3,4) prefetch_in_range(1), of R q w]
  have "w1 = w \<or> w1 = snd (Do ?D cx MethodGet ?u (Plain []) w)"
    using connection_do(1) [of k R q "cl_baseURL c" cx MethodGet ?u "Plain []" w] d by simp
  then have "w1 = w \<or> (\<exists>n y. FetchBatch R q TopicTelemetry (cl_consumerGroup c) (cl_consumerID c) n w = (y, w1))"
    unfolding direct h by (auto split: option.splits prod.splits outcome.splits sum.splits)
  then show "serves R data q w' P A" using assms(2) serves.fetched [OF assms(2)] w'(1) by blast
  assume ms: "r = Some ms"
  then obtain resp where "x = Inr resp" using w'(2) by blast
  with d connection_do(2) [of k R q "cl_baseURL c" cx MethodGet ?u "Plain []" w resp w1] have same: "Do ?D cx MethodGet ?u (Plain []) w = (Inr resp, w1)" by simp
  then have cx: "cx = None" unfolding direct by (auto split: option.splits)
  have "poll_fetch ?D c None TopicTelemetry w = (r, w')"
    using assms(4) d same \<open>x = Inr resp\<close> cx by (auto simp: poll_fetch_def split: option.splits if_splits)
  with ms poll_fetch_direct [OF assms(1-3) plain_topic] show "\<exists>n. ms = map Some (take n (waiting (data w) TopicTelemetry))"
    by (auto split: if_splits)
qed

section \<open>Memory\<close>

lemma memories_update:
  assumes "i < length cs"
  shows "memories (cs[i := cp]) \<subseteq> memories cs \<union> memory (cp_pool cp)"
    and "memory (cp_pool (cs ! i)) \<subseteq> memory (cp_pool cp) \<union> X \<Longrightarrow> memories cs \<subseteq> memories (cs[i := cp]) \<union> X"
proof -
  show "memories (cs[i := cp]) \<subseteq> memories cs \<union> memory (cp_pool cp)"
    using set_update_subset_insert [of cs i cp] unfolding memories_def by blast
  assume sub: "memory (cp_pool (cs ! i)) \<subseteq> memory (cp_pool cp) \<union> X"
  have "memory (cp_pool (cs ! j)) \<subseteq> memories (cs[i := cp]) \<union> X" if "j < length cs" for j
  proof (cases "j = i")
    case True
    have "cp \<in> set (cs[i := cp])" by (rule set_update_memI [OF assms])
    then show ?thesis using sub True unfolding memories_def by blast
  next
    case False
    then have "cs ! j \<in> set (cs[i := cp])" using that by (metis length_list_update nth_list_update_neq nth_mem)
    then show ?thesis unfolding memories_def by blast
  qed
  then show "memories cs \<subseteq> memories (cs[i := cp]) \<union> X"
    unfolding memories_def [of cs] by (intro UN_least) (auto simp only: in_set_conv_nth)
qed

lemma memories_same:
  "i < length cs \<Longrightarrow> memory (cp_pool cp) = memory (cp_pool (cs ! i)) \<Longrightarrow> memories (cs[i := cp]) = memories cs"
  using memories_update [of i cs cp] nth_mem [of i cs] by (force simp: memories_def)

lemma memory_simps [simp]:
  "memory (startWorkerPool c v) = {}" "memory (p\<lparr>pl_calls := ms\<rparr>) = memory p" "memory (p\<lparr>pl_world := v\<rparr>) = memory p"
  by (simp_all add: memory_def startWorkerPool_def)

lemma memory_step:
  assumes "pool_step T G p ev p'"
  shows "memory p \<subseteq> memory p' \<union> processed_by ev" and "memory p' \<union> processed_by ev \<subseteq> memory p \<union> set_mset (accepted [ev])"
proof -
  have "set_mset (processed [ev]) = processed_by ev"
    by (auto simp: processed_by_def split: event.splits)
  with pool_step_conserves [OF assms] have "processed_by ev \<union> memory p' = set_mset (accepted [ev]) \<union> memory p"
    unfolding memory_def by (metis set_mset_mset set_mset_union Un_assoc Un_commute)
  then show "memory p \<subseteq> memory p' \<union> processed_by ev" "memory p' \<union> processed_by ev \<subseteq> memory p \<union> set_mset (accepted [ev])"
    by blast+
qed

text \<open>A call of the handler that returns: the message is in memory, dropped, or refused.\<close>

lemma answer_step:
  assumes "pool_step T G p (Returns_to_queue m ch) p'"
  shows "memory p \<subseteq> memory p'" "memory p' \<subseteq> insert m (memory p)"
    "fst (handleMessage ch m p) = None \<Longrightarrow> m \<in> memory p' \<or> ch = TimedOut"
proof -
  obtain r p1 where h: "handleMessage ch m p = (r, p1)" "p' = p1\<lparr>pl_calls := remove1 m (pl_calls p)\<rparr>"
    using assms by cases auto
  show "memory p \<subseteq> memory p'" "memory p' \<subseteq> insert m (memory p)"
    "fst (handleMessage ch m p) = None \<Longrightarrow> m \<in> memory p' \<or> ch = TimedOut"
    using h by (auto simp: memory_def handleMessage_def split: choice.splits)
qed

lemma remove1_shorter: "m \<in> set xs \<Longrightarrow> remove1 m xs \<noteq> xs"
  by (induction xs) auto

section \<open>The account\<close>

text \<open>What the polling goroutine holds was published; the message it is about to acknowledge was accepted or dropped.\<close>

fun poller_ok :: "Message set \<Rightarrow> Message set \<Rightarrow> poll_state \<Rightarrow> bool" where
  "poller_ok P K Idle \<longleftrightarrow> True"
| "poller_ok P K (Batch ms) \<longleftrightarrow> set ms \<subseteq> Some ` P"
| "poller_ok P K (Called m ms) \<longleftrightarrow> m \<in> P \<and> set ms \<subseteq> Some ` P"
| "poller_ok P K (Answered r m ms) \<longleftrightarrow> m \<in> P \<and> (r = None \<longrightarrow> m \<in> K) \<and> set ms \<subseteq> Some ` P"

lemma poller_ok_mono: "poller_ok P K po \<Longrightarrow> P \<subseteq> P' \<Longrightarrow> K \<subseteq> K' \<Longrightarrow> poller_ok P' K' po"
  using image_mono [of P P' Some] by (cases po) (simp_all, blast+)

definition accounted :: "'w redis \<Rightarrow> ('w \<Rightarrow> store) \<Rightarrow> duration \<Rightarrow> RedisQueue \<Rightarrow> 'w \<Rightarrow> 'v collector_process list \<Rightarrow> ledger
    \<Rightarrow> Message set \<Rightarrow> string set \<Rightarrow> bool" where
  "accounted R data vt q w cs L P A \<longleftrightarrow> serves R data q w P A \<and> rq_visibilityTimeout q = vt
     \<and> lg_confirmed L \<subseteq> P \<and> P \<subseteq> lg_sent L \<and> taken cs L \<subseteq> P \<and> A \<subseteq> msg_ID ` taken cs L
     \<and> (\<forall>cp \<in> set cs. client_ok (cp_client cp) \<and> poller_ok P (taken cs L) (cp_poller cp))"

lemma accounted_update:
  assumes "accounted R data vt q w cs L P A" and "i < length cs"
    and "serves R data q w' P A'" and "A' \<subseteq> A \<union> msg_ID ` taken cs L"
    and "taken cs L \<subseteq> taken (cs[i := cp]) L'" and "taken (cs[i := cp]) L' \<subseteq> P"
    and "lg_confirmed L' = lg_confirmed L" and "lg_sent L' = lg_sent L"
    and "cp_client cp = cp_client (cs ! i)" and "poller_ok P (taken (cs[i := cp]) L') (cp_poller cp)"
  shows "accounted R data vt q w' (cs[i := cp]) L' P A'"
proof -
  have "client_ok (cp_client cp)" using assms(1,2,9) nth_mem by (fastforce simp: accounted_def)
  then have "client_ok (cp_client x) \<and> poller_ok P (taken (cs[i := cp]) L') (cp_poller x)" if "x \<in> set (cs[i := cp])" for x
    using set_update_subset_insert [of cs i cp] that assms(1,10) poller_ok_mono [OF _ subset_refl assms(5)]
    by (auto simp: accounted_def)
  moreover have "A' \<subseteq> msg_ID ` taken (cs[i := cp]) L'"
  proof -
    have "A \<subseteq> msg_ID ` taken cs L" using assms(1) by (simp add: accounted_def)
    then show ?thesis using assms(4) image_mono [OF assms(5), of msg_ID] by blast
  qed
  ultimately show ?thesis using assms(1,3,6-8) by (simp add: accounted_def)
qed

lemma accounted_same:
  assumes "accounted R data vt q w cs L P A" and "i < length cs" and "memory (cp_pool cp) = memory (cp_pool (cs ! i))"
    and "serves R data q w' P A'" and "A' \<subseteq> A \<union> msg_ID ` taken cs L" and "cp_client cp = cp_client (cs ! i)"
    and "poller_ok P (taken cs L) (cp_poller cp)"
  shows "accounted R data vt q w' (cs[i := cp]) L P A'"
proof -
  have "taken (cs[i := cp]) L = taken cs L" using memories_same [OF assms(2,3)] by (simp add: taken_def)
  moreover have "taken cs L \<subseteq> P" using assms(1) by (simp add: accounted_def)
  ultimately show ?thesis using assms by (intro accounted_update [OF assms(1,2,4,5)]) simp_all
qed

lemma accounted_publish:
  assumes "redis_live R data vt" and "accounted R data vt q w cs L P A" and "client_ok c" and "message_ok m"
    and "client_Publish (connection k R q (cl_baseURL c)) c cx m w = (r, w')"
  shows "\<exists>P. accounted R data vt q w' cs (L\<lparr>lg_sent := insert (wire_form m) (lg_sent L),
      lg_confirmed := lg_confirmed L \<union> (if r = None then {wire_form m} else {})\<rparr>) P A"
proof -
  have s: "serves R data q w P A" and m: "message_ok (wire_form m)"
    using assms(2) message_ok_wire_form [OF assms(4)] by (simp_all add: accounted_def)
  note p = client_Publish_connection [OF assms(5,4)]
  have "\<exists>P'. serves R data q w' P' A \<and> P \<subseteq> P' \<and> P' \<subseteq> insert (wire_form m) P \<and> (r = None \<longrightarrow> wire_form m \<in> P')"
  proof (cases "Publish R (wire_form m) w = (None, w')")
    case True
    from serves.published [OF s m True] show ?thesis by (intro exI [of _ "insert (wire_form m) P"]) auto
  next
    case False
    have "r \<noteq> None" using p False by auto
    moreover have "w' = w \<or> (\<exists>e. Publish R (wire_form m) w = (Some e, w'))"
      using p False by (metis option.exhaust)
    ultimately show ?thesis using s serves.refused [OF s m] by blast
  qed
  then obtain P' where P': "serves R data q w' P' A" "P \<subseteq> P'" "P' \<subseteq> insert (wire_form m) P" "r = None \<longrightarrow> wire_form m \<in> P'"
    by blast
  then show ?thesis using assms(2) poller_ok_mono [OF _ P'(2) subset_refl]
    by (intro exI [of _ P']) (auto simp: accounted_def taken_def)
qed

lemma accounted_poll:
  assumes "redis_live R data vt" and "accounted R data vt q w cs L P A" and "i < length cs" and "cs ! i = cp"
    and "poll_fetch (connection k R q (cl_baseURL (cp_client cp))) (cp_client cp) cx TopicTelemetry w = (r, w')"
  shows "accounted R data vt q w' (cs[i := cp\<lparr>cp_poller := (case r of None \<Rightarrow> Idle | Some ms \<Rightarrow> Batch ms)\<rparr>]) L P A"
proof -
  have s: "serves R data q w P A" and vt: "rq_visibilityTimeout q = vt" using assms(2) by (simp_all add: accounted_def)
  have c: "client_ok (cp_client cp)" using assms(2,4) nth_mem [OF assms(3)] unfolding accounted_def by blast
  have live: "redis_live R data (rq_visibilityTimeout q)" using assms(1) vt by simp
  have "set (waiting (data w) TopicTelemetry) \<subseteq> P"
    using redis_live.serves_held [OF assms(1) s vt] by (auto simp: held_def)
  then have "set ms \<subseteq> Some ` P" if "r = Some ms" for ms
    using poll_fetch_connection(2) [OF live s c assms(5) that] by (fastforce dest!: in_set_takeD)
  then show ?thesis
    using poll_fetch_connection(1) [OF live s c assms(5)] assms(3,4)
    by (intro accounted_same [OF assms(2)]) (auto split: option.split)
qed

lemma accounted_settle:
  assumes "accounted R data vt q w cs L P A" and "i < length cs" and "cs ! i = cp" and "cp_poller cp = Answered r m ms"
    and "(if r \<noteq> None
       then client_Nack (connection k R q (cl_baseURL (cp_client cp))) (cp_client cp) TopicTelemetry (msg_ID m) w
       else client_Ack (connection k R q (cl_baseURL (cp_client cp))) (cp_client cp) TopicTelemetry (msg_ID m) w) = (e, w')"
  shows "\<exists>A. accounted R data vt q w' (cs[i := cp\<lparr>cp_poller := Batch ms\<rparr>]) L P A"
proof -
  have s: "serves R data q w P A" using assms(1) by (simp add: accounted_def)
  have "poller_ok P (taken cs L) (cp_poller (cs ! i))"
    using assms(1) nth_mem [OF assms(2)] unfolding accounted_def by blast
  then have po: "poller_ok P (taken cs L) (Answered r m ms)" by (simp add: assms(3,4))
  have "\<exists>A'. serves R data q w' P A' \<and> A' \<subseteq> A \<union> msg_ID ` taken cs L"
  proof (cases r)
    case None
    then have m: "m \<in> taken cs L" using po by simp
    have "w' = w \<or> (\<exists>x. Ack R TopicTelemetry (cl_consumerGroup (cp_client cp)) (msg_ID m) w = (x, w'))"
      using client_Ack_connection [of k R q "cp_client cp" TopicTelemetry "msg_ID m" w e w'] assms(5) None by simp
    then show ?thesis
    proof
      assume "w' = w"
      then show ?thesis using s by blast
    next
      assume "\<exists>x. Ack R TopicTelemetry (cl_consumerGroup (cp_client cp)) (msg_ID m) w = (x, w')"
      then obtain x where x: "Ack R TopicTelemetry (cl_consumerGroup (cp_client cp)) (msg_ID m) w = (x, w')" ..
      show ?thesis
      proof (cases "x = Returns None")
        case True
        then show ?thesis using serves.acked [OF s] x m by (intro exI [of _ "insert (msg_ID m) A"]) auto
      next
        case False
        then show ?thesis using serves.not_acked [OF s x] by blast
      qed
    qed
  next
    case (Some e')
    then have "w' = w \<or> (\<exists>x. Nack R TopicTelemetry (cl_consumerGroup (cp_client cp)) (msg_ID m) w = (x, w'))"
      using client_Nack_connection [of k R q "cp_client cp" TopicTelemetry "msg_ID m" w e w'] assms(5) by simp
    then show ?thesis using s serves.nacked [OF s] by blast
  qed
  then obtain A' where "serves R data q w' P A'" "A' \<subseteq> A \<union> msg_ID ` taken cs L" by blast
  then show ?thesis using assms(2,3) po by (intro exI [of _ A'] accounted_same [OF assms(1)]) auto
qed

lemma accounted_answer:
  assumes "accounted R data vt q w cs L P A" and "i < length cs" and "cs ! i = cp" and "cp_poller cp = Called m ms"
    and "pool_step T G (cp_pool cp) (Returns_to_queue m ch) p'" and "r = fst (handleMessage ch m (cp_pool cp))"
  shows "accounted R data vt q w (cs[i := cp\<lparr>cp_poller := Answered r m ms, cp_pool := p'\<rparr>])
      (L\<lparr>lg_dropped := lg_dropped L \<union> (if ch = TimedOut then {m} else {})\<rparr>) P A"
proof -
  let ?cp = "cp\<lparr>cp_poller := Answered r m ms, cp_pool := p'\<rparr>"
  let ?L = "L\<lparr>lg_dropped := lg_dropped L \<union> (if ch = TimedOut then {m} else {})\<rparr>"
  have po: "m \<in> P" "set ms \<subseteq> Some ` P"
    using assms(1,3,4) nth_mem [OF assms(2)] unfolding accounted_def by fastforce+
  note a = answer_step [OF assms(5)]
  have old: "memory (cp_pool cp) \<subseteq> memories cs" using nth_mem [OF assms(2)] assms(3) unfolding memories_def by blast
  have up: "memories cs \<subseteq> memories (cs[i := ?cp])"
    using memories_update(2) [OF assms(2), of ?cp "{}"] a(1) assms(3) by simp
  have down: "memories (cs[i := ?cp]) \<subseteq> memories cs \<union> {m}"
    using memories_update(1) [OF assms(2), of ?cp] a(2) old by auto
  have "memory (cp_pool ?cp) \<subseteq> memories (cs[i := ?cp])"
    unfolding memories_def by (rule UN_upper [OF set_update_memI [OF assms(2)]])
  then have r: "r = None \<longrightarrow> m \<in> taken (cs[i := ?cp]) ?L" using a(3) assms(6) by (auto simp: taken_def)
  have P: "taken cs L \<subseteq> P" and s: "serves R data q w P A" using assms(1) by (simp_all add: accounted_def)
  have d: "lg_dropped ?L = lg_dropped L \<union> (if ch = TimedOut then {m} else {})" "lg_processed ?L = lg_processed L"
    "lg_crashed ?L = lg_crashed L" by simp_all
  have t: "taken cs L \<subseteq> taken (cs[i := ?cp]) ?L" unfolding taken_def d using up by blast
  have "taken (cs[i := ?cp]) ?L \<subseteq> taken cs L \<union> {m}" unfolding taken_def d using down by (cases "ch = TimedOut"; simp; blast)
  then have "taken (cs[i := ?cp]) ?L \<subseteq> P" using P po(1) by blast
  from accounted_update [OF assms(1,2) s _ t this] show ?thesis using po r assms(3) by simp
qed

lemma accounted_work:
  assumes "accounted R data vt q w cs L P A" and "i < length cs" and "cs ! i = cp"
    and "pool_step T G ((cp_pool cp)\<lparr>pl_world := v\<rparr>) ev p'" and "pl_calls p' = pl_calls (cp_pool cp)"
  shows "accounted R data vt q w (cs[i := cp\<lparr>cp_pool := p'\<rparr>]) (L\<lparr>lg_processed := lg_processed L \<union> processed_by ev\<rparr>) P A"
proof -
  let ?cp = "cp\<lparr>cp_pool := p'\<rparr>" and ?L = "L\<lparr>lg_processed := lg_processed L \<union> processed_by ev\<rparr>"
  have "accepted [ev] = {#}"
    using assms(4,5) by cases (auto simp: handleMessage_def remove1_shorter split: choice.splits)
  then have step: "memory (cp_pool cp) \<subseteq> memory p' \<union> processed_by ev" "memory p' \<union> processed_by ev \<subseteq> memory (cp_pool cp)"
    using memory_step [OF assms(4)] by simp_all
  have old: "memory (cp_pool cp) \<subseteq> memories cs" using nth_mem [OF assms(2)] assms(3) unfolding memories_def by blast
  have "memories cs \<subseteq> memories (cs[i := ?cp]) \<union> processed_by ev"
    using memories_update(2) [OF assms(2), of ?cp "processed_by ev"] step(1) assms(3) by simp
  moreover have "memories (cs[i := ?cp]) \<subseteq> memories cs"
    using memories_update(1) [OF assms(2), of ?cp] step(2) old by auto
  ultimately have t: "taken cs L \<subseteq> taken (cs[i := ?cp]) ?L" "taken (cs[i := ?cp]) ?L \<subseteq> taken cs L"
    using step(2) old unfolding taken_def by auto
  have "taken cs L \<subseteq> P" "serves R data q w P A" using assms(1) by (simp_all add: accounted_def)
  moreover have "poller_ok P (taken cs L) (cp_poller cp)"
    using assms(1,3) nth_mem [OF assms(2)] unfolding accounted_def by blast
  ultimately show ?thesis using t assms(3) poller_ok_mono [OF _ subset_refl t(1)]
    by (intro accounted_update [OF assms(1,2)]) auto
qed

lemma accounted_crash:
  assumes "accounted R data vt q w cs L P A" and "i < length cs" and "cs ! i = cp" and "memory p' = {}"
  shows "accounted R data vt q w (cs[i := cp\<lparr>cp_poller := Idle, cp_pool := p'\<rparr>])
      (L\<lparr>lg_crashed := lg_crashed L \<union> memory (cp_pool cp)\<rparr>) P A"
proof -
  let ?cp = "cp\<lparr>cp_poller := Idle, cp_pool := p'\<rparr>"
  have old: "memory (cp_pool cp) \<subseteq> memories cs" using nth_mem [OF assms(2)] assms(3) unfolding memories_def by blast
  have "memories cs \<subseteq> memories (cs[i := ?cp]) \<union> memory (cp_pool cp)" "memories (cs[i := ?cp]) \<subseteq> memories cs"
    using memories_update [OF assms(2), of ?cp] assms(3,4) by auto
  moreover have "taken cs L \<subseteq> P" "serves R data q w P A" using assms(1) by (simp_all add: accounted_def)
  ultimately show ?thesis using old assms(3)
    by (intro accounted_update [OF assms(1,2)]) (auto simp: taken_def)
qed

lemma deployed_accounted:
  assumes "redis_live R data vt" and "deployed R data vt T G v0 q w v cs L"
  shows "\<exists>P A. accounted R data vt q w cs L P A"
  using assms(2)
proof induction
  case (d_start w mr)
  then have "accounted R data vt (NewRedisQueue vt mr) w [] empty_ledger {} {}"
    using serves.start [of data w R vt mr] by (simp add: accounted_def empty_ledger_def taken_def memories_def NewRedisQueue_def)
  then show ?case by blast
next
  case (d_join q w v cs L c config)
  then obtain P A where "accounted R data vt q w cs L P A" by blast
  then show ?case using d_join.hyps(2)
    by (intro exI [of _ P] exI [of _ A]) (auto simp: accounted_def taken_def memories_def)
next
  case (d_publish q w v cs L c m k cx r w')
  then obtain P A where a: "accounted R data vt q w cs L P A" by blast
  from accounted_publish [OF assms(1) a d_publish.hyps(2-4)] show ?case by blast
next
  case (d_poll q w v cs L i cp k cx r w')
  then obtain P A where a: "accounted R data vt q w cs L P A" by blast
  from accounted_poll [OF assms(1) a d_poll.hyps(2,3,6)] show ?case by blast
next
  case (d_call q w v cs L i cp m ms p')
  then obtain P A where a: "accounted R data vt q w cs L P A" by blast
  then have "poller_ok P (taken cs L) (cp_poller cp)" "serves R data q w P A"
    using d_call.hyps(3) nth_mem [OF d_call.hyps(2)] unfolding accounted_def by blast+
  then show ?case using d_call.hyps
    by (intro exI [of _ P] exI [of _ A] accounted_same [OF a]) auto
next
  case (d_answer q w v cs L i cp m ms ch p' r)
  then obtain P A where a: "accounted R data vt q w cs L P A" by blast
  from accounted_answer [OF a d_answer.hyps(2-6)] show ?case by blast
next
  case (d_settle q w v cs L i cp r m ms k e w')
  then obtain P A where a: "accounted R data vt q w cs L P A" by blast
  from accounted_settle [OF a d_settle.hyps(2-5)] show ?case by blast
next
  case (d_round q w v cs L i cp)
  then obtain P A where a: "accounted R data vt q w cs L P A" by blast
  then have "serves R data q w P A" by (simp add: accounted_def)
  then show ?case using d_round.hyps by (intro exI [of _ P] exI [of _ A] accounted_same [OF a]) auto
next
  case (d_work q w v cs L i cp ev p')
  then obtain P A where a: "accounted R data vt q w cs L P A" by blast
  from accounted_work [OF a d_work.hyps(2-5)] show ?case by blast
next
  case (d_crash q w v cs L i cp)
  then show ?case using accounted_crash [OF _ d_crash.hyps(2,3)] by (metis memory_simps(1))
next
  case (d_sweep q w v cs L q' w')
  then obtain P A where a: "accounted R data vt q w cs L P A" by blast
  then have "only_dead_letters q q'"
    using redis_server.checkExpiredMessages_returns [OF _ d_sweep.hyps(2)] live_store_ok [OF assms(1)] assms(1)
    by (fastforce simp: accounted_def redis_live_def redis_reliable_def)
  then show ?case using a serves.expired [OF _ d_sweep.hyps(2)]
    by (intro exI [of _ P] exI [of _ A]) (auto simp: accounted_def only_dead_letters_def)
next
  case (d_clock q w v cs L w')
  then show ?case using serves.idle by (fastforce simp: accounted_def)
qed

section \<open>The database\<close>

text \<open>What became of a processed message: its point and its GPU are stored, or it is not valid telemetry.\<close>

definition settled :: "(string \<Rightarrow> GPU option) \<Rightarrow> TelemetryPoint multiset \<Rightarrow> Message \<Rightarrow> bool" where
  "settled gs pts m \<longleftrightarrow> (case Unmarshal m Unmarshal_telemetry of Inl e \<Rightarrow> True
     | Inr t \<Rightarrow> validateTelemetry t = None \<longrightarrow> stored_form t \<in># pts \<and> gs (tp_GPUUUID t) \<noteq> None)"

definition point_of :: "Message \<Rightarrow> TelemetryPoint \<Rightarrow> bool" where
  "point_of m p \<longleftrightarrow> (\<exists>t. Unmarshal m Unmarshal_telemetry = Inr t \<and> p = stored_form t)"

lemma pool_step_world:
  assumes "pool_step T G p ev p'"
  shows "(\<exists>m c. processed_by ev = {m} \<and> processMessage T G m (pl_collector p) (pl_world p) = (c, pl_world p'))
    \<or> processed_by ev = {} \<and> pl_world p' = pl_world p"
  using assms by cases (auto simp: processed_by_def handleMessage_def split: choice.splits)

context live_repositories
begin

text \<open>Processing only adds: the record of the message, when it is valid.\<close>

lemma processMessage_settles:
  assumes "processMessage T G m c v = (c', v')" and "gpus_ok v" and "points_ok v"
  shows "gpus_ok v' \<and> points_ok v' \<and> points v \<subseteq># points v' \<and> dom (gpus v) \<subseteq> dom (gpus v') \<and> settled (gpus v') (points v') m
    \<and> (\<forall>p \<in># points v'. p \<in># points v \<or> point_of m p)"
proof (cases "\<exists>t. Unmarshal m Unmarshal_telemetry = Inr t \<and> validateTelemetry t = None")
  case True
  then obtain t where t: "Unmarshal m Unmarshal_telemetry = Inr t" "validateTelemetry t = None" by blast
  from processMessage_live [OF this assms(2,3), of c] assms(1) show ?thesis
    by (auto simp: settled_def point_of_def t)
next
  case False
  then have "v' = v" using assms(1) by (auto simp: processMessage_def Let_def split: sum.splits option.splits)
  with False assms(2,3) show ?thesis by (auto simp: settled_def split: sum.split)
qed

lemma settled_mono:
  "settled (gpus v) (points v) m \<Longrightarrow> points v \<subseteq># points v' \<Longrightarrow> dom (gpus v) \<subseteq> dom (gpus v') \<Longrightarrow> settled (gpus v') (points v') m"
  by (auto simp: settled_def split: sum.splits dest: mset_subset_eqD)

lemma deployed_settled:
  assumes "deployed R data vt T G v0 q w v cs L" and "gpus_ok v0" and "points_ok v0"
  shows "gpus_ok v \<and> points_ok v \<and> (\<forall>m \<in> lg_processed L. settled (gpus v) (points v) m)
    \<and> (\<forall>p \<in># points v. p \<in># points v0 \<or> (\<exists>m \<in> lg_processed L. point_of m p))"
  using assms(1)
proof induction
  case (d_start w mr)
  then show ?case using assms(2,3) by (simp add: empty_ledger_def)
next
  case (d_work q w v cs L i cp ev p')
  from pool_step_world [OF d_work.hyps(4)] show ?case
  proof (elim disjE exE conjE)
    fix m c
    assume m: "processed_by ev = {m}"
      "processMessage T G m (pl_collector ((cp_pool cp)\<lparr>pl_world := v\<rparr>)) (pl_world ((cp_pool cp)\<lparr>pl_world := v\<rparr>)) = (c, pl_world p')"
    have s: "gpus_ok v" "points_ok v" using d_work.IH by simp_all
    from processMessage_settles [OF m(2)] s have
      new: "gpus_ok (pl_world p')" "points_ok (pl_world p')" "settled (gpus (pl_world p')) (points (pl_world p')) m"
        "points v \<subseteq># points (pl_world p')" "dom (gpus v) \<subseteq> dom (gpus (pl_world p'))"
        "\<forall>p \<in># points (pl_world p'). p \<in># points v \<or> point_of m p" by simp_all
    have "\<forall>m \<in> lg_processed L. settled (gpus (pl_world p')) (points (pl_world p')) m"
      using d_work.IH settled_mono new(4,5) by blast
    then show ?thesis using d_work.IH new(1-3,6) m(1) by auto
  next
    assume "processed_by ev = {}" "pl_world p' = pl_world ((cp_pool cp)\<lparr>pl_world := v\<rparr>)"
    then show ?thesis using d_work.IH by simp
  qed
qed simp_all

end

section \<open>The property\<close>

text \<open>C1. What becomes of telemetry, in the deployed system, over connections that lose requests and replies, with
  collectors that crash and restart: a message whose publication was confirmed is in the queue service (waiting,
  pending or a dead letter), in the memory of a collector, processed, dropped by a full work queue, or lost in a
  crash; nothing else is anywhere than what was published; a processed message has its point and its GPU in the
  database unless it is not valid telemetry, and the database got no point of anything else.\<close>

theorem telemetry_accounted_for:
  assumes "redis_live R data vt" and "live_repositories G gpus gpus_ok T points points_ok" and "gpus_ok v0" and "points_ok v0"
    and "deployed R data vt T G v0 q w v cs L" and "inj_on msg_ID (lg_sent L)"
  shows "lg_confirmed L \<subseteq> held (data w) \<union> dead q \<union> memories cs \<union> lg_processed L \<union> lg_dropped L \<union> lg_crashed L
    \<and> held (data w) \<union> dead q \<union> memories cs \<union> lg_processed L \<union> lg_dropped L \<union> lg_crashed L \<subseteq> lg_sent L
    \<and> (\<forall>m \<in> lg_processed L. settled (gpus v) (points v) m)
    \<and> (\<forall>p \<in># points v. p \<in># points v0 \<or> (\<exists>m \<in> lg_processed L. point_of m p))"
proof -
  obtain P A where a: "serves R data q w P A" "rq_visibilityTimeout q = vt" "lg_confirmed L \<subseteq> P" "P \<subseteq> lg_sent L"
      "taken cs L \<subseteq> P" "A \<subseteq> msg_ID ` taken cs L"
    using deployed_accounted [OF assms(1,5)] by (auto simp: accounted_def)
  have h: "held (data w) \<union> dead q \<subseteq> P" "\<forall>m \<in> P. msg_ID m \<in> A \<or> m \<in> held (data w) \<union> dead q"
    using redis_live.serves_held [OF assms(1) a(1,2)] by blast+
  have "m \<in> taken cs L" if "m \<in> P" "msg_ID m \<in> A" for m
  proof -
    obtain m' where m': "m' \<in> taken cs L" "msg_ID m = msg_ID m'" using a(6) \<open>msg_ID m \<in> A\<close> by blast
    then have "m = m'" using inj_onD [OF assms(6) m'(2)] a(4,5) \<open>m \<in> P\<close> by blast
    with m'(1) show ?thesis by simp
  qed
  then have "lg_confirmed L \<subseteq> held (data w) \<union> dead q \<union> taken cs L" using h(2) a(3) by blast
  moreover have "held (data w) \<union> dead q \<union> taken cs L \<subseteq> lg_sent L" using h(1) a(4,5) by blast
  ultimately show ?thesis
    using live_repositories.deployed_settled [OF assms(2,5,3,4)] unfolding taken_def Un_assoc by blast
qed

theorem telemetry_accounted_for_witness:
  "\<exists>w cs L. deployed calm_redis mem_data (5 * minute) (TelemetryRepository calm_mongo metrics_repo)
       (GPURepository calm_mongo gpus_repo) no_docs sample_queue w no_docs cs L
     \<and> lg_confirmed L = {sample} \<and> cs \<noteq> []
     \<and> sample \<in> held (mem_data w) \<union> dead sample_queue \<union> memories cs \<union> lg_processed L \<union> lg_dropped L \<union> lg_crashed L"
proof -
  let ?D = "deployed calm_redis mem_data (5 * minute) (TelemetryRepository calm_mongo metrics_repo)
      (GPURepository calm_mongo gpus_repo) no_docs"
  let ?cs = "[\<lparr>cp_client = sample_client, cp_poller = Idle, cp_pool = startWorkerPool (NewCollector some_config) no_docs\<rparr>]"
  let ?L = "empty_ledger\<lparr>lg_sent := {sample}, lg_confirmed := {sample}\<rparr>"
  obtain j where "message_json sample = Inr j" using sample_props(5) by blast
  then obtain w where w: "client_Publish (connection Up calm_redis sample_queue (cl_baseURL sample_client)) sample_client None
      sample empty_world = (None, w)"
    using client_publish_over_http [OF live.redis_live_axioms _ sample_props(1) sample_client_ok, of j sample_queue empty_world]
    by (auto simp: connection_Up)
  have "?D sample_queue empty_world no_docs [] empty_ledger"
    unfolding sample_queue_def by (intro deployed.d_start empty_world_props)
  from deployed.d_publish [OF deployed.d_join [OF this sample_client_ok, of some_config] sample_client_ok sample_props(1) w]
  have d: "?D sample_queue w no_docs ?cs ?L" by (simp add: sample_props(2) empty_ledger_def)
  have ok: "gpu_docs_ok (mm_docs no_docs (coll gpus_repo))" "telemetry_docs_ok (mm_docs no_docs (coll metrics_repo))"
    by (simp_all add: gpu_docs_ok_def telemetry_docs_ok_def no_docs_def)
  have "inj_on msg_ID (lg_sent ?L)" by simp
  from telemetry_accounted_for [OF live.redis_live_axioms calm_repositories.live_repositories_axioms ok d this]
  have "sample \<in> held (mem_data w) \<union> dead sample_queue \<union> memories ?cs \<union> lg_processed ?L \<union> lg_dropped ?L \<union> lg_crashed ?L" by auto
  with d show ?thesis by (intro exI [of _ w] exI [of _ ?cs] exI [of _ ?L]) simp
qed

end
