(* ===== verification/GoFlag.thy ===== *)
theory GoFlag
  imports GoTime
begin

text \<open>
  What the services use of Go to read their configuration: \<open>time.ParseDuration\<close>, \<open>strconv.ParseInt\<close> with the base
  taken from the text, and the package \<open>flag\<close>. The environment is a function; a variable that is not set is empty.
\<close>

section \<open>Floating point\<close>

text \<open>
  A positive \<open>float64\<close> is a pair \<open>(m, e)\<close>, the number \<open>m * 2 ^ e\<close>; results are rounded to 53 bits, to even when half way.
  The exponent is not bounded: the results this is used for are cut to integers, and those too small or too large
  to be \<open>float64\<close> numbers are cut to 0 either way.
\<close>

function bit_len :: "int \<Rightarrow> int" where
  "bit_len n = (if n \<le> 0 then 0 else 1 + bit_len (n div 2))"
  by pat_completeness auto
termination by (relation "measure nat") auto

declare bit_len.simps [simp del]

definition times_power :: "int \<Rightarrow> int \<Rightarrow> int" where
  "times_power n e = n * 2 ^ nat e"

definition round_ratio :: "int \<Rightarrow> int \<Rightarrow> int \<times> int" where
  "round_ratio n d =
     (let e0 = bit_len n - bit_len d - 53;
          e = (if times_power n (- e0) div times_power d e0 \<ge> 2 ^ 53 then e0 + 1 else e0);
          N = times_power n (- e); D = times_power d e; q = N div D; r = N mod D
      in (if 2 * r > D \<or> 2 * r = D \<and> odd q then q + 1 else q, e))"

definition float_mult :: "int \<times> int \<Rightarrow> int \<times> int \<Rightarrow> int \<times> int" where
  "float_mult a b = (let (m, e) = round_ratio (fst a * fst b) 1 in (m, e + snd a + snd b))"

definition float_div :: "int \<times> int \<Rightarrow> int \<times> int \<Rightarrow> int \<times> int" where
  "float_div a b = (let (m, e) = round_ratio (fst a) (fst b) in (m, e + snd a - snd b))"

definition float_of :: "int \<Rightarrow> int \<times> int" where
  "float_of n = round_ratio n 1"

definition float_trunc :: "int \<times> int \<Rightarrow> int" where
  "float_trunc a = times_power (fst a) (snd a) div 2 ^ nat (- snd a)"

section \<open>time.ParseDuration\<close>

text \<open>The digits of a number up to \<open>2 ^ 63\<close>.\<close>

definition leadingInt :: "string \<Rightarrow> (int \<times> string) option" where
  "leadingInt s = (let v = digits_val (takeWhile is_digit s)
     in if v > 2 ^ 63 then None else Some (v, dropWhile is_digit s))"

text \<open>The digits after the point; those that would take the number past \<open>2 ^ 63\<close> are read and ignored.\<close>

fun leadingFraction :: "bool \<Rightarrow> int \<Rightarrow> int \<times> int \<Rightarrow> string \<Rightarrow> int \<times> (int \<times> int) \<times> string" where
  "leadingFraction overflow x scale [] = (x, scale, [])"
| "leadingFraction overflow x scale (c # s) =
     (if \<not> is_digit c then (x, scale, c # s)
      else let y = x * 10 + digit_val c
           in if overflow \<or> x > (2 ^ 63 - 1) div 10 \<or> y > 2 ^ 63 then leadingFraction True x scale s
              else leadingFraction False y (float_mult scale (float_of 10)) s)"

definition unitMap :: "(string \<times> int) list" where
  "unitMap = [(''ns'', 1), (''us'', 1000), ([CHR 0xC2, CHR 0xB5, CHR ''s''], 1000), ([CHR 0xCE, CHR 0xBC, CHR ''s''], 1000),
     (''ms'', 1000000), (''s'', 1000000000), (''m'', 60000000000), (''h'', 3600000000000)]"

definition unit_char :: "char \<Rightarrow> bool" where
  "unit_char c \<longleftrightarrow> c \<noteq> CHR ''.'' \<and> \<not> is_digit c"

text \<open>One number with its unit, in nanoseconds.\<close>

definition duration_item :: "string \<Rightarrow> (int \<times> string) option" where
  "duration_item s =
     (if s = [] \<or> unit_char (hd s) then None
      else case leadingInt s of None \<Rightarrow> None
      | Some (v, s1) \<Rightarrow>
          let point = (s1 \<noteq> [] \<and> hd s1 = CHR ''.'');
              (f, scale, s2) = (if point then leadingFraction False 0 (float_of 1) (tl s1) else (0, float_of 1, s1));
              pre = (length s1 \<noteq> length s); post = (point \<and> length s2 \<noteq> length (tl s1));
              u = takeWhile unit_char s2; s3 = dropWhile unit_char s2
          in if \<not> pre \<and> \<not> post then None
             else if u = [] then None
             else case map_of unitMap u of None \<Rightarrow> None
             | Some unit \<Rightarrow>
                 if v > 2 ^ 63 div unit then None
                 else let v1 = v * unit + (if f > 0 then float_trunc (float_mult (float_of f) (float_div (float_of unit) scale)) else 0)
                      in if v1 > 2 ^ 63 then None else Some (v1, s3))"

lemma leadingFraction_shorter: "leadingFraction b x sc s = (f, sc', s') \<Longrightarrow> length s' \<le> length s"
  by (induction b x sc s rule: leadingFraction.induct) (auto simp: Let_def split: if_splits)

lemma duration_item_shorter: "duration_item s = Some (v, s') \<Longrightarrow> length s' < length s"
proof -
  assume a: "duration_item s = Some (v, s')"
  obtain w s1 where s1: "leadingInt s = Some (w, s1)"
    using a by (auto simp: duration_item_def split: if_splits option.splits)
  then have l1: "length s1 \<le> length s"
    by (auto simp: leadingInt_def Let_def length_dropWhile_le split: if_splits)
  have l: "length (dropWhile unit_char t) < length t" if "takeWhile unit_char t \<noteq> []" for t
  proof -
    have "length (takeWhile unit_char t) + length (dropWhile unit_char t) = length t"
      by (metis length_append takeWhile_dropWhile_id)
    then show ?thesis using that by (cases "takeWhile unit_char t") auto
  qed
  obtain f sc s2 where s2: "(if s1 \<noteq> [] \<and> hd s1 = CHR ''.'' then leadingFraction False 0 (float_of 1) (tl s1)
      else (0, float_of 1, s1)) = (f, sc, s2)" by (metis prod_cases3)
  then have "length s2 \<le> length s1"
    using leadingFraction_shorter [of False 0 "float_of 1" "tl s1" f sc s2] by (auto split: if_splits)
  moreover have "s' = dropWhile unit_char s2 \<and> takeWhile unit_char s2 \<noteq> []"
    using a by (simp add: duration_item_def s1 s2 Let_def split: if_splits option.splits)
  ultimately show ?thesis using l [of s2] l1 by auto
qed

text \<open>The sum of the items is a \<open>uint64\<close>, checked after each of them.\<close>

function duration_items :: "int \<Rightarrow> string \<Rightarrow> int option" where
  "duration_items d s =
     (if s = [] then Some d
      else case duration_item s of None \<Rightarrow> None
      | Some (v, s') \<Rightarrow> let d' = (d + v) mod 2 ^ 64 in if d' > 2 ^ 63 then None else duration_items d' s')"
  by pat_completeness auto
termination by (relation "measure (length \<circ> snd)") (auto dest: duration_item_shorter)

declare duration_items.simps [simp del]

definition ParseDuration :: "string \<Rightarrow> duration option" where
  "ParseDuration s =
     (let signed = (s \<noteq> [] \<and> (hd s = CHR ''-'' \<or> hd s = CHR ''+''));
          neg = (s \<noteq> [] \<and> hd s = CHR ''-'');
          s1 = (if signed then tl s else s)
      in if s1 = ''0'' then Some 0
         else if s1 = [] then None
         else case duration_items 0 s1 of None \<Rightarrow> None
         | Some d \<Rightarrow> if neg then Some (- d) else if d > 2 ^ 63 - 1 then None else Some d)"

text \<open>A duration is a 64-bit integer.\<close>

lemma duration_items_le: "duration_items d s = Some r \<Longrightarrow> 0 \<le> d \<and> d \<le> 2 ^ 63 \<Longrightarrow> 0 \<le> r \<and> r \<le> 2 ^ 63"
proof (induction d s rule: duration_items.induct)
  case (1 d s)
  from 1(2) have "(if s = [] then Some d
      else case duration_item s of None \<Rightarrow> None
      | Some (v, s') \<Rightarrow> let d' = (d + v) mod 2 ^ 64 in if d' > 2 ^ 63 then None else duration_items d' s') = Some r"
    by (subst (asm) duration_items.simps)
  with 1(1,3) show ?case by (auto simp: Let_def not_less split: if_splits option.splits)
qed

lemma ParseDuration_range: "ParseDuration s = Some d \<Longrightarrow> int64_range d"
  using duration_items_le [of 0 "tl s"] duration_items_le [of 0 s]
  by (fastforce simp: ParseDuration_def int64_range_def Let_def split: if_splits option.splits)

section \<open>strconv.ParseInt with base 0\<close>

definition lower :: "char \<Rightarrow> char" where
  "lower c = (if 65 \<le> (of_char c :: nat) \<and> (of_char c :: nat) \<le> 90 then char_of ((of_char c :: nat) + 32) else c)"

text \<open>The base of a text without sign, with what follows the prefix.\<close>

definition int_base :: "string \<Rightarrow> int \<times> string" where
  "int_base s =
     (if s = [] \<or> hd s \<noteq> CHR ''0'' then (10, s)
      else if length s \<ge> 3 \<and> lower (s ! 1) = CHR ''b'' then (2, drop 2 s)
      else if length s \<ge> 3 \<and> lower (s ! 1) = CHR ''o'' then (8, drop 2 s)
      else if length s \<ge> 3 \<and> lower (s ! 1) = CHR ''x'' then (16, drop 2 s)
      else (8, tl s))"

definition digit_in_base :: "int \<Rightarrow> char \<Rightarrow> int option" where
  "digit_in_base b c =
     (let v = (if is_digit c then Some (digit_val c)
               else let n = int (of_char (lower c)) in if 97 \<le> n \<and> n \<le> 122 then Some (n - 87) else None)
      in case v of None \<Rightarrow> None | Some d \<Rightarrow> if d < b then Some d else None)"

fun digits_in_base :: "int \<Rightarrow> int \<Rightarrow> string \<Rightarrow> int option" where
  "digits_in_base b n [] = Some n"
| "digits_in_base b n (c # s) =
     (if c = CHR ''_'' then digits_in_base b n s
      else case digit_in_base b c of None \<Rightarrow> None
      | Some d \<Rightarrow> if n * b + d \<ge> 2 ^ 64 then None else digits_in_base b (n * b + d) s)"

text \<open>Underscores stand only between digits; a base prefix counts as a digit.\<close>

datatype saw = At_start | Saw_digit | Saw_underscore | Saw_other

fun underscore_scan :: "bool \<Rightarrow> saw \<Rightarrow> string \<Rightarrow> bool" where
  "underscore_scan hex i [] \<longleftrightarrow> i \<noteq> Saw_underscore"
| "underscore_scan hex i (c # s) \<longleftrightarrow>
     (if is_digit c \<or> hex \<and> lower c \<in> set ''abcdef'' then underscore_scan hex Saw_digit s
      else if c = CHR ''_'' then i = Saw_digit \<and> underscore_scan hex Saw_underscore s
      else i \<noteq> Saw_underscore \<and> underscore_scan hex Saw_other s)"

definition underscoreOK :: "string \<Rightarrow> bool" where
  "underscoreOK s =
     (if length s \<ge> 2 \<and> hd s = CHR ''0'' \<and> lower (s ! 1) \<in> set ''box''
      then underscore_scan (lower (s ! 1) = CHR ''x'') Saw_digit (drop 2 s)
      else underscore_scan False At_start s)"

text \<open>A syntax error and a value out of range are both errors.\<close>

definition ParseUint0 :: "string \<Rightarrow> int option" where
  "ParseUint0 s =
     (if s = [] then None
      else let (b, t) = int_base s in
        (case digits_in_base b 0 t of None \<Rightarrow> None
         | Some n \<Rightarrow> if CHR ''_'' \<in> set t \<and> \<not> underscoreOK s then None else Some n))"

definition ParseInt0 :: "string \<Rightarrow> int option" where
  "ParseInt0 s =
     (if s = [] then None
      else if hd s = CHR ''-'' then Option.bind (ParseUint0 (tl s)) (\<lambda>n. range_checked (- n))
      else Option.bind (ParseUint0 (if hd s = CHR ''+'' then tl s else s)) (\<lambda>n. range_checked n))"

lemma ParseInt0_range: "ParseInt0 s = Some i \<Longrightarrow> int64_range i"
  by (auto simp: ParseInt0_def range_checked_def bind_eq_Some_conv split: if_splits)

section \<open>flag\<close>

text \<open>The value of a flag, which starts as its default and keeps its type.\<close>

datatype flag_value = FString string | FInt int | FDuration duration | FBool bool

fun flag_set :: "flag_value \<Rightarrow> string \<Rightarrow> flag_value option" where
  "flag_set (FString x) s = Some (FString s)"
| "flag_set (FInt x) s = map_option FInt (ParseInt0 s)"
| "flag_set (FDuration x) s = map_option FDuration (ParseDuration s)"
| "flag_set (FBool x) s = map_option FBool (ParseBool s)"

definition is_bool_flag :: "flag_value \<Rightarrow> bool" where
  "is_bool_flag v \<longleftrightarrow> (case v of FBool b \<Rightarrow> True | _ \<Rightarrow> False)"

type_synonym flags = "string \<Rightarrow> flag_value option"

text \<open>An argument that is a flag: its name, and the value it carries.\<close>

datatype flag_arg = Not_a_flag | Bad_flag | Flag_arg string "string option"

definition split_arg :: "string \<Rightarrow> flag_arg" where
  "split_arg s =
     (if length s < 2 \<or> hd s \<noteq> CHR ''-'' \<or> s = ''--'' then Not_a_flag
      else let t = (if s ! 1 = CHR ''-'' then drop 2 s else tl s)
           in if t = [] \<or> hd t = CHR ''-'' \<or> hd t = CHR ''='' then Bad_flag
              else let name = takeWhile (\<lambda>c. c \<noteq> CHR ''='') t
                   in if name = t then Flag_arg name None else Flag_arg name (Some (drop (Suc (length name)) t)))"

text \<open>\<open>flag.Parse\<close> sets the flags up to the first argument that is none, or ends the process.\<close>

datatype flag_result = Parsed flags | Exits int

definition set_or_exit :: "flags \<Rightarrow> string \<Rightarrow> flag_value \<Rightarrow> string \<Rightarrow> flags option" where
  "set_or_exit fl name v s = (case flag_set v s of None \<Rightarrow> None | Some v' \<Rightarrow> Some (fl(name \<mapsto> v')))"

fun flag_Parse :: "flags \<Rightarrow> string list \<Rightarrow> flag_result" where
  "flag_Parse fl [] = Parsed fl"
| "flag_Parse fl (s # args) =
     (case split_arg s of
        Not_a_flag \<Rightarrow> Parsed fl
      | Bad_flag \<Rightarrow> Exits 2
      | Flag_arg name val \<Rightarrow>
          (case fl name of
             None \<Rightarrow> Exits (if name \<in> {''help'', ''h''} then 0 else 2)
           | Some v \<Rightarrow>
               if val \<noteq> None \<or> is_bool_flag v
               then (case set_or_exit fl name v (case val of Some x \<Rightarrow> x | None \<Rightarrow> ''true'') of
                       None \<Rightarrow> Exits 2 | Some fl' \<Rightarrow> flag_Parse fl' args)
               else (case args of [] \<Rightarrow> Exits 2
                     | x # args' \<Rightarrow> (case set_or_exit fl name v x of
                         None \<Rightarrow> Exits 2 | Some fl' \<Rightarrow> flag_Parse fl' args'))))"

text \<open>A flag keeps its type and the numbers keep their range.\<close>

fun same_kind :: "flag_value \<Rightarrow> flag_value \<Rightarrow> bool" where
  "same_kind (FString x) v \<longleftrightarrow> (\<exists>y. v = FString y)"
| "same_kind (FInt x) v \<longleftrightarrow> (\<exists>y. v = FInt y \<and> (int64_range x \<longrightarrow> int64_range y))"
| "same_kind (FDuration x) v \<longleftrightarrow> (\<exists>y. v = FDuration y \<and> (int64_range x \<longrightarrow> int64_range y))"
| "same_kind (FBool x) v \<longleftrightarrow> (\<exists>y. v = FBool y)"

lemma same_kind_refl [simp]: "same_kind v v"
  by (cases v) auto

lemma same_kind_trans: "same_kind u v \<Longrightarrow> same_kind v w \<Longrightarrow> same_kind u w"
  by (cases u; cases v; cases w) auto

lemma same_kind_set: "flag_set v s = Some v' \<Longrightarrow> same_kind v v'"
  by (cases v) (auto dest: ParseInt0_range ParseDuration_range)

definition same_kinds :: "flags \<Rightarrow> flags \<Rightarrow> bool" where
  "same_kinds fl fl' \<longleftrightarrow> (\<forall>n v. fl n = Some v \<longrightarrow> (\<exists>v'. fl' n = Some v' \<and> same_kind v v'))"

lemma same_kinds_set: "fl name = Some v \<Longrightarrow> set_or_exit fl name v s = Some fl' \<Longrightarrow> same_kinds fl fl'"
  using same_kind_set [of v s] by (auto simp: set_or_exit_def same_kinds_def split: option.splits)

lemma same_kinds_trans: "same_kinds fl fl' \<Longrightarrow> same_kinds fl' fl'' \<Longrightarrow> same_kinds fl fl''"
  unfolding same_kinds_def using same_kind_trans by metis

lemma flag_Parse_kinds: "flag_Parse fl args = Parsed fl' \<Longrightarrow> same_kinds fl fl'"
proof (induction fl args rule: flag_Parse.induct)
  case (2 fl s args)
  show ?case
  proof (cases "split_arg s")
    case (Flag_arg name val)
    with 2 show ?thesis
      by (auto split: option.splits if_splits list.splits intro: same_kinds_trans dest: same_kinds_set)
  qed (use 2 in \<open>auto simp: same_kinds_def\<close>)
qed (simp add: same_kinds_def)

text \<open>Arguments of the form \<open>-name=value\<close>: the last one for a name decides, the other flags keep their values.\<close>

definition setting :: "string \<times> string \<Rightarrow> string" where
  "setting kv = CHR ''-'' # fst kv @ CHR ''='' # snd kv"

definition flag_name :: "string \<Rightarrow> bool" where
  "flag_name n \<longleftrightarrow> n \<noteq> [] \<and> hd n \<noteq> CHR ''-'' \<and> CHR ''='' \<notin> set n"

lemma split_setting:
  assumes "flag_name n"
  shows "split_arg (setting (n, v)) = Flag_arg n (Some v)"
proof -
  obtain c cs where n: "n = c # cs" "c \<noteq> CHR ''-''" "c \<noteq> CHR ''=''" "CHR ''='' \<notin> set cs"
    using assms by (cases n) (auto simp: flag_name_def)
  have "takeWhile (\<lambda>c. c \<noteq> CHR ''='') (cs @ CHR ''='' # v) = cs" using n(4) by (auto simp: takeWhile_append)
  then show ?thesis using n by (simp add: split_arg_def setting_def Let_def)
qed

definition readable :: "flags \<Rightarrow> string \<times> string \<Rightarrow> bool" where
  "readable fl kv \<longleftrightarrow> flag_name (fst kv) \<and> (\<exists>x. fl (fst kv) = Some x \<and> flag_set x (snd kv) \<noteq> None)"

definition with_settings :: "flags \<Rightarrow> (string \<times> string) list \<Rightarrow> flags" where
  "with_settings fl kvs n = (case map_of (rev kvs) n of None \<Rightarrow> fl n | Some v \<Rightarrow> Option.bind (fl n) (\<lambda>x. flag_set x v))"

text \<open>What a text gives depends on the type of the flag only.\<close>

lemma flag_set_again: "flag_set x v = Some y \<Longrightarrow> flag_set y w = flag_set x w"
  by (cases x) auto

lemma readable_again: "readable fl kv \<Longrightarrow> fl n = Some x \<Longrightarrow> flag_set x v = Some y \<Longrightarrow> readable (fl(n \<mapsto> y)) kv"
  by (auto simp: readable_def flag_set_again)

lemma flag_Parse_settings:
  "\<forall>kv \<in> set kvs. readable fl kv \<Longrightarrow> flag_Parse fl (map setting kvs) = Parsed (with_settings fl kvs)"
proof (induction kvs arbitrary: fl)
  case Nil
  then show ?case by (simp add: with_settings_def)
next
  case (Cons kv kvs)
  obtain n v where kv: "kv = (n, v)" by (cases kv)
  obtain x y where x: "flag_name n" "fl n = Some x" "flag_set x v = Some y"
    using Cons.prems by (auto simp: kv readable_def)
  have "with_settings (fl(n \<mapsto> y)) kvs = with_settings fl (kv # kvs)"
  proof
    show "with_settings (fl(n \<mapsto> y)) kvs m = with_settings fl (kv # kvs) m" for m
      using x flag_set_again [OF x(3)]
      by (cases "map_of (rev kvs) m") (auto simp: with_settings_def kv map_add_def)
  qed
  moreover have "\<forall>kv \<in> set kvs. readable (fl(n \<mapsto> y)) kv" using Cons.prems x(2,3) by (auto intro: readable_again)
  ultimately have "flag_Parse (fl(n \<mapsto> y)) (map setting kvs) = Parsed (with_settings fl (kv # kvs))"
    using Cons.IH by metis
  then show ?case using x(2,3) split_setting [OF x(1), of v] by (simp add: kv set_or_exit_def del: fun_upd_apply)
qed

end
