(* ===== verification/Config.thy ===== *)
theory Config
  imports GoFlag Streamer Collector QueueClient
begin

text \<open>
  How the services are configured: the helpers of \<open>internal/config\<close>, its defaults, the application configuration
  with its validation, \<open>LoadConfig\<close> of the streamer and of the collector, and what the \<open>main\<close> functions read
  from their flags and their environment. The environment is a function, the arguments are a list.
\<close>

type_synonym environment = "string \<Rightarrow> string"

section \<open>env.go\<close>

definition GetEnv :: "environment \<Rightarrow> string \<Rightarrow> string \<Rightarrow> string" where
  "GetEnv env key defaultValue = (if env key \<noteq> [] then env key else defaultValue)"

definition GetEnvInt :: "environment \<Rightarrow> string \<Rightarrow> int \<Rightarrow> int" where
  "GetEnvInt env key defaultValue =
     (if env key \<noteq> [] then case Atoi (env key) of Some i \<Rightarrow> i | None \<Rightarrow> defaultValue else defaultValue)"

definition GetEnvDuration :: "environment \<Rightarrow> string \<Rightarrow> duration \<Rightarrow> duration" where
  "GetEnvDuration env key defaultValue =
     (if env key \<noteq> [] then case ParseDuration (env key) of Some d \<Rightarrow> d | None \<Rightarrow> defaultValue else defaultValue)"

definition GetEnvBool :: "environment \<Rightarrow> string \<Rightarrow> bool \<Rightarrow> bool" where
  "GetEnvBool env key defaultValue =
     (if env key \<noteq> [] then case ParseBool (env key) of Some b \<Rightarrow> b | None \<Rightarrow> defaultValue else defaultValue)"

section \<open>defaults.go\<close>

definition DefaultAPIPort :: string where "DefaultAPIPort = ''8080''"
definition DefaultReadTimeout :: duration where "DefaultReadTimeout = 15 * second"
definition DefaultWriteTimeout :: duration where "DefaultWriteTimeout = 15 * second"
definition DefaultIdleTimeout :: duration where "DefaultIdleTimeout = 60 * second"
definition DefaultShutdownTimeout :: duration where "DefaultShutdownTimeout = 30 * second"
definition DefaultQueueBufferSize :: int where "DefaultQueueBufferSize = 1000"
definition DefaultQueueWorkers :: int where "DefaultQueueWorkers = 10"
definition DefaultCollectorBatchSize :: int where "DefaultCollectorBatchSize = 1"
definition DefaultMaxConcurrentHandlers :: int where "DefaultMaxConcurrentHandlers = 10"
definition DefaultCollectorInstanceID :: string where "DefaultCollectorInstanceID = ''collector-1''"
definition DefaultStreamerCSVPath :: string where "DefaultStreamerCSVPath = ''/app/data/metrics.csv''"
definition DefaultStreamInterval :: duration where "DefaultStreamInterval = 100 * millisecond"
definition DefaultStreamerInstanceID :: string where "DefaultStreamerInstanceID = ''streamer-1''"
definition DefaultStreamerLoopMode :: bool where "DefaultStreamerLoopMode = True"
definition DefaultMongoDatabase :: string where "DefaultMongoDatabase = ''telemetry''"
definition DefaultMongoGPUCollection :: string where "DefaultMongoGPUCollection = ''gpus''"
definition DefaultMongoMetricsCollection :: string where "DefaultMongoMetricsCollection = ''metrics''"

lemmas config_defaults = DefaultAPIPort_def DefaultReadTimeout_def DefaultWriteTimeout_def DefaultIdleTimeout_def
  DefaultShutdownTimeout_def DefaultQueueBufferSize_def DefaultQueueWorkers_def DefaultCollectorBatchSize_def
  DefaultMaxConcurrentHandlers_def DefaultCollectorInstanceID_def DefaultStreamerCSVPath_def
  DefaultStreamInterval_def DefaultStreamerInstanceID_def DefaultStreamerLoopMode_def second_def millisecond_def

text \<open>The collections of the repositories are the default ones.\<close>

lemma default_collections:
  "coll gpus_repo = (DefaultMongoDatabase, DefaultMongoGPUCollection)"
  "coll metrics_repo = (DefaultMongoDatabase, DefaultMongoMetricsCollection)"
  by (simp_all add: coll_def gpus_repo_def metrics_repo_def DefaultMongoDatabase_def DefaultMongoGPUCollection_def
      DefaultMongoMetricsCollection_def)

section \<open>config.go\<close>

record ServerConfig =
  sv_Host :: string
  sv_Port :: int
  sv_ReadTimeout :: duration
  sv_WriteTimeout :: duration

record QueueConfig =
  qc_Type :: string
  qc_BufferSize :: int

record StorageConfig =
  stc_Type :: string

record CollectorConfig =
  col_CSVPath :: string
  col_PollInterval :: duration
  col_BatchSize :: int

record TelemetryConfig =
  tc_Enabled :: bool
  tc_Topic :: string

record Config =
  cfg_Server :: ServerConfig
  cfg_Queue :: QueueConfig
  cfg_Storage :: StorageConfig
  cfg_Collector :: CollectorConfig
  cfg_Telemetry :: TelemetryConfig

text \<open>The file has helpers of its own.\<close>

definition getEnv :: "environment \<Rightarrow> string \<Rightarrow> string \<Rightarrow> string" where
  "getEnv env key defaultValue = (let value = env key in if value \<noteq> [] then value else defaultValue)"

definition getEnvAsInt :: "environment \<Rightarrow> string \<Rightarrow> int \<Rightarrow> int" where
  "getEnvAsInt env key defaultValue =
     (let value = env key in if value = [] then defaultValue
      else case Atoi value of None \<Rightarrow> defaultValue | Some intValue \<Rightarrow> intValue)"

definition getEnvAsBool :: "environment \<Rightarrow> string \<Rightarrow> bool \<Rightarrow> bool" where
  "getEnvAsBool env key defaultValue =
     (let value = env key in if value = [] then defaultValue
      else case ParseBool value of None \<Rightarrow> defaultValue | Some boolValue \<Rightarrow> boolValue)"

definition getEnvAsDuration :: "environment \<Rightarrow> string \<Rightarrow> duration \<Rightarrow> duration" where
  "getEnvAsDuration env key defaultValue =
     (let value = env key in if value = [] then defaultValue
      else case ParseDuration value of None \<Rightarrow> defaultValue | Some duration \<Rightarrow> duration)"

lemma env_helpers_agree:
  "getEnv = GetEnv" "getEnvAsInt = GetEnvInt" "getEnvAsBool = GetEnvBool" "getEnvAsDuration = GetEnvDuration"
  by (auto simp: fun_eq_iff getEnv_def GetEnv_def getEnvAsInt_def GetEnvInt_def getEnvAsBool_def GetEnvBool_def
      getEnvAsDuration_def GetEnvDuration_def Let_def split: option.splits)

definition Load :: "environment \<Rightarrow> error + Config" where
  "Load env = Inr
     \<lparr>cfg_Server = \<lparr>sv_Host = getEnv env ''SERVER_HOST'' ''0.0.0.0'', sv_Port = getEnvAsInt env ''SERVER_PORT'' 8080,
        sv_ReadTimeout = getEnvAsDuration env ''SERVER_READ_TIMEOUT'' (10 * second),
        sv_WriteTimeout = getEnvAsDuration env ''SERVER_WRITE_TIMEOUT'' (10 * second)\<rparr>,
      cfg_Queue = \<lparr>qc_Type = getEnv env ''QUEUE_TYPE'' ''inmemory'',
        qc_BufferSize = getEnvAsInt env ''QUEUE_BUFFER_SIZE'' 1000\<rparr>,
      cfg_Storage = \<lparr>stc_Type = getEnv env ''STORAGE_TYPE'' ''inmemory''\<rparr>,
      cfg_Collector = \<lparr>col_CSVPath = getEnv env ''CSV_PATH'' ''data/metrics.csv'',
        col_PollInterval = getEnvAsDuration env ''POLL_INTERVAL'' (5 * second),
        col_BatchSize = getEnvAsInt env ''BATCH_SIZE'' 100\<rparr>,
      cfg_Telemetry = \<lparr>tc_Enabled = getEnvAsBool env ''TELEMETRY_ENABLED'' True,
        tc_Topic = getEnv env ''TELEMETRY_TOPIC'' ''gpu.metrics''\<rparr>\<rparr>"

definition Validate :: "Config \<Rightarrow> error option" where
  "Validate c =
     (if sv_Port (cfg_Server c) \<le> 0 \<or> sv_Port (cfg_Server c) > 65535
      then Some (Errorf (''invalid server port: '' @ Itoa (sv_Port (cfg_Server c))))
      else if qc_BufferSize (cfg_Queue c) \<le> 0
      then Some (Errorf (''invalid queue buffer size: '' @ Itoa (qc_BufferSize (cfg_Queue c))))
      else if col_BatchSize (cfg_Collector c) \<le> 0
      then Some (Errorf (''invalid collector batch size: '' @ Itoa (col_BatchSize (cfg_Collector c))))
      else None)"

section \<open>LoadConfig\<close>

definition flag_string :: "flags \<Rightarrow> string \<Rightarrow> string" where
  "flag_string fl n = (case fl n of Some (FString s) \<Rightarrow> s | _ \<Rightarrow> [])"

definition flag_int :: "flags \<Rightarrow> string \<Rightarrow> int" where
  "flag_int fl n = (case fl n of Some (FInt i) \<Rightarrow> i | _ \<Rightarrow> 0)"

definition flag_duration :: "flags \<Rightarrow> string \<Rightarrow> duration" where
  "flag_duration fl n = (case fl n of Some (FDuration d) \<Rightarrow> d | _ \<Rightarrow> 0)"

definition flag_bool :: "flags \<Rightarrow> string \<Rightarrow> bool" where
  "flag_bool fl n = (case fl n of Some (FBool b) \<Rightarrow> b | _ \<Rightarrow> False)"

definition streamer_flags :: "environment \<Rightarrow> flags" where
  "streamer_flags env = map_of
     [(''csv-path'', FString (GetEnv env ''CSV_PATH'' DefaultStreamerCSVPath)),
      (''interval'', FDuration (GetEnvDuration env ''STREAM_INTERVAL'' DefaultStreamInterval)),
      (''instance-id'', FString (GetEnv env ''INSTANCE_ID'' DefaultStreamerInstanceID)),
      (''queue-buffer'', FInt (GetEnvInt env ''QUEUE_BUFFER_SIZE'' DefaultQueueBufferSize)),
      (''queue-workers'', FInt (GetEnvInt env ''QUEUE_WORKERS'' DefaultQueueWorkers)),
      (''loop'', FBool (GetEnvBool env ''LOOP_MODE'' DefaultStreamerLoopMode))]"

text \<open>The configuration, or the status the process exits with.\<close>

definition streamer_LoadConfig :: "environment \<Rightarrow> string list \<Rightarrow> int + streamer_Config" where
  "streamer_LoadConfig env args =
     (case flag_Parse (streamer_flags env) args of
        Exits code \<Rightarrow> Inl code
      | Parsed fl \<Rightarrow> Inr \<lparr>sc_CSVPath = flag_string fl ''csv-path'', sc_StreamInterval = flag_duration fl ''interval'',
          sc_InstanceID = flag_string fl ''instance-id'', sc_QueueBufferSize = flag_int fl ''queue-buffer'',
          sc_QueueWorkers = flag_int fl ''queue-workers'', sc_LoopMode = flag_bool fl ''loop''\<rparr>)"

definition collector_flags :: "environment \<Rightarrow> flags" where
  "collector_flags env = map_of
     [(''instance-id'', FString (GetEnv env ''INSTANCE_ID'' DefaultCollectorInstanceID)),
      (''batch-size'', FInt (GetEnvInt env ''BATCH_SIZE'' DefaultCollectorBatchSize)),
      (''max-concurrent'', FInt (GetEnvInt env ''MAX_CONCURRENT_HANDLERS'' DefaultMaxConcurrentHandlers)),
      (''queue-buffer'', FInt (GetEnvInt env ''QUEUE_BUFFER_SIZE'' DefaultQueueBufferSize)),
      (''queue-workers'', FInt (GetEnvInt env ''QUEUE_WORKERS'' DefaultQueueWorkers))]"

definition collector_LoadConfig :: "environment \<Rightarrow> string list \<Rightarrow> int + collector_Config" where
  "collector_LoadConfig env args =
     (case flag_Parse (collector_flags env) args of
        Exits code \<Rightarrow> Inl code
      | Parsed fl \<Rightarrow> Inr \<lparr>cc_InstanceID = flag_string fl ''instance-id'', cc_BatchSize = flag_int fl ''batch-size'',
          cc_MaxConcurrentHandlers = flag_int fl ''max-concurrent'', cc_QueueBufferSize = flag_int fl ''queue-buffer'',
          cc_QueueWorkers = flag_int fl ''queue-workers''\<rparr>)"

section \<open>The main functions\<close>

text \<open>The queue service: flags, which the environment overrides; a value it cannot read changes nothing.\<close>

record queue_service =
  qs_port :: int
  qs_redisURL :: string
  qs_visibilityTimeout :: duration
  qs_maxRetries :: int
  qs_logLevel :: string

definition queueservice_flags :: flags where
  "queueservice_flags = map_of
     [(''port'', FInt 8080), (''redis-url'', FString ''redis://localhost:6379''),
      (''visibility-timeout'', FDuration (5 * minute)), (''max-retries'', FInt 3), (''log-level'', FString ''info'')]"

definition queueservice_main :: "environment \<Rightarrow> string list \<Rightarrow> int + queue_service" where
  "queueservice_main env args =
     (case flag_Parse queueservice_flags args of
        Exits code \<Rightarrow> Inl code
      | Parsed fl \<Rightarrow> Inr
         \<lparr>qs_port = (case (if env ''PORT'' = [] then None else Sscanf_d (env ''PORT'')) of
            None \<Rightarrow> flag_int fl ''port'' | Some i \<Rightarrow> i),
          qs_redisURL = GetEnv env ''REDIS_URL'' (flag_string fl ''redis-url''),
          qs_visibilityTimeout = GetEnvDuration env ''VISIBILITY_TIMEOUT'' (flag_duration fl ''visibility-timeout''),
          qs_maxRetries = (case (if env ''MAX_RETRIES'' = [] then None else Sscanf_d (env ''MAX_RETRIES'')) of
            None \<Rightarrow> flag_int fl ''max-retries'' | Some i \<Rightarrow> i),
          qs_logLevel = GetEnv env ''LOG_LEVEL'' (flag_string fl ''log-level'')\<rparr>)"

text \<open>The addresses and the queue clients of the other services.\<close>

definition api_addr :: "environment \<Rightarrow> string" where
  "api_addr env = CHR '':'' # (if env ''PORT'' = [] then DefaultAPIPort else env ''PORT'')"

definition queueServiceURL :: "environment \<Rightarrow> string" where
  "queueServiceURL env = (if env ''QUEUE_SERVICE_URL'' = [] then ''http://queue-service:8080'' else env ''QUEUE_SERVICE_URL'')"

definition lock_redisURL :: "environment \<Rightarrow> string" where
  "lock_redisURL env = (if env ''REDIS_URL'' = [] then ''redis://redis:6379'' else env ''REDIS_URL'')"

definition streamer_client :: "environment \<Rightarrow> streamer_Config \<Rightarrow> HTTPQueueClient" where
  "streamer_client env config = NewHTTPQueueClient \<lparr>hc_BaseURL = queueServiceURL env, hc_ConsumerGroup = ''streamers'',
     hc_ConsumerID = sc_InstanceID config, hc_Timeout = 0\<rparr>"

definition collector_client :: "environment \<Rightarrow> collector_Config \<Rightarrow> HTTPQueueClient" where
  "collector_client env config = NewHTTPQueueClient \<lparr>hc_BaseURL = queueServiceURL env, hc_ConsumerGroup = ''collectors'',
     hc_ConsumerID = cc_InstanceID config, hc_Timeout = 0\<rparr>"

section \<open>Numbers read from texts\<close>

lemma Atoi_range: "Atoi s = Some i \<Longrightarrow> int64_range i"
  by (cases s) (auto simp: range_checked_def bind_eq_Some_conv split: if_splits)

lemma GetEnv_range:
  "int64_range d \<Longrightarrow> int64_range (GetEnvInt env key d)" "int64_range d \<Longrightarrow> int64_range (GetEnvDuration env key d)"
  by (auto simp: GetEnvInt_def GetEnvDuration_def split: option.split dest: Atoi_range ParseDuration_range)

lemma flag_ranges:
  assumes "flag_Parse fl args = Parsed fl'"
  shows "fl n = Some (FInt i) \<Longrightarrow> int64_range i \<Longrightarrow> int64_range (flag_int fl' n)"
    and "fl n = Some (FDuration d) \<Longrightarrow> int64_range d \<Longrightarrow> int64_range (flag_duration fl' n)"
  using flag_Parse_kinds [OF assms] by (fastforce simp: same_kinds_def flag_int_def flag_duration_def)+

section \<open>Properties\<close>



end
