(* ===== verification/Processes.thy ===== *)
theory Processes
  imports Config Pipeline
begin

text \<open>
  The four processes, \<open>cmd/*/main.go\<close>: what they set up, how they run and stop, the status they end with and what they
  close. \<open>os.Exit\<close> ends a process at once; only a return from \<open>main\<close> runs the deferred calls.
\<close>

section \<open>The end of a process\<close>

datatype closer = Close_gpus | Close_telemetry | Close_lock | Close_queue

text \<open>The deferred calls, the last one first; what was closed; the status, when the process has ended.\<close>

record process =
  pc_deferred :: "closer list"
  pc_closed :: "closer list"
  pc_status :: "int option"

definition started :: process where
  "started = \<lparr>pc_deferred = [], pc_closed = [], pc_status = None\<rparr>"

definition defer_call :: "closer \<Rightarrow> process \<Rightarrow> process" where
  "defer_call c p = p\<lparr>pc_deferred := c # pc_deferred p\<rparr>"

definition os_Exit :: "int \<Rightarrow> process \<Rightarrow> process" where
  "os_Exit code p = p\<lparr>pc_status := Some code\<rparr>"

definition main_returns :: "process \<Rightarrow> process" where
  "main_returns p = p\<lparr>pc_status := Some 0, pc_closed := pc_deferred p\<rparr>"

text \<open>A process closes nothing while it runs or when it exits, and everything, the last opened first, when it returns.\<close>

definition process_ok :: "process \<Rightarrow> bool" where
  "process_ok p \<longleftrightarrow> pc_closed p = (if pc_status p = Some 0 then pc_deferred p else [])"

lemma process_simps [simp]:
  "process_ok started" "pc_status started = None" "pc_deferred started = []"
  "pc_status (defer_call c p) = pc_status p" "pc_deferred (defer_call c p) = c # pc_deferred p"
  "pc_status (os_Exit code p) = Some code" "pc_deferred (os_Exit code p) = pc_deferred p"
  "pc_status (main_returns p) = Some 0" "pc_deferred (main_returns p) = pc_deferred p"
  "process_ok (main_returns p)"
  by (simp_all add: started_def defer_call_def os_Exit_def main_returns_def process_ok_def)

lemma process_ok_running:
  "process_ok p \<Longrightarrow> pc_status p = None \<Longrightarrow> process_ok (defer_call c p)"
  "process_ok p \<Longrightarrow> pc_status p = None \<Longrightarrow> code \<noteq> 0 \<or> pc_deferred p = [] \<Longrightarrow> process_ok (os_Exit code p)"
  by (auto simp: process_ok_def defer_call_def os_Exit_def)

section \<open>Servers\<close>

text \<open>
  What happens to the \<open>main\<close> of a server: \<open>ListenAndServe\<close> returns in its goroutine, a signal arrives, the call of
  \<open>Shutdown\<close> returns. A listener that was shut down returns \<open>ErrServerClosed\<close>.
\<close>

datatype server_event = Listen_returns "error option" | Signal | Shutdown_returns "error option"

datatype server_phase = Listening | Stopping

definition ErrServerClosed :: error where
  "ErrServerClosed = External ''http: Server closed''"

section \<open>The queue service\<close>

text \<open>\<open>slog\<close> numbers its levels.\<close>

definition log_level :: "string \<Rightarrow> int" where
  "log_level s = (if s = ''debug'' then -4 else if s = ''info'' then 0 else if s = ''warn'' then 4
     else if s = ''error'' then 8 else 0)"

text \<open>\<open>NewRedisQueue\<close>: parsing the URL and the first ping can fail.\<close>

definition connect_redis :: "string \<Rightarrow> error option \<Rightarrow> error option \<Rightarrow> error option" where
  "connect_redis what parse ping = (case parse of Some e \<Rightarrow> Some (Wrapf what e)
     | None \<Rightarrow> map_option (Wrapf ''failed to connect to Redis'') ping)"

definition queue_setup :: "queue_service \<Rightarrow> error option \<Rightarrow> error option \<Rightarrow> RedisQueue option \<times> process" where
  "queue_setup c parse ping =
     (case connect_redis ''failed to parse Redis URL'' parse ping of
        Some e \<Rightarrow> (None, os_Exit 1 started)
      | None \<Rightarrow> (Some (NewRedisQueue (qs_visibilityTimeout c) (qs_maxRetries c)), defer_call Close_queue started))"

definition server_addr :: "int \<Rightarrow> string" where
  "server_addr port = CHR '':'' # Itoa port"

text \<open>\<open>HTTPServer.Start\<close>, whose result, nil too, ends the select of \<open>main\<close>.\<close>

definition http_Start :: "error option \<Rightarrow> error option" where
  "http_Start listen = (case listen of None \<Rightarrow> None
     | Some e \<Rightarrow> if e = ErrServerClosed then None else Some (Wrapf ''failed to start HTTP server'' e))"

fun queue_run :: "server_phase \<Rightarrow> server_event list \<Rightarrow> process \<Rightarrow> process" where
  "queue_run ph [] p = p"
| "queue_run Listening (Listen_returns r # evs) p = os_Exit 1 p"
| "queue_run Listening (Signal # evs) p = queue_run Stopping evs p"
| "queue_run Listening (Shutdown_returns r # evs) p = queue_run Listening evs p"
| "queue_run Stopping (Shutdown_returns r # evs) p = (case r of Some e \<Rightarrow> os_Exit 1 p | None \<Rightarrow> main_returns p)"
| "queue_run Stopping (Listen_returns r # evs) p = queue_run Stopping evs p"
| "queue_run Stopping (Signal # evs) p = queue_run Stopping evs p"

definition queue_main :: "environment \<Rightarrow> string list \<Rightarrow> error option \<Rightarrow> error option \<Rightarrow> server_event list \<Rightarrow> process" where
  "queue_main env args parse ping evs =
     (case queueservice_main env args of
        Inl code \<Rightarrow> os_Exit code started
      | Inr c \<Rightarrow> (case queue_setup c parse ping of
            (None, p) \<Rightarrow> p
          | (Some q, p) \<Rightarrow> queue_run Listening evs p))"

section \<open>The API gateway\<close>

definition api_setup :: "environment \<Rightarrow> 'w mongo \<Rightarrow> error option \<Rightarrow> error option \<Rightarrow> 'w
    \<Rightarrow> (mongo_repo \<times> mongo_repo) option \<times> process \<times> 'w" where
  "api_setup env M c1 c2 w =
     (if env ''MONGODB_URI'' = [] then (None, os_Exit 1 started, w)
      else (case NewGPURepository M c1 DefaultMongoDatabase DefaultMongoGPUCollection w of
          (Inl e, w1) \<Rightarrow> (None, os_Exit 1 started, w1)
        | (Inr g, w1) \<Rightarrow>
            let p = defer_call Close_gpus started
            in (case NewTelemetryRepository M c2 DefaultMongoDatabase DefaultMongoMetricsCollection w1 of
                  (Inl e, w2) \<Rightarrow> (None, os_Exit 1 p, w2)
                | (Inr t, w2) \<Rightarrow> (Some (g, t), defer_call Close_telemetry p, w2))))"

text \<open>The listener exits the process itself when it fails, before or after the signal.\<close>

fun api_run :: "server_phase \<Rightarrow> server_event list \<Rightarrow> process \<Rightarrow> process" where
  "api_run ph [] p = p"
| "api_run ph (Listen_returns r # evs) p =
     (if r \<noteq> None \<and> r \<noteq> Some ErrServerClosed then os_Exit 1 p else api_run ph evs p)"
| "api_run Listening (Signal # evs) p = api_run Stopping evs p"
| "api_run Stopping (Signal # evs) p = api_run Stopping evs p"
| "api_run Listening (Shutdown_returns r # evs) p = api_run Listening evs p"
| "api_run Stopping (Shutdown_returns r # evs) p = (case r of Some e \<Rightarrow> os_Exit 1 p | None \<Rightarrow> main_returns p)"

definition api_main :: "environment \<Rightarrow> 'w mongo \<Rightarrow> error option \<Rightarrow> error option \<Rightarrow> server_event list \<Rightarrow> 'w \<Rightarrow> process \<times> 'w" where
  "api_main env M c1 c2 evs w =
     (case api_setup env M c1 c2 w of
        (None, p, w1) \<Rightarrow> (p, w1) | (Some repos, p, w1) \<Rightarrow> (api_run Listening evs p, w1))"

section \<open>The streamer\<close>

text \<open>
  \<open>Start\<close> runs in a goroutine; the flag tells whether the signal came before its end, and then its error is not
  looked at. A \<open>Start\<close> that does not return keeps the process running.
\<close>

definition streamer_ends :: "bool \<Rightarrow> error option \<Rightarrow> process \<Rightarrow> process" where
  "streamer_ends signalled r p =
     (if signalled then main_returns p
      else if r \<noteq> None \<and> r \<noteq> Some Canceled then os_Exit 1 p else main_returns p)"

definition streamer_main :: "environment \<Rightarrow> string list \<Rightarrow> error option \<Rightarrow> error option \<Rightarrow> 'w lock_redis \<Rightarrow> 'w transport
    \<Rightarrow> 'w pass list \<Rightarrow> bool \<Rightarrow> 'w \<Rightarrow> process \<times> 'w" where
  "streamer_main env args parse ping L T passes signalled w =
     (case streamer_LoadConfig env args of
        Inl code \<Rightarrow> (os_Exit code started, w)
      | Inr config \<Rightarrow>
          (case connect_redis ''invalid redis URL'' parse ping of
             Some e \<Rightarrow> (os_Exit 1 started, w)
           | None \<Rightarrow>
               let p = defer_call Close_lock started
               in (case streamer_Start L (Some (NewBatchLock (sc_InstanceID config)))
                          (client_Publish T (streamer_client env config)) 0 passes (NewStreamer config) w of
                     (Returned r, s, w') \<Rightarrow> (streamer_ends signalled r p, w')
                   | (_, s, w') \<Rightarrow> (p, w'))))"

section \<open>The collector\<close>

definition collector_setup :: "environment \<Rightarrow> string list \<Rightarrow> 'w mongo \<Rightarrow> error option \<Rightarrow> error option \<Rightarrow> 'w
    \<Rightarrow> (Collector \<times> mongo_repo \<times> mongo_repo) option \<times> process \<times> 'w" where
  "collector_setup env args M c1 c2 w =
     (case collector_LoadConfig env args of
        Inl code \<Rightarrow> (None, os_Exit code started, w)
      | Inr config \<Rightarrow>
          if client_Start (collector_client env config) \<noteq> None then (None, os_Exit 1 started, w)
          else if env ''MONGODB_URI'' = [] then (None, os_Exit 1 started, w)
          else (case NewTelemetryRepository M c1 DefaultMongoDatabase DefaultMongoMetricsCollection w of
              (Inl e, w1) \<Rightarrow> (None, os_Exit 1 started, w1)
            | (Inr t, w1) \<Rightarrow>
                let p = defer_call Close_telemetry started
                in (case NewGPURepository M c2 DefaultMongoDatabase DefaultMongoGPUCollection w1 of
                      (Inl e, w2) \<Rightarrow> (None, os_Exit 1 p, w2)
                    | (Inr g, w2) \<Rightarrow> (Some (NewCollector config, t, g), defer_call Close_gpus p, w2))))"

text \<open>
  \<open>main\<close> beside the collector's \<open>Start\<close> and its pool: waiting in the select, waiting for \<open>Start\<close> after the signal,
  or at its end. The signal cancels the context, nothing else does. The events of the pool are recorded.
\<close>

datatype main_phase = Selecting | Draining | Done

inductive collector_runs :: "'w telemetry_repo \<Rightarrow> 'w gpu_repo \<Rightarrow> 'w pool \<Rightarrow> process
    \<Rightarrow> main_phase \<Rightarrow> 'w pool \<Rightarrow> event list \<Rightarrow> process \<Rightarrow> bool" for T G p0 pr0 where
  cm_start: "collector_runs T G p0 pr0 Selecting p0 [] pr0"
| cm_signal: "collector_runs T G p0 pr0 Selecting p evs pr \<Longrightarrow>
    collector_runs T G p0 pr0 Draining (p\<lparr>pl_ctxDone := True\<rparr>) (evs @ [Silent]) pr"
| cm_pool: "collector_runs T G p0 pr0 ph p evs pr \<Longrightarrow> ph \<noteq> Done \<Longrightarrow> pool_step T G p ev p' \<Longrightarrow>
    pl_ctxDone p' = pl_ctxDone p \<Longrightarrow> ev \<noteq> Start_returns \<Longrightarrow> (\<forall>e. ev \<noteq> Start_fails e) \<Longrightarrow>
    collector_runs T G p0 pr0 ph p' (evs @ [ev]) pr"
| cm_returns: "collector_runs T G p0 pr0 ph p evs pr \<Longrightarrow> ph \<noteq> Done \<Longrightarrow> pool_step T G p Start_returns p' \<Longrightarrow>
    collector_runs T G p0 pr0 Done p' (evs @ [Start_returns]) (main_returns pr)"
| cm_fails: "collector_runs T G p0 pr0 ph p evs pr \<Longrightarrow> ph \<noteq> Done \<Longrightarrow> pool_step T G p (Start_fails e) p' \<Longrightarrow>
    collector_runs T G p0 pr0 Done p' (evs @ [Start_fails e])
      (if ph = Selecting \<and> e \<noteq> Canceled then os_Exit 1 pr else main_returns pr)"

section \<open>Lemmas\<close>

lemma queue_run_ends:
  assumes "process_ok p" and "pc_status p = None"
  shows "process_ok (queue_run ph evs p) \<and> pc_deferred (queue_run ph evs p) = pc_deferred p
    \<and> (pc_status (queue_run ph evs p) = Some 0 \<longrightarrow> ph = Stopping \<or> Signal \<in> set evs)"
  using assms by (induction ph evs p rule: queue_run.induct) (auto simp: process_ok_running split: option.split)

lemma api_run_ends:
  assumes "process_ok p" and "pc_status p = None"
  shows "process_ok (api_run ph evs p) \<and> pc_deferred (api_run ph evs p) = pc_deferred p
    \<and> (pc_status (api_run ph evs p) = Some 0 \<longrightarrow> ph = Stopping \<or> Signal \<in> set evs)"
  using assms by (induction ph evs p rule: api_run.induct) (auto simp: process_ok_running split: option.split)

lemma api_setup_process:
  assumes "api_setup env M c1 c2 w = (repos, p, w')"
  shows "process_ok p \<and> (repos \<noteq> None \<longrightarrow> pc_status p = None \<and> pc_deferred p = [Close_telemetry, Close_gpus])
    \<and> (repos = None \<longrightarrow> pc_status p = Some 1)"
  using assms by (auto simp: api_setup_def Let_def process_ok_running split: if_splits prod.splits sum.splits)

lemma collector_setup_process:
  assumes "collector_setup env args M c1 c2 w = (c, p, w')"
  shows "process_ok p \<and> (c \<noteq> None \<longrightarrow> pc_status p = None \<and> pc_deferred p = [Close_gpus, Close_telemetry])
    \<and> (c = None \<longrightarrow> pc_status p \<noteq> None)"
  using assms by (auto simp: collector_setup_def Let_def process_ok_running split: if_splits prod.splits sum.splits)

lemma collector_runs_pool:
  "collector_runs T G p0 pr0 ph p evs pr \<Longrightarrow> pool_run T G p0 evs p"
  by (induction rule: collector_runs.induct) (auto intro: pool_start pool_then pool_step.cancel)

text \<open>Before \<open>Subscribe\<close> succeeds nothing is accepted.\<close>

lemma pool_step_starting:
  assumes "pool_step T G p ev p'" and "pl_phase p' \<in> {Starting, Failed}"
  shows "pl_phase p \<in> {Starting, Failed} \<and> (pl_calls p = [] \<longrightarrow> pl_calls p' = [] \<and> accepted [ev] = {#})"
  using assms by cases (auto simp: handleMessage_def split: choice.splits)

lemma pool_run_starting:
  assumes "pool_run T G (startWorkerPool c w) evs p" and "pl_phase p \<in> {Starting, Failed}"
  shows "pl_calls p = [] \<and> accepted evs = {#}"
  using assms
proof induction
  case pool_start
  then show ?case by (simp add: startWorkerPool_def)
next
  case (pool_then evs p ev p')
  have "accepted (evs @ [ev]) = accepted evs + accepted [ev]" by simp
  with pool_then.IH pool_step_starting [OF pool_then.hyps(2) pool_then.prems] show ?case by simp
qed

lemma collector_runs_phase:
  assumes "collector_runs T G (startWorkerPool c w) pr0 ph p evs pr" and "process_ok pr0" and "pc_status pr0 = None"
  shows "process_ok pr \<and> pc_deferred pr = pc_deferred pr0 \<and> (ph = Done \<longleftrightarrow> pc_status pr \<noteq> None)
    \<and> (ph = Selecting \<longrightarrow> \<not> pl_ctxDone p \<and> \<not> pl_workersDone p) \<and> (ph = Draining \<longrightarrow> pl_ctxDone p)
    \<and> (\<forall>code. pc_status pr = Some code \<longrightarrow> code = 0 \<and> pl_ctxDone p \<or> code = 1 \<and> pl_phase p = Failed)"
  using assms(1)
proof induction
  case (cm_pool ph p evs pr ev p')
  then have "pc_status pr = None" by (cases ph) simp_all
  moreover have "pl_workersDone p' \<longrightarrow> pl_workersDone p \<or> pl_ctxDone p"
    using cm_pool.hyps(3) by cases (auto simp: handleMessage_def split: choice.splits)
  ultimately show ?case using cm_pool.IH cm_pool.hyps(2,4) by auto
next
  case (cm_returns ph p evs pr p')
  from cm_returns.hyps(3) have "pl_workersDone p" "pl_ctxDone p' = pl_ctxDone p" by (cases; simp)+
  with cm_returns.IH cm_returns.hyps(2) show ?case by (cases ph) simp_all
next
  case (cm_fails ph p evs pr e p')
  from cm_fails.hyps(3) have "\<exists>e'. e = Wrapf ''failed to subscribe to topic'' e'" "pl_phase p' = Failed" "pl_ctxDone p' = pl_ctxDone p"
    by (cases; simp)+
  moreover have "pc_status pr = None" using cm_fails.IH cm_fails.hyps(2) by simp
  ultimately show ?case using cm_fails.IH cm_fails.hyps(2) by (cases ph) (auto simp: process_ok_running)
qed (use assms(2,3) in \<open>simp_all add: startWorkerPool_def\<close>)

text \<open>
  A message is accepted and picked up, then the signal arrives: the monitor sees an empty work queue and lets \<open>Start\<close>
  return while the worker still has the message.
\<close>

lemma busy_run:
  "\<exists>p. collector_runs T G (startWorkerPool c w) pr Selecting p [Silent, Silent, Returns_to_queue m Sent, Silent] pr
     \<and> pl_phase p = Serving \<and> pl_queue p = [] \<and> pl_calls p = [] \<and> \<not> pl_workersDone p \<and> working (pl_workers p) = {#m#}"
proof -
  define p where "p = startWorkerPool c w"
  note pd = p_def startWorkerPool_def
  define q where "q = (\<lambda>ms calls ws. p\<lparr>pl_queue := ms, pl_calls := calls, pl_workers := ws, pl_phase := Serving\<rparr>)"
  let ?free = "replicate WorkerPoolSize Free" and ?busy = "(replicate WorkerPoolSize Free)[0 := Working m]"
  let ?R = "collector_runs T G p pr"
  have "?R Selecting p [] pr" by (rule cm_start)
  moreover have "pool_step T G p Silent (q [] [] ?free)"
    using pool_step.subscribe_ok [of p T G] by (simp add: q_def pd)
  ultimately have 1: "?R Selecting (q [] [] ?free) [Silent] pr"
    using cm_pool [of T G p pr Selecting p "[]" pr Silent "q [] [] ?free"] by (simp add: q_def pd)
  have "pool_step T G (q [] [] ?free) Silent (q [] [m] ?free)"
    using pool_step.call [of "q [] [] ?free" T G m] by (simp add: q_def pd)
  with 1 have 2: "?R Selecting (q [] [m] ?free) [Silent, Silent] pr"
    using cm_pool [of T G p pr Selecting "q [] [] ?free" "[Silent]" pr Silent "q [] [m] ?free"] by (simp add: q_def pd)
  have "pool_step T G (q [] [m] ?free) (Returns_to_queue m Sent) (q [m] [] ?free)"
    using pool_step.handle [of m "q [] [m] ?free" Sent None "q [m] [m] ?free" T G]
    by (simp add: q_def pd choice_open_def handleMessage_def WorkQueueSize_def)
  with 2 have 3: "?R Selecting (q [m] [] ?free) [Silent, Silent, Returns_to_queue m Sent] pr"
    using cm_pool [of T G p pr Selecting "q [] [m] ?free" "[Silent, Silent]" pr "Returns_to_queue m Sent" "q [m] [] ?free"]
    by (simp add: q_def pd)
  have "pool_step T G (q [m] [] ?free) Silent (q [] [] ?busy)"
    using pool_step.pick [of 0 "q [m] [] ?free" m "[]" T G] by (simp add: q_def pd WorkerPoolSize_def)
  with 3 have "?R Selecting (q [] [] ?busy) [Silent, Silent, Returns_to_queue m Sent, Silent] pr"
    using cm_pool [of T G p pr Selecting "q [m] [] ?free" "[Silent, Silent, Returns_to_queue m Sent]" pr Silent "q [] [] ?busy"]
    by (simp add: q_def pd)
  moreover have "working ?busy = {#m#}" using working_update [of 0 ?free "Working m"] by (simp add: WorkerPoolSize_def)
  ultimately show ?thesis unfolding p_def by (intro exI [of _ "q [] [] ?busy"]) (simp add: q_def pd)
qed

text \<open>After the signal the monitor, \<open>Unsubscribe\<close> and the close of the queue go through without the workers.\<close>

lemma quiet_end:
  assumes "collector_runs T G p0 pr0 Selecting p evs pr" and "pl_phase p = Serving" and "pl_queue p = []"
    and "pl_calls p = []" and "\<not> pl_workersDone p"
  shows "\<exists>p'. collector_runs T G p0 pr0 Done p' (evs @ replicate 4 Silent @ [Start_returns]) (main_returns pr)
    \<and> pl_workers p' = pl_workers p"
proof -
  define r where "r = (\<lambda>done ph. p\<lparr>pl_ctxDone := True, pl_workersDone := done, pl_phase := ph\<rparr>)"
  let ?R = "collector_runs T G p0 pr0" and ?evs = "\<lambda>n. evs @ replicate n Silent"
  have "p\<lparr>pl_ctxDone := True\<rparr> = r False Serving" using assms(2,5) by (simp add: r_def)
  then have 1: "?R Draining (r False Serving) (?evs 1) pr" using cm_signal [OF assms(1)] by (simp add: r_def)
  have go: "?R Draining p2 (?evs (Suc n)) pr" if "?R Draining p1 (?evs n) pr" "pool_step T G p1 Silent p2" "pl_ctxDone p2 = pl_ctxDone p1"
    for p1 p2 n
    using cm_pool [of T G p0 pr0 Draining p1 "?evs n" pr Silent p2] that by (simp add: replicate_append_same)
  have same: "pl_ctxDone (r a x) = pl_ctxDone (r b y)" for a b x y by (simp add: r_def)
  have "pool_step T G (r False Serving) Silent (r True Serving)"
    using pool_step.monitor [of "r False Serving" T G] assms(3) by (cases p) (simp add: r_def)
  note 2 = go [OF 1 this same]
  have "pool_step T G (r True Serving) Silent (r True Unsubscribed)"
    using pool_step.unsubscribe [of "r True Serving" T G] assms(4) by (simp add: r_def)
  note 3 = go [OF 2 this same]
  have "pool_step T G (r True Unsubscribed) Silent (r True Closed)"
    using pool_step.close_queue [of "r True Unsubscribed" T G] assms(4) by (simp add: r_def)
  note 4 = go [OF 3 this same]
  have "pool_step T G (r True Closed) Start_returns (r True Ended)"
    using pool_step.end_start [of "r True Closed" T G] by (simp add: r_def)
  from cm_returns [OF 4 _ this] have "?R Done (r True Ended) (?evs (Suc (Suc (Suc 1))) @ [Start_returns]) (main_returns pr)" by simp
  then show ?thesis by (intro exI [of _ "r True Ended"]) (simp add: r_def eval_nat_numeral)
qed

lemma abandoned_run:
  "\<exists>evs p. collector_runs T G (startWorkerPool c w) pr Done p evs (main_returns pr)
     \<and> accepted evs = {#m#} \<and> processed evs = {#} \<and> working (pl_workers p) = {#m#}"
proof -
  let ?evs = "[Silent, Silent, Returns_to_queue m Sent, Silent]"
  obtain p where p: "collector_runs T G (startWorkerPool c w) pr Selecting p ?evs pr" "pl_phase p = Serving"
    "pl_queue p = []" "pl_calls p = []" "\<not> pl_workersDone p" "working (pl_workers p) = {#m#}"
    using busy_run [of T G c w pr m] by blast
  obtain p' where "collector_runs T G (startWorkerPool c w) pr Done p' (?evs @ replicate 4 Silent @ [Start_returns]) (main_returns pr)"
    "pl_workers p' = pl_workers p" using quiet_end [OF p(1-5)] by blast
  moreover have "accepted (?evs @ replicate 4 Silent @ [Start_returns]) = {#m#}"
    "processed (?evs @ replicate 4 Silent @ [Start_returns]) = {#}"
    by (simp_all add: accepted_def processed_def List.map_filter_def eval_nat_numeral)
  ultimately show ?thesis using p(6) by metis
qed

text \<open>The streamer's process: whatever ended it, the signal apart, it does not keep the lock.\<close>

lemma streamer_main_ends:
  assumes "live_lock_server L key clock" and "streamer_LoadConfig env args = Inr config"
    and "streamer_main env args None None L T passes signalled w = (pr, w')" and "pc_status pr \<noteq> None"
    and "\<forall>p \<in> set passes. \<forall>e. ps_ctx p = Some e \<longrightarrow> ctx_error e"
  shows "process_ok pr \<and> (\<exists>r s. streamer_Start L (Some (NewBatchLock (sc_InstanceID config)))
        (client_Publish T (streamer_client env config)) 0 passes (NewStreamer config) w = (Returned r, s, w')
      \<and> ((\<forall>e. r = Some e \<longrightarrow> \<not> ctx_error e) \<longrightarrow> holder (clock w') (key w') \<noteq> Some (sc_InstanceID config))
      \<and> (pc_status pr = Some 0 \<longleftrightarrow> signalled \<or> r = None \<or> r = Some Canceled))"
proof -
  obtain res s w1 where st: "streamer_Start L (Some (NewBatchLock (sc_InstanceID config)))
      (client_Publish T (streamer_client env config)) 0 passes (NewStreamer config) w = (res, s, w1)" by (metis prod_cases3)
  then obtain r where r: "res = Returned r" "w1 = w'" "pr = streamer_ends signalled r (defer_call Close_lock started)"
    using assms(2-4) by (cases res) (auto simp: streamer_main_def connect_redis_def Let_def)
  have "holder (clock w') (key w') \<noteq> Some (sc_InstanceID config)" if "\<forall>e. r = Some e \<longrightarrow> \<not> ctx_error e"
    using Start_released [OF assms(1) st [unfolded r(1,2)] assms(5)] that by (auto simp: NewBatchLock_def)
  with st r show ?thesis by (auto simp: streamer_ends_def process_ok_running)
qed

section \<open>Properties\<close>

text \<open>C40. How the servers end: whatever happens, the queue service and the gateway close nothing while they run or when
  they exit with an error, and everything they opened, the last first, when they end with status 0; and that needs a
  signal (or, for the queue service, a request for help on its command line).\<close>

theorem servers_end:
  "process_ok (queue_main env args parse ping evs) \<and> process_ok (fst (api_main env M c1 c2 sevs w))
   \<and> (pc_status (queue_main env args parse ping evs) = Some 0 \<longrightarrow> queueservice_main env args = Inl 0
        \<or> Signal \<in> set evs \<and> parse = None \<and> ping = None \<and> pc_closed (queue_main env args parse ping evs) = [Close_queue])
   \<and> (pc_status (fst (api_main env M c1 c2 sevs w)) = Some 0 \<longrightarrow> env ''MONGODB_URI'' \<noteq> []
        \<and> Signal \<in> set sevs \<and> pc_closed (fst (api_main env M c1 c2 sevs w)) = [Close_telemetry, Close_gpus])"
proof -
  have q: "process_ok (queue_main env args parse ping evs)
    \<and> (pc_status (queue_main env args parse ping evs) = Some 0 \<longrightarrow> queueservice_main env args = Inl 0
        \<or> Signal \<in> set evs \<and> parse = None \<and> ping = None \<and> pc_deferred (queue_main env args parse ping evs) = [Close_queue])"
    using queue_run_ends [of "defer_call Close_queue started" Listening evs]
    by (auto simp: queue_main_def queue_setup_def connect_redis_def process_ok_running split: sum.splits option.splits)
  obtain repos p w1 where a: "api_setup env M c1 c2 w = (repos, p, w1)" by (metis prod_cases3)
  note s = api_setup_process [OF a]
  have "process_ok (fst (api_main env M c1 c2 sevs w))
    \<and> (pc_status (fst (api_main env M c1 c2 sevs w)) = Some 0 \<longrightarrow> env ''MONGODB_URI'' \<noteq> []
        \<and> Signal \<in> set sevs \<and> pc_deferred (fst (api_main env M c1 c2 sevs w)) = [Close_telemetry, Close_gpus])"
  proof (cases repos)
    case None
    with a s show ?thesis by (simp add: api_main_def)
  next
    case (Some r)
    then have "env ''MONGODB_URI'' \<noteq> []" using a by (auto simp: api_setup_def split: if_splits)
    with Some a s api_run_ends [of p Listening sevs] show ?thesis by (auto simp: api_main_def)
  qed
  with q show ?thesis by (auto simp: process_ok_def)
qed

lemma calm_ping [simp]: "Ping calm_mongo no_docs = (None, no_docs)"
  by (simp add: calm_mongo_def mem_mongo_def no_docs_def no_faults_def unless_down_def mongo_fault_def called_def)

definition sample_env :: environment where
  "sample_env k = (if k = ''MONGODB_URI'' then ''mongodb://m'' else [])"

theorem servers_end_witness:
  "pc_closed (fst (api_main sample_env calm_mongo None None [Signal, Shutdown_returns None] no_docs)) = [Close_telemetry, Close_gpus]"
proof -
  have "pc_status (fst (api_main sample_env calm_mongo None None [Signal, Shutdown_returns None] no_docs)) = Some 0"
    by (simp add: api_main_def api_setup_def sample_env_def NewGPURepository_def NewTelemetryRepository_def NewRepository_def Let_def)
  with servers_end [where env = sample_env and M = calm_mongo and ?c1.0 = None and ?c2.0 = None
      and sevs = "[Signal, Shutdown_returns None]" and w = no_docs] show ?thesis by simp
qed

text \<open>C14. How the collector ends: with status 0 only after its signal, closing the repositories; with status 1 only when
  its setup or its subscription failed, and then nothing was accepted. In every state each message it accepted is
  processed, in the hands of a worker or in the work queue.\<close>

theorem collector_ends:
  assumes "collector_setup env args M c1 c2 w = (Some (c, rt, rg), pr0, w0)"
    and "collector_runs (TelemetryRepository M rt) (GPURepository M rg) (startWorkerPool c w0) pr0 ph p evs pr"
  shows "accepted evs = processed evs + working (pl_workers p) + mset (pl_queue p)
    \<and> (case pc_status pr of None \<Rightarrow> ph \<noteq> Done \<and> pc_closed pr = []
       | Some code \<Rightarrow> code = 0 \<and> pl_ctxDone p \<and> pc_closed pr = [Close_gpus, Close_telemetry]
           \<or> code = 1 \<and> pc_closed pr = [] \<and> accepted evs = {#} \<and> processed evs = {#})"
proof -
  have pr0: "process_ok pr0" "pc_status pr0 = None" "pc_deferred pr0 = [Close_gpus, Close_telemetry]"
    using collector_setup_process [OF assms(1)] by simp_all
  note i = collector_runs_phase [OF assms(2) pr0(1,2)]
  have run: "pool_run (TelemetryRepository M rt) (GPURepository M rg) (startWorkerPool c w0) evs p"
    by (rule collector_runs_pool [OF assms(2)])
  note a = pool_run_accounts [OF run]
  show ?thesis
  proof (cases "pc_status pr")
    case None
    with i a show ?thesis by (simp add: process_ok_def)
  next
    case (Some code)
    then consider "code = 0" "pl_ctxDone p" | "code = 1" "pl_phase p = Failed" using i by blast
    then show ?thesis
    proof cases
      case 1
      with Some i a pr0(3) show ?thesis by (simp add: process_ok_def)
    next
      case 2
      with pool_run_starting [OF run] a Some i show ?thesis by (simp add: process_ok_def)
    qed
  qed
qed

lemma sample_setup:
  "\<exists>c rt rg pr w. collector_setup sample_env [] calm_mongo None None no_docs = (Some (c, rt, rg), pr, w)"
proof -
  show ?thesis
    by (simp add: collector_setup_def collector_LoadConfig_def client_Start_def sample_env_def NewGPURepository_def
        NewTelemetryRepository_def NewRepository_def Let_def)
qed

theorem collector_ends_witness:
  "\<exists>T G c w pr0 p evs pr. collector_runs T G (startWorkerPool c w) pr0 Done p evs (pr :: process)
     \<and> pc_status pr = Some 0 \<and> pc_closed pr = [Close_gpus, Close_telemetry] \<and> pl_ctxDone (p :: mongo_mem pool)"
proof -
  obtain c rt rg pr0 w where s: "collector_setup sample_env [] calm_mongo None None no_docs = (Some (c, rt, rg), pr0, w)"
    using sample_setup by blast
  obtain evs p where r: "collector_runs (TelemetryRepository calm_mongo rt) (GPURepository calm_mongo rg)
      (startWorkerPool c w) pr0 Done p evs (main_returns pr0)"
    using abandoned_run [of "TelemetryRepository calm_mongo rt" "GPURepository calm_mongo rg" c w pr0 some_message] by blast
  from collector_ends [OF s r] have "pl_ctxDone p" "pc_closed (main_returns pr0) = [Close_gpus, Close_telemetry]" by simp_all
  with r show ?thesis by (metis process_simps(8))
qed

text \<open>C15. A graceful end of the collector can lose telemetry: the queue has the acknowledgement, the process ends with
  status 0 after its signal, and no worker has processed the message.\<close>

theorem shutdown_abandons_messages:
  "\<exists>pr0 p evs pr. collector_runs (TelemetryRepository calm_mongo metrics_repo) (GPURepository calm_mongo gpus_repo)
      (startWorkerPool (NewCollector some_config) no_docs) pr0 Done p evs pr
    \<and> pc_status pr = Some 0 \<and> accepted evs = {#some_message#} \<and> processed evs = {#}"
  using abandoned_run [of "TelemetryRepository calm_mongo metrics_repo" "GPURepository calm_mongo gpus_repo"
      "NewCollector some_config" no_docs _ some_message] by (metis process_simps(8))

end
