(* ===== verification/Api.thy ===== *)
theory Api
  imports Http StorageCorrect
begin

text \<open>
  The API gateway, \<open>internal/api\<close>: the response types with their JSON form (\<open>dto\<close>), the handlers, the routes and the
  middleware. The web framework's own answers - unknown paths, redirects, the Swagger pages - are a parameter.
\<close>

section \<open>Responses\<close>

record ErrorResponse =
  er_Error :: string
  er_Message :: string
  er_Timestamp :: go_time

definition error_response_json :: "ErrorResponse \<Rightarrow> error + json" where
  "error_response_json r = map_sum id (\<lambda>ts. JObj [(''error'', JStr (er_Error r)), (''message'', JStr (er_Message r)),
     (''timestamp'', ts)]) (time_json (er_Timestamp r))"

record GPUResponse =
  gres_UUID :: string
  gres_DeviceID :: string
  gres_GPUIndex :: string
  gres_ModelName :: string
  gres_Hostname :: string
  gres_Container :: string
  gres_Pod :: string
  gres_Namespace :: string

definition ToGPUResponse :: "GPU option \<Rightarrow> GPUResponse option" where
  "ToGPUResponse g = (case g of None \<Rightarrow> None | Some gpu \<Rightarrow> Some
     \<lparr>gres_UUID = gpu_UUID gpu, gres_DeviceID = gpu_DeviceID gpu, gres_GPUIndex = gpu_GPUIndex gpu,
      gres_ModelName = gpu_ModelName gpu, gres_Hostname = gpu_Hostname gpu, gres_Container = gpu_Container gpu,
      gres_Pod = gpu_Pod gpu, gres_Namespace = gpu_Namespace gpu\<rparr>)"

definition gpu_response_json :: "GPUResponse option \<Rightarrow> json" where
  "gpu_response_json x = (case x of None \<Rightarrow> JNull | Some r \<Rightarrow> JObj
     ([(''uuid'', JStr (gres_UUID r)), (''device_id'', JStr (gres_DeviceID r)), (''gpu_index'', JStr (gres_GPUIndex r)),
       (''model_name'', JStr (gres_ModelName r)), (''hostname'', JStr (gres_Hostname r))]
      @ omit_empty_string ''container'' (gres_Container r) @ omit_empty_string ''pod'' (gres_Pod r)
      @ omit_empty_string ''namespace'' (gres_Namespace r)))"

record GPUListResponse =
  glr_GPUs :: "GPUResponse option list"
  glr_Total :: int

definition ToGPUListResponse :: "GPU list \<Rightarrow> GPUListResponse" where
  "ToGPUListResponse gpus = (let responses = map (ToGPUResponse \<circ> Some) gpus
     in \<lparr>glr_GPUs = responses, glr_Total = int (length responses)\<rparr>)"

definition gpu_list_json :: "GPUListResponse \<Rightarrow> json" where
  "gpu_list_json r = JObj [(''gpus'', JArr (map gpu_response_json (glr_GPUs r))), (''total'', JInt (glr_Total r))]"

record TelemetryResponse =
  tres_GPUUUID :: string
  tres_MetricName :: string
  tres_Value :: string
  tres_Timestamp :: go_time
  tres_LabelsRaw :: string

definition ToTelemetryResponse :: "TelemetryPoint option \<Rightarrow> TelemetryResponse option" where
  "ToTelemetryResponse x = (case x of None \<Rightarrow> None | Some p \<Rightarrow> Some
     \<lparr>tres_GPUUUID = tp_GPUUUID p, tres_MetricName = tp_MetricName p, tres_Value = tp_Value p,
      tres_Timestamp = tp_Timestamp p, tres_LabelsRaw = tp_LabelsRaw p\<rparr>)"

definition telemetry_response_json :: "TelemetryResponse option \<Rightarrow> error + json" where
  "telemetry_response_json x = (case x of None \<Rightarrow> Inr JNull
     | Some r \<Rightarrow> map_sum id (\<lambda>ts. JObj
         ([(''gpu_uuid'', JStr (tres_GPUUUID r)), (''metric_name'', JStr (tres_MetricName r)), (''value'', JStr (tres_Value r)),
           (''timestamp'', ts)] @ omit_empty_string ''labels_raw'' (tres_LabelsRaw r))) (time_json (tres_Timestamp r)))"

record TelemetryListResponse =
  tlr_Metrics :: "TelemetryResponse option list"
  tlr_Total :: int
  tlr_GPUUUID :: string
  tlr_StartTime :: "go_time option"
  tlr_EndTime :: "go_time option"

definition ToTelemetryListResponse :: "TelemetryPoint list \<Rightarrow> string \<Rightarrow> TelemetryListResponse" where
  "ToTelemetryListResponse points gpuUUID = (let responses = map (ToTelemetryResponse \<circ> Some) points
     in \<lparr>tlr_Metrics = responses, tlr_Total = int (length responses), tlr_GPUUUID = gpuUUID, tlr_StartTime = None,
         tlr_EndTime = None\<rparr>)"

text \<open>A list encodes its elements in order; the first error is the error of the whole.\<close>

fun all_json :: "(error + json) list \<Rightarrow> error + json list" where
  "all_json [] = Inr []"
| "all_json (x # xs) = (case x of Inl e \<Rightarrow> Inl e | Inr j \<Rightarrow> (case all_json xs of Inl e \<Rightarrow> Inl e | Inr js \<Rightarrow> Inr (j # js)))"

definition optional_time :: "string \<Rightarrow> go_time option \<Rightarrow> error + (string \<times> json) list" where
  "optional_time n t = (case t of None \<Rightarrow> Inr [] | Some t \<Rightarrow> map_sum id (\<lambda>j. [(n, j)]) (time_json t))"

definition telemetry_list_json :: "TelemetryListResponse \<Rightarrow> error + json" where
  "telemetry_list_json r =
     (case all_json (map telemetry_response_json (tlr_Metrics r)) of Inl e \<Rightarrow> Inl e
      | Inr ms \<Rightarrow> (case optional_time ''start_time'' (tlr_StartTime r) of Inl e \<Rightarrow> Inl e
      | Inr st \<Rightarrow> (case optional_time ''end_time'' (tlr_EndTime r) of Inl e \<Rightarrow> Inl e
      | Inr en \<Rightarrow> Inr (JObj ([(''metrics'', JArr ms), (''total'', JInt (tlr_Total r)), (''gpu_uuid'', JStr (tlr_GPUUUID r))]
                        @ st @ en)))))"

section \<open>What a handler does to its response\<close>

text \<open>
  \<open>c.JSON\<close> writes a status and a document, or reports the error of the encoding, which is always that of an
  instant.
\<close>

datatype reply = Written int json | RenderError error

definition render :: "int \<Rightarrow> error + json \<Rightarrow> reply" where
  "render code x = (case x of
     Inl e \<Rightarrow> RenderError (Wrapf ''json: error calling MarshalJSON for type time.Time'' e) | Inr j \<Rightarrow> Written code j)"

definition refuse :: "int \<Rightarrow> string \<Rightarrow> string \<Rightarrow> go_time \<Rightarrow> reply" where
  "refuse code err msg now = render code (error_response_json \<lparr>er_Error = err, er_Message = msg, er_Timestamp = now\<rparr>)"

section \<open>The GPU handler\<close>

definition ListGPUs :: "'w gpu_repo \<Rightarrow> go_time \<Rightarrow> 'w \<Rightarrow> reply \<times> 'w" where
  "ListGPUs G now w =
     (case gr_List G w of
        (Inl e, w1) \<Rightarrow> (refuse StatusInternalServerError ''Failed to retrieve GPUs''
                          ''Internal server error occurred while fetching GPU list'' now, w1)
      | (Inr gpus, w1) \<Rightarrow> (render StatusOK (Inr (gpu_list_json (ToGPUListResponse gpus))), w1))"

definition uuid_missing :: "go_time \<Rightarrow> reply" where
  "uuid_missing now = refuse StatusBadRequest ''Invalid request'' ''GPU UUID is required'' now"

definition gpu_not_found :: "string \<Rightarrow> go_time \<Rightarrow> reply" where
  "gpu_not_found uuid now = refuse StatusNotFound ''GPU not found'' (''No GPU found with UUID: '' @ uuid) now"

definition GetGPU :: "'w gpu_repo \<Rightarrow> string \<Rightarrow> go_time \<Rightarrow> 'w \<Rightarrow> reply \<times> 'w" where
  "GetGPU G uuid now w =
     (if uuid = [] then (uuid_missing now, w)
      else (case gr_GetByUUID G uuid w of
          (Inl e, w1) \<Rightarrow>
            (if e = ErrGPUNotFound then gpu_not_found uuid now
             else refuse StatusInternalServerError ''Failed to retrieve GPU'' ''Internal server error occurred'' now, w1)
        | (Inr gpu, w1) \<Rightarrow> (render StatusOK (Inr (gpu_response_json (ToGPUResponse (Some gpu)))), w1)))"

section \<open>The telemetry handler\<close>

text \<open>The regular expression: groups of hexadecimal digits between hyphens, the same after \<open>GPU-\<close>.\<close>

definition is_hex :: "char \<Rightarrow> bool" where
  "is_hex c \<longleftrightarrow> hex_val c \<noteq> None"

fun hex_group :: "nat \<Rightarrow> string \<Rightarrow> string option" where
  "hex_group 0 s = Some s"
| "hex_group (Suc n) [] = None"
| "hex_group (Suc n) (c # s) = (if is_hex c then hex_group n s else None)"

fun hex_groups :: "nat list \<Rightarrow> string \<Rightarrow> bool" where
  "hex_groups [] s \<longleftrightarrow> False"
| "hex_groups [n] s \<longleftrightarrow> hex_group n s = Some []"
| "hex_groups (n # ns) s \<longleftrightarrow> (case Option.bind (hex_group n s) (lit CHR ''-'') of None \<Rightarrow> False | Some s' \<Rightarrow> hex_groups ns s')"

definition uuidRegex :: "string \<Rightarrow> bool" where
  "uuidRegex s \<longleftrightarrow> hex_groups [8, 4, 4, 4, 12] s
     \<or> HasPrefix s ''GPU-'' \<and> hex_groups [8, 4, 4, 4, 12] (drop 4 s)"

text \<open>A refusal names the error and its message; the status is 400.\<close>

definition bad_time :: "string \<Rightarrow> string \<Rightarrow> string \<times> string" where
  "bad_time name str = (''Invalid '' @ name @ '' format'', ''Use RFC3339 format (e.g., 2023-01-01T00:00:00Z). Got: '' @ str)"

definition parse_time_param :: "http_request \<Rightarrow> string \<Rightarrow> (string \<times> string) + go_time option" where
  "parse_time_param r name = (let str = Query_Get r name in
     if str = [] then Inr None
     else (case parse_rfc3339 str of None \<Rightarrow> Inl (bad_time name str) | Some t \<Rightarrow> Inr (Some t)))"

definition parse_limit :: "http_request \<Rightarrow> (string \<times> string) + int option" where
  "parse_limit r = (let str = Query_Get r ''limit'' in
     if str = [] then Inr None
     else (case Atoi str of
         None \<Rightarrow> Inl (''Invalid limit parameter'', ''limit must be a valid integer. Got: '' @ str)
       | Some v \<Rightarrow>
           if v < 1 then Inl (''Invalid limit parameter'', ''limit must be greater than 0'')
           else if v > 10000 then Inl (''Invalid limit parameter'', ''limit must not exceed 10000'')
           else Inr (Some v)))"

definition parse_filter :: "http_request \<Rightarrow> (string \<times> string) + TimeFilter" where
  "parse_filter r =
     (case parse_time_param r ''start_time'' of Inl e \<Rightarrow> Inl e
      | Inr st \<Rightarrow> (case parse_time_param r ''end_time'' of Inl e \<Rightarrow> Inl e
      | Inr en \<Rightarrow>
          if (case (st, en) of (Some s, Some e) \<Rightarrow> After s e | _ \<Rightarrow> False)
          then Inl (''Invalid time range'', ''start_time must be before end_time'')
          else (case parse_limit r of Inl e \<Rightarrow> Inl e
              | Inr lim \<Rightarrow> Inr \<lparr>tf_StartTime = st, tf_EndTime = en, tf_Limit = lim\<rparr>)))"

definition uuid_malformed :: "string \<times> string" where
  "uuid_malformed = (''Invalid UUID format'',
     ''UUID must be in format: xxxxxxxx-xxxx-xxxx-xxxx-xxxxxxxxxxxx or GPU-xxxxxxxx-xxxx-xxxx-xxxx-xxxxxxxxxxxx'')"

definition GetGPUTelemetry :: "'w telemetry_repo \<Rightarrow> 'w gpu_repo \<Rightarrow> http_request \<Rightarrow> string \<Rightarrow> go_time \<Rightarrow> 'w \<Rightarrow> reply \<times> 'w" where
  "GetGPUTelemetry T G r uuid now w =
     (if uuid = [] then (uuid_missing now, w)
      else if \<not> uuidRegex uuid then (refuse StatusBadRequest (fst uuid_malformed) (snd uuid_malformed) now, w)
      else (case parse_filter r of
          Inl (err, msg) \<Rightarrow> (refuse StatusBadRequest err msg now, w)
        | Inr f \<Rightarrow>
            (case gr_GetByUUID G uuid w of
               (Inl e, w1) \<Rightarrow>
                 (if e = ErrGPUNotFound then gpu_not_found uuid now
                  else refuse StatusInternalServerError ''Failed to verify GPU''
                         ''Internal server error occurred while verifying GPU'' now, w1)
             | (Inr gpu, w1) \<Rightarrow>
                 (case tr_GetByGPU T uuid f w1 of
                    (Inl e, w2) \<Rightarrow> (refuse StatusInternalServerError ''Failed to retrieve telemetry data''
                                      ''Internal server error occurred while fetching telemetry'' now, w2)
                  | (Inr telemetry, w2) \<Rightarrow>
                      (render StatusOK (telemetry_list_json ((ToTelemetryListResponse telemetry uuid)
                         \<lparr>tlr_StartTime := tf_StartTime f, tlr_EndTime := tf_EndTime f\<rparr>)), w2)))))"

section \<open>Routes and middleware\<close>

datatype route = Health | Gpus | GpuByUUID string | GpuTelemetry string | Other

definition find_route :: "http_request \<Rightarrow> route" where
  "find_route r =
     (if hq_Method r \<noteq> ''GET'' then Other
      else (case split_at (CHR ''/'') (hq_Path r) of
          [a, b] \<Rightarrow> if a = [] \<and> b = ''health'' then Health else Other
        | [a, b, c, d] \<Rightarrow> if a = [] \<and> b = ''api'' \<and> c = ''v1'' \<and> d = ''gpus'' then Gpus else Other
        | [a, b, c, d, u] \<Rightarrow>
            if a = [] \<and> b = ''api'' \<and> c = ''v1'' \<and> d = ''gpus'' \<and> u \<noteq> [] then GpuByUUID u else Other
        | [a, b, c, d, u, t] \<Rightarrow>
            if a = [] \<and> b = ''api'' \<and> c = ''v1'' \<and> d = ''gpus'' \<and> u \<noteq> [] \<and> t = ''telemetry'' then GpuTelemetry u else Other
        | _ \<Rightarrow> Other))"

text \<open>\<open>ErrorHandlerMiddleware\<close>: an error the handler left, with nothing written, is answered with status 500.\<close>

definition ErrorHandlerMiddleware :: "go_time \<Rightarrow> reply \<Rightarrow> http_response" where
  "ErrorHandlerMiddleware now rep =
     (case rep of
        Written code j \<Rightarrow> \<lparr>hr_StatusCode = code, hr_Body = Json j\<rparr>
      | RenderError e \<Rightarrow>
          (case refuse StatusInternalServerError ''Internal Server Error'' (error_text e) now of
             Written code j \<Rightarrow> \<lparr>hr_StatusCode = code, hr_Body = Json j\<rparr>
           | RenderError e' \<Rightarrow> \<lparr>hr_StatusCode = StatusInternalServerError, hr_Body = Plain []\<rparr>))"

definition serve_api :: "'w telemetry_repo \<Rightarrow> 'w gpu_repo \<Rightarrow> (http_request \<Rightarrow> http_response) \<Rightarrow> http_request \<Rightarrow> go_time \<Rightarrow> 'w
    \<Rightarrow> http_response \<times> 'w" where
  "serve_api T G framework r now w =
     (case find_route r of
        Health \<Rightarrow> (ErrorHandlerMiddleware now (Written 200 (JObj [(''status'', JStr ''healthy'')])), w)
      | Gpus \<Rightarrow> apfst (ErrorHandlerMiddleware now) (ListGPUs G now w)
      | GpuByUUID u \<Rightarrow> apfst (ErrorHandlerMiddleware now) (GetGPU G u now w)
      | GpuTelemetry u \<Rightarrow> apfst (ErrorHandlerMiddleware now) (GetGPUTelemetry T G r u now w)
      | Other \<Rightarrow> (framework r, w))"

text \<open>\<open>LoggingMiddleware\<close>: what is logged of a request.\<close>

record access_log =
  al_method :: string
  al_path :: string
  al_status :: int
  al_duration_ms :: int

definition LoggingMiddleware :: "go_time \<Rightarrow> go_time \<Rightarrow> http_request \<Rightarrow> http_response \<Rightarrow> access_log" where
  "LoggingMiddleware start now r resp = \<lparr>al_method = hq_Method r, al_path = hq_Path r, al_status = hr_StatusCode resp,
     al_duration_ms = (t_ns now - t_ns start) div millisecond\<rparr>"

end
