(* ===== verification/ApiCorrect.thy ===== *)
theory ApiCorrect
  imports Api
begin

text \<open>
  What the gateway answers: which identifiers and parameters it accepts, that it never writes to the database, and
  that a telemetry answer is the newest part of what is stored.
\<close>

section \<open>Identifiers\<close>

lemma hex_group_Some: "hex_group n s = Some r \<longleftrightarrow> (\<exists>h. s = h @ r \<and> length h = n \<and> list_all is_hex h)"
proof (induction n s rule: hex_group.induct)
  case (3 n c s)
  show ?case
  proof
    assume "hex_group (Suc n) (c # s) = Some r"
    then obtain h where "is_hex c" "s = h @ r" "length h = n" "list_all is_hex h" using 3 by (auto split: if_splits)
    then show "\<exists>h. c # s = h @ r \<and> length h = Suc n \<and> list_all is_hex h" by (intro exI [of _ "c # h"]) simp
  next
    assume "\<exists>h. c # s = h @ r \<and> length h = Suc n \<and> list_all is_hex h"
    then obtain h where "c # s = h @ r" "length h = Suc n" "list_all is_hex h" by blast
    then show "hex_group (Suc n) (c # s) = Some r" using 3 by (cases h) auto
  qed
qed auto

lemma hex_groups_last: "hex_groups [n] s \<longleftrightarrow> length s = n \<and> list_all is_hex s"
  by (auto simp: hex_group_Some)

lemma lit_Some: "lit c s = Some r \<longleftrightarrow> s = c # r"
  by (cases s) (auto simp: lit_def)

lemma hex_groups_more: "hex_groups (n # k # ns) s \<longleftrightarrow>
    (\<exists>h r. s = h @ CHR ''-'' # r \<and> length h = n \<and> list_all is_hex h \<and> hex_groups (k # ns) r)" (is "?l = ?r")
proof
  assume ?l
  then obtain r1 r where "hex_group n s = Some r1" "lit CHR ''-'' r1 = Some r" "hex_groups (k # ns) r"
    by (cases "hex_group n s"; cases "lit CHR ''-'' (the (hex_group n s))") auto
  then show ?r unfolding hex_group_Some lit_Some by blast
next
  assume ?r
  then obtain h r where *: "s = h @ CHR ''-'' # r" "length h = n" "list_all is_hex h" "hex_groups (k # ns) r" by blast
  then have "hex_group n s = Some (CHR ''-'' # r)" unfolding hex_group_Some by blast
  with *(4) show ?l by (simp add: lit_def)
qed

text \<open>The parts of a UUID between its hyphens.\<close>

definition uuid_parts :: "string \<Rightarrow> bool" where
  "uuid_parts s \<longleftrightarrow> (\<exists>a b c d e. s = a @ ''-'' @ b @ ''-'' @ c @ ''-'' @ d @ ''-'' @ e
     \<and> length a = 8 \<and> length b = 4 \<and> length c = 4 \<and> length d = 4 \<and> length e = 12 \<and> list_all is_hex (a @ b @ c @ d @ e))"

lemma hex_groups_uuid: "hex_groups [8, 4, 4, 4, 12] s \<longleftrightarrow> uuid_parts s"
  unfolding hex_groups_more hex_groups_last uuid_parts_def by (simp only: append_Cons append_Nil) fastforce

lemma HasPrefix_iff: "HasPrefix s p \<longleftrightarrow> (\<exists>r. s = p @ r)"
  by (metis HasPrefix_def append_eq_conv_conj append_take_drop_id)

text \<open>The GPUs of the examples.\<close>

definition uuid1 :: string where
  "uuid1 = ''GPU-5fd4f087-86f3-7a43-b711-4771313afc50''"

section \<open>Parameters\<close>

lemma parse_filter_ok:
  assumes "parse_filter r = Inr f"
  shows "(\<forall>n. tf_Limit f = Some n \<longrightarrow> 1 \<le> n \<and> n \<le> 10000)
    \<and> (\<forall>s e. tf_StartTime f = Some s \<longrightarrow> tf_EndTime f = Some e \<longrightarrow> t_ns s \<le> t_ns e)"
  using assms by (auto simp: parse_filter_def parse_limit_def After_def Let_def
      split: sum.splits if_splits option.splits)

lemma refuse_status: "refuse code e m now = Written code' j \<Longrightarrow> code' = code"
  by (auto simp: refuse_def render_def split: sum.splits)

lemma refuse_total: "time_json now = Inr x \<Longrightarrow> \<exists>j. refuse code e m now = Written code j"
  by (auto simp: refuse_def render_def error_response_json_def)

lemma render_status: "render code x = Written code' j \<longleftrightarrow> code' = code \<and> x = Inr j"
  by (auto simp: render_def split: sum.splits)

text \<open>A positive limit splits a list in two.\<close>

lemma limited_split:
  assumes "\<forall>n. lim = Some n \<longrightarrow> 1 \<le> n \<and> n \<le> 10000"
  shows "\<exists>rest. ps = limited lim ps @ rest \<and> (rest = [] \<or> lim = Some (int (length (limited lim ps))))"
proof (cases lim)
  case None
  then show ?thesis by (simp add: limited_def)
next
  case (Some n)
  with assms have "1 \<le> n" by blast
  with Some show ?thesis
    by (intro exI [of _ "drop (nat n) ps"]) (auto simp: limited_def min_def)
qed

section \<open>Reading changes nothing\<close>

lemma mongo_reads:
  assumes "mongo_server M docs"
  shows "gpu_List M rg w = (x, w') \<Longrightarrow> docs w' = docs w"
    and "gpu_GetByUUID M rg u w = (y, w') \<Longrightarrow> docs w' = docs w"
    and "telemetry_GetByGPU M rt u f w = (z, w') \<Longrightarrow> docs w' = docs w"
  by (auto simp: gpu_List_def gpu_GetByUUID_def telemetry_GetByGPU_def split: prod.splits sum.splits
      dest!: mongo_server.Find_docs [OF assms] mongo_server.FindOne_docs [OF assms])

lemma serve_api_reads:
  assumes M: "mongo_server M docs"
    and "serve_api (TelemetryRepository M rt) (GPURepository M rg) framework r now w = (resp, w')"
  shows "docs w' = docs w"
proof (cases "find_route r")
  case Gpus
  then show ?thesis
    using assms(2) mongo_reads(1) [OF M, of rg w]
    by (auto simp: serve_api_def ListGPUs_def GPURepository_def split: prod.splits sum.splits)
next
  case (GpuByUUID u)
  then show ?thesis
    using assms(2) mongo_reads(2) [OF M, of rg u w]
    by (auto simp: serve_api_def GetGPU_def GPURepository_def split: prod.splits sum.splits if_splits)
next
  case (GpuTelemetry u)
  obtain y w1 where y: "gpu_GetByUUID M rg u w = (y, w1)" by fastforce
  have "docs w1 = docs w" using mongo_reads(2) [OF M y] .
  moreover have "docs w' = docs w1 \<or> w' = w"
    using assms(2) GpuTelemetry y mongo_reads(3) [OF M, of rt u _ w1]
    by (auto simp: serve_api_def GetGPUTelemetry_def GPURepository_def TelemetryRepository_def
        split: prod.splits sum.splits if_splits)
  ultimately show ?thesis by auto
qed (use assms(2) in \<open>auto simp: serve_api_def\<close>)

section \<open>Properties\<close>

text \<open>C38. The identifiers the telemetry endpoint accepts are exactly the UUIDs - five groups of 8, 4, 4, 4 and 12
  hexadecimal digits between hyphens - and \<open>GPU-\<close> followed by one.\<close>

theorem uuid_regex_meaning:
  "uuidRegex s \<longleftrightarrow> uuid_parts s \<or> (\<exists>u. s = ''GPU-'' @ u \<and> uuid_parts u)"
  unfolding uuidRegex_def hex_groups_uuid HasPrefix_iff by auto


text \<open>A request that names no parameters, and one with a limit the endpoint refuses.\<close>

definition telemetry_request :: "string \<Rightarrow> http_request" where
  "telemetry_request q = \<lparr>hq_Method = ''GET'', hq_Path = ''/api/v1/gpus/'' @ uuid1 @ ''/telemetry'', hq_RawQuery = q,
     hq_Body = Inr (Plain [])\<rparr>"


text \<open>C6. An answer with telemetry is for a GPU that is stored, and carries the newest of the points stored for it
  inside the time range asked for, newest first: all of them, or as many as the limit asked for allows. The
  answer that there is no such GPU is only given when there is none.\<close>

theorem telemetry_answer:
  assumes "mongo_repositories M docs rg rt" and "gpu_docs_ok (docs w (coll rg))" and "telemetry_docs_ok (docs w (coll rt))"
    and "GetGPUTelemetry (TelemetryRepository M rt) (GPURepository M rg) r uuid now w = (Written code j, w')"
  shows "(code = StatusOK \<longrightarrow> (\<exists>f ts rest. parse_filter r = Inr f \<and> gpus_of (docs w (coll rg)) uuid \<noteq> None
      \<and> telemetry_list_json ((ToTelemetryListResponse ts uuid)
          \<lparr>tlr_StartTime := tf_StartTime f, tlr_EndTime := tf_EndTime f\<rparr>) = Inr j
      \<and> filter_mset (selected uuid f) (points_of (docs w (coll rt))) = mset ts + mset rest
      \<and> sorted_wrt (\<lambda>t t'. t_ns (tp_Timestamp t') \<le> t_ns (tp_Timestamp t)) (ts @ rest)
      \<and> (rest = [] \<or> tf_Limit f = Some (int (length ts)))))
    \<and> (code = StatusNotFound \<longrightarrow> gpus_of (docs w (coll rg)) uuid = None)"
proof (cases "code = StatusOK \<or> code = StatusNotFound")
  case code: True
  have ms: "mongo_server M docs" using assms(1) by (simp add: mongo_repositories_def)
  have "uuid \<noteq> []" "uuidRegex uuid" using assms(4) code
    by (auto simp: GetGPUTelemetry_def uuid_missing_def status_defs dest!: refuse_status split: if_splits)
  moreover from this obtain f where f: "parse_filter r = Inr f" using assms(4) code
    by (cases "parse_filter r") (auto simp: GetGPUTelemetry_def status_defs dest!: refuse_status)
  moreover obtain g w1 where g: "gpu_GetByUUID M rg uuid w = (g, w1)" by fastforce
  have same: "docs w1 = docs w" using mongo_reads(1, 2) [OF ms] g by blast
  note G = mongo_repositories.gpu_GetByUUID_docs [OF assms(1) g assms(2)]
  show ?thesis
  proof (cases g)
    case (Inl e)
    then have "code = StatusNotFound" "e = ErrGPUNotFound" using assms(4) code calculation f g
      by (auto simp: GetGPUTelemetry_def GPURepository_def gpu_not_found_def status_defs dest!: refuse_status split: if_splits)
    with G(3) Inl show ?thesis by (auto simp: status_defs)
  next
    case (Inr h)
    obtain ts w2 where ts: "telemetry_GetByGPU M rt uuid f w1 = (Inr ts, w2)" "code = StatusOK"
      "telemetry_list_json ((ToTelemetryListResponse ts uuid)
          \<lparr>tlr_StartTime := tf_StartTime f, tlr_EndTime := tf_EndTime f\<rparr>) = Inr j"
      using assms(4) code calculation f g Inr
      by (auto simp: GetGPUTelemetry_def GPURepository_def TelemetryRepository_def status_defs render_status
          dest!: refuse_status split: prod.splits sum.splits)
    have tok: "telemetry_docs_ok (docs w1 (coll rt))" using assms(3) same by simp
    obtain ps where ps: "mset ps = filter_mset (selected uuid f) (points_of (docs w (coll rt)))"
      "sorted_wrt (\<lambda>t t'. t_ns (tp_Timestamp t') \<le> t_ns (tp_Timestamp t)) ps" "ts = limited (tf_Limit f) ps"
      using mongo_repositories.telemetry_GetByGPU_docs(2) [OF assms(1) ts(1) tok refl] same by auto
    obtain rest where rest: "ps = ts @ rest" "rest = [] \<or> tf_Limit f = Some (int (length ts))"
      using limited_split [of "tf_Limit f" ps] parse_filter_ok [OF f] ps(3) by blast
    show ?thesis using f G(2) Inr ts(2,3) ps(1,2) rest
      by (intro conjI impI exI [of _ f] exI [of _ ts] exI [of _ rest]) (auto simp: status_defs)
  qed
qed simp

text \<open>A database with one GPU and one point of it.\<close>

definition stored_gpu :: GPU where
  "stored_gpu = zero_GPU\<lparr>gpu_UUID := uuid1\<rparr>"

definition stored_point :: TelemetryPoint where
  "stored_point = zero_TelemetryPoint\<lparr>tp_GPUUUID := uuid1, tp_MetricName := ''util'', tp_Timestamp := of_millis 5\<rparr>"

definition api_world :: mongo_mem where
  "api_world = \<lparr>mm_docs = (\<lambda>c. if c = coll gpus_repo then [gpu_doc stored_gpu]
     else if c = coll metrics_repo then [telemetry_doc stored_point] else []), mm_faults = []\<rparr>"

theorem telemetry_answer_witness:
  "\<exists>j. fst (GetGPUTelemetry (TelemetryRepository mem_mongo metrics_repo) (GPURepository mem_mongo gpus_repo)
        (telemetry_request []) uuid1 zero_time api_world) = Written StatusOK j
     \<and> telemetry_list_json (ToTelemetryListResponse [stored_point] uuid1) = Inr j
     \<and> gpus_of (mm_docs api_world (coll gpus_repo)) uuid1 \<noteq> None"
proof -
  let ?f = "\<lparr>tf_StartTime = None, tf_EndTime = None, tf_Limit = None\<rparr>"
  have ok: "gpu_docs_ok (mm_docs api_world (coll gpus_repo))" "telemetry_docs_ok (mm_docs api_world (coll metrics_repo))"
    by (auto simp: gpu_docs_ok_def telemetry_docs_ok_def api_world_def coll_def gpus_repo_def metrics_repo_def
        intro: exI [of _ "[stored_gpu]"] exI [of _ "[stored_point]"])
  have c: "coll metrics_repo \<noteq> coll gpus_repo" by (simp add: coll_def gpus_repo_def metrics_repo_def)
  have sp: "stored_form stored_point = stored_point" "selected uuid1 ?f stored_point" "gpu_UUID stored_gpu = uuid1"
    by (simp_all add: stored_form_def stored_point_def selected_def stored_gpu_def)
  have r: "parse_filter (telemetry_request []) = Inr ?f" by code_simp
  have u: "uuid1 \<noteq> [] \<and> uuidRegex uuid1" by code_simp
  have "\<exists>j. telemetry_list_json (ToTelemetryListResponse [stored_point] uuid1) = Inr j"
  proof -
    have "case telemetry_list_json (ToTelemetryListResponse [stored_point] uuid1) of Inl e \<Rightarrow> False | Inr j \<Rightarrow> True" by code_simp
    then show ?thesis by (simp split: sum.splits)
  qed
  then obtain j where j: "telemetry_list_json (ToTelemetryListResponse [stored_point] uuid1) = Inr j" ..
  obtain w1 where g: "gpu_GetByUUID mem_mongo gpus_repo uuid1 api_world = (Inr stored_gpu, w1)"
      "mm_docs w1 (coll metrics_repo) = [telemetry_doc stored_point]" "mm_faults w1 = []"
    using sp(3) c by (simp add: gpu_GetByUUID_def mem_mongo_def reply_unless_down_def mongo_fault_def api_world_def called_def)
  obtain w2 where t: "telemetry_GetByGPU mem_mongo metrics_repo uuid1 ?f w1 = (Inr [stored_point], w2)"
    using g(2,3) sp(1,2) by (simp add: telemetry_GetByGPU_def mem_mongo_def reply_unless_down_def mongo_fault_def
        limited_def newest_first_def)
  have same: "(ToTelemetryListResponse [stored_point] uuid1)\<lparr>tlr_StartTime := None, tlr_EndTime := None\<rparr>
      = ToTelemetryListResponse [stored_point] uuid1" by (simp add: ToTelemetryListResponse_def)
  have a: "GetGPUTelemetry (TelemetryRepository mem_mongo metrics_repo) (GPURepository mem_mongo gpus_repo)
        (telemetry_request []) uuid1 zero_time api_world = (Written StatusOK j, w2)"
    using u by (simp add: GetGPUTelemetry_def r TelemetryRepository_def GPURepository_def g(1) t same j render_def)
  have "gpus_of (mm_docs api_world (coll gpus_repo)) uuid1 \<noteq> None"
    using telemetry_answer [OF mem_repositories.mongo_repositories_axioms ok a] by blast
  then show ?thesis using a j by simp
qed

text \<open>No request to the gateway changes the database.\<close>

theorem gateway_is_read_only:
  assumes "mongo_server M docs"
  shows "docs (snd (serve_api (TelemetryRepository M rt) (GPURepository M rg) framework r now w)) = docs w"
  by (rule serve_api_reads [OF assms prod.collapse [symmetric]])

theorem gateway_is_read_only_witness:
  "mm_docs (snd (serve_api (TelemetryRepository mem_mongo metrics_repo) (GPURepository mem_mongo gpus_repo)
     (\<lambda>r. http_Error ''404 page not found'' StatusNotFound)
     \<lparr>hq_Method = ''GET'', hq_Path = ''/api/v1/gpus'', hq_RawQuery = [], hq_Body = Inr (Plain [])\<rparr> zero_time no_docs))
   = mm_docs no_docs"
  by (rule gateway_is_read_only [OF mem_mongo.mongo_server_axioms])

end
