(* ===== verification/ApiDocs.thy ===== *)
theory ApiDocs
  imports ApiCorrect
begin

text \<open>
  The documentation of the API, \<open>docs/swagger\<close>, which the gateway serves: the OpenAPI document that the template of
  \<open>docs.go\<close> describes, what it promises of an operation - its parameters, the statuses of its answers and the schemas
  of their bodies - and that the gateway keeps it. Filling the template in is the work of the \<open>swag\<close> package; here
  the values of \<open>SwaggerInfo\<close> stand at their places in the document.
\<close>

section \<open>docs.go\<close>

record Spec =
  sp_Version :: string
  sp_Host :: string
  sp_BasePath :: string
  sp_Schemes :: "string list"
  sp_Title :: string
  sp_Description :: string

definition SwaggerInfo :: Spec where
  "SwaggerInfo = \<lparr>sp_Version = ''1.0'', sp_Host = ''localhost:8080'', sp_BasePath = ''/api/v1'',
     sp_Schemes = [''http'', ''https''], sp_Title = ''GPU Telemetry Pipeline API'',
     sp_Description = ''REST API for querying GPU telemetry data collected from DCGM metrics''\<rparr>"

definition dto :: "string \<Rightarrow> string" where
  "dto n = ''github_com_arnabghosh_gpu-metrics-streamer_internal_api_dto.'' @ n"

definition schema_ref :: "string \<Rightarrow> json" where
  "schema_ref n = JObj [(''$ref'', JStr (''#/definitions/'' @ dto n))]"

subsection \<open>The operations\<close>

definition doc_gpus :: json where
  "doc_gpus =
     JObj [(''get'',
             JObj [(''description'', JStr ''Get list of all GPU devices for which telemetry data exists''),
                   (''consumes'', JArr [JStr ''application/json'']),
                   (''produces'', JArr [JStr ''application/json'']),
                   (''tags'', JArr [JStr ''gpus'']),
                   (''summary'', JStr ''List all GPUs''),
                   (''responses'',
                     JObj [(''200'',
                             JObj [(''description'', JStr ''OK''), (''schema'', schema_ref ''GPUListResponse'')]),
                           (''500'',
                             JObj [(''description'', JStr ''Internal Server Error''),
                                   (''schema'', schema_ref ''ErrorResponse'')])])])]"

definition doc_gpu :: json where
  "doc_gpu =
     JObj [(''get'',
             JObj [(''description'', JStr ''Get a specific GPU device by its UUID''),
                   (''consumes'', JArr [JStr ''application/json'']),
                   (''produces'', JArr [JStr ''application/json'']),
                   (''tags'', JArr [JStr ''gpus'']),
                   (''summary'', JStr ''Get GPU by UUID''),
                   (''parameters'',
                     JArr [JObj [(''type'', JStr ''string''),
                                 (''example'',
                                   JStr ([CHR 0x22] @ ''GPU-5fd4f087-86f3-7a43-b711-4771313afc50'' @ [CHR 0x22])),
                                 (''description'', JStr ''GPU UUID''),
                                 (''name'', JStr ''uuid''),
                                 (''in'', JStr ''path''),
                                 (''required'', JBool True)]]),
                   (''responses'',
                     JObj [(''200'', JObj [(''description'', JStr ''OK''), (''schema'', schema_ref ''GPUResponse'')]),
                           (''404'',
                             JObj [(''description'', JStr ''Not Found''), (''schema'', schema_ref ''ErrorResponse'')]),
                           (''500'',
                             JObj [(''description'', JStr ''Internal Server Error''),
                                   (''schema'', schema_ref ''ErrorResponse'')])])])]"

definition doc_telemetry :: json where
  "doc_telemetry =
     JObj [(''get'',
             JObj [(''description'',
                     JStr ''Get telemetry data for a specific GPU with optional time filtering. Results are ordered by timestamp (newest first).''),
                   (''consumes'', JArr [JStr ''application/json'']),
                   (''produces'', JArr [JStr ''application/json'']),
                   (''tags'', JArr [JStr ''telemetry'']),
                   (''summary'', JStr ''Get GPU telemetry data''),
                   (''parameters'',
                     JArr [JObj [(''type'', JStr ''string''),
                                 (''example'',
                                   JStr ([CHR 0x22] @ ''GPU-5fd4f087-86f3-7a43-b711-4771313afc50'' @ [CHR 0x22])),
                                 (''description'', JStr ''GPU UUID''),
                                 (''name'', JStr ''uuid''),
                                 (''in'', JStr ''path''),
                                 (''required'', JBool True)],
                           JObj [(''type'', JStr ''string''),
                                 (''example'', JStr ([CHR 0x22] @ ''2025-01-18T00:00:00Z'' @ [CHR 0x22])),
                                 (''description'', JStr ''Start time in RFC3339 format''),
                                 (''name'', JStr ''start_time''),
                                 (''in'', JStr ''query'')],
                           JObj [(''type'', JStr ''string''),
                                 (''example'', JStr ([CHR 0x22] @ ''2025-01-18T23:59:59Z'' @ [CHR 0x22])),
                                 (''description'', JStr ''End time in RFC3339 format''),
                                 (''name'', JStr ''end_time''),
                                 (''in'', JStr ''query'')],
                           JObj [(''maximum'', JNum ''10000''),
                                 (''minimum'', JNum ''1''),
                                 (''type'', JStr ''integer''),
                                 (''example'', JNum ''100''),
                                 (''description'', JStr ''Maximum number of results''),
                                 (''name'', JStr ''limit''),
                                 (''in'', JStr ''query'')]]),
                   (''responses'',
                     JObj [(''200'',
                             JObj [(''description'', JStr ''OK''), (''schema'', schema_ref ''TelemetryListResponse'')]),
                           (''400'',
                             JObj [(''description'', JStr ''Bad Request''),
                                   (''schema'', schema_ref ''ErrorResponse'')]),
                           (''404'',
                             JObj [(''description'', JStr ''Not Found''), (''schema'', schema_ref ''ErrorResponse'')]),
                           (''500'',
                             JObj [(''description'', JStr ''Internal Server Error''),
                                   (''schema'', schema_ref ''ErrorResponse'')])])])]"

subsection \<open>The schemas\<close>

definition error_schema :: json where
  "error_schema =
     JObj [(''type'', JStr ''object''),
           (''properties'',
             JObj [(''error'', JObj [(''type'', JStr ''string''), (''example'', JStr ''GPU not found'')]),
                   (''message'',
                     JObj [(''type'', JStr ''string''),
                           (''example'', JStr ''No GPU found with UUID: GPU-invalid-uuid'')]),
                   (''timestamp'', JObj [(''type'', JStr ''string''), (''example'', JStr ''2025-01-18T12:34:56Z'')])])]"

definition gpu_list_schema :: json where
  "gpu_list_schema =
     JObj [(''type'', JStr ''object''),
           (''properties'',
             JObj [(''gpus'', JObj [(''type'', JStr ''array''), (''items'', schema_ref ''GPUResponse'')]),
                   (''total'', JObj [(''type'', JStr ''integer''), (''example'', JNum ''2'')])])]"

definition gpu_schema :: json where
  "gpu_schema =
     JObj [(''type'', JStr ''object''),
           (''properties'',
             JObj [(''container'', JObj [(''type'', JStr ''string''), (''example'', JStr ''gpu-workload'')]),
                   (''device_id'', JObj [(''type'', JStr ''string''), (''example'', JStr ''nvidia0'')]),
                   (''gpu_index'', JObj [(''type'', JStr ''string''), (''example'', JStr ''0'')]),
                   (''hostname'', JObj [(''type'', JStr ''string''), (''example'', JStr ''mtv5-dgx1-hgpu-031'')]),
                   (''model_name'', JObj [(''type'', JStr ''string''), (''example'', JStr ''NVIDIA H100 80GB HBM3'')]),
                   (''namespace'', JObj [(''type'', JStr ''string''), (''example'', JStr ''ml-team'')]),
                   (''pod'', JObj [(''type'', JStr ''string''), (''example'', JStr ''training-pod-1'')]),
                   (''uuid'',
                     JObj [(''type'', JStr ''string''),
                           (''example'', JStr ''GPU-5fd4f087-86f3-7a43-b711-4771313afc50'')])])]"

definition telemetry_list_schema :: json where
  "telemetry_list_schema =
     JObj [(''type'', JStr ''object''),
           (''properties'',
             JObj [(''end_time'', JObj [(''type'', JStr ''string''), (''example'', JStr ''2025-01-18T23:59:59Z'')]),
                   (''gpu_uuid'',
                     JObj [(''type'', JStr ''string''),
                           (''example'', JStr ''GPU-5fd4f087-86f3-7a43-b711-4771313afc50'')]),
                   (''metrics'', JObj [(''type'', JStr ''array''), (''items'', schema_ref ''TelemetryResponse'')]),
                   (''start_time'', JObj [(''type'', JStr ''string''), (''example'', JStr ''2025-01-18T00:00:00Z'')]),
                   (''total'', JObj [(''type'', JStr ''integer''), (''example'', JNum ''150'')])])]"

definition telemetry_schema :: json where
  "telemetry_schema =
     JObj [(''type'', JStr ''object''),
           (''properties'',
             JObj [(''gpu_uuid'',
                     JObj [(''type'', JStr ''string''),
                           (''example'', JStr ''GPU-5fd4f087-86f3-7a43-b711-4771313afc50'')]),
                   (''labels_raw'',
                     JObj [(''type'', JStr ''string''),
                           (''example'',
                             JStr (''DCGM_FI_DRIVER_VERSION='' @ [CHR 0x22] @ ''535.129.03'' @ [CHR 0x22]))]),
                   (''metric_name'', JObj [(''type'', JStr ''string''), (''example'', JStr ''DCGM_FI_DEV_GPU_UTIL'')]),
                   (''timestamp'',
                     JObj [(''type'', JStr ''string''), (''example'', JStr ''2025-01-18T12:34:56.789Z'')]),
                   (''value'', JObj [(''type'', JStr ''string''), (''example'', JStr ''85'')])])]"

subsection \<open>The document\<close>

definition docTemplate :: "Spec \<Rightarrow> json" where
  "docTemplate s =
     JObj [(''schemes'', JArr (map JStr (sp_Schemes s))),
           (''swagger'', JStr ''2.0''),
           (''info'',
             JObj [(''description'', JStr (sp_Description s)), (''title'', JStr (sp_Title s)),
                   (''termsOfService'', JStr ''http://swagger.io/terms/''),
                   (''contact'', JObj [(''name'', JStr ''API Support''), (''email'', JStr ''support@gpu-telemetry.local'')]),
                   (''license'',
                     JObj [(''name'', JStr ''Apache 2.0''),
                           (''url'', JStr ''http://www.apache.org/licenses/LICENSE-2.0.html'')]),
                   (''version'', JStr (sp_Version s))]),
           (''host'', JStr (sp_Host s)),
           (''basePath'', JStr (sp_BasePath s)),
           (''paths'',
             JObj [(''/gpus'', doc_gpus), (''/gpus/{uuid}'', doc_gpu), (''/gpus/{uuid}/telemetry'', doc_telemetry)]),
           (''definitions'',
             JObj [(dto ''ErrorResponse'', error_schema), (dto ''GPUListResponse'', gpu_list_schema),
                   (dto ''GPUResponse'', gpu_schema), (dto ''TelemetryListResponse'', telemetry_list_schema),
                   (dto ''TelemetryResponse'', telemetry_schema)])]"

section \<open>What a document promises\<close>

text \<open>The part of OpenAPI 2.0 that the document uses. A member of an object:\<close>

fun member_of :: "json \<Rightarrow> string \<Rightarrow> json option" where
  "member_of (JObj ms) n = map_of ms n"
| "member_of _ n = None"

fun text_of :: "json option \<Rightarrow> string" where
  "text_of (Some (JStr s)) = s"
| "text_of _ = []"

fun number_of :: "json option \<Rightarrow> int option" where
  "number_of (Some (JNum l)) = Atoi l"
| "number_of _ = None"

definition definition_of :: "json \<Rightarrow> string \<Rightarrow> json option" where
  "definition_of doc r =
     (if HasPrefix r ''#/definitions/'' then Option.bind (member_of doc ''definitions'') (\<lambda>ds. member_of ds (drop 14 r))
      else None)"

definition integer_literal :: "string \<Rightarrow> bool" where
  "integer_literal l \<longleftrightarrow> (let ds = TrimPrefix l ''-'' in ds \<noteq> [] \<and> list_all is_digit ds)"

text \<open>
  A value conforms to a schema. An object has no other members than those of the schema. The number bounds the nesting
  of the schemas, references included.
\<close>

primrec conforms :: "nat \<Rightarrow> json \<Rightarrow> json \<Rightarrow> json \<Rightarrow> bool" where
  "conforms 0 doc schema v \<longleftrightarrow> False"
| "conforms (Suc n) doc schema v \<longleftrightarrow>
     (case member_of schema ''$ref'' of
        Some r \<Rightarrow> (case definition_of doc (text_of (Some r)) of None \<Rightarrow> False | Some s \<Rightarrow> conforms n doc s v)
      | None \<Rightarrow>
          (let t = text_of (member_of schema ''type'') in
           case v of
             JStr s \<Rightarrow> t = ''string''
           | JNum l \<Rightarrow> t = ''integer'' \<and> integer_literal l
           | JArr vs \<Rightarrow> t = ''array''
               \<and> (case member_of schema ''items'' of None \<Rightarrow> False | Some s \<Rightarrow> list_all (conforms n doc s) vs)
           | JObj ms \<Rightarrow> t = ''object'' \<and> distinct (map fst ms)
               \<and> (case member_of schema ''properties'' of None \<Rightarrow> False
                  | Some ps \<Rightarrow> list_all (\<lambda>(k, x). case member_of ps k of None \<Rightarrow> False | Some s \<Rightarrow> conforms n doc s x) ms)
           | _ \<Rightarrow> False))"

text \<open>The operation a request asks for: its path is the base path followed by a template of the document.\<close>

fun matches_template :: "string list \<Rightarrow> string list \<Rightarrow> bool" where
  "matches_template [] [] \<longleftrightarrow> True"
| "matches_template (t # ts) (p # ps) \<longleftrightarrow>
     (if HasPrefix t ''{'' then p \<noteq> [] else p = t) \<and> matches_template ts ps"
| "matches_template _ _ \<longleftrightarrow> False"

definition documented_operation :: "json \<Rightarrow> http_request \<Rightarrow> json option" where
  "documented_operation doc r =
     (case member_of doc ''paths'' of
        Some (JObj paths) \<Rightarrow>
          Option.bind (find (\<lambda>(path, item). matches_template
              (split_at (CHR ''/'') (text_of (member_of doc ''basePath'') @ path)) (split_at (CHR ''/'') (hq_Path r))) paths)
            (\<lambda>(path, item). if hq_Method r = ''GET'' then member_of item ''get'' else None)
      | _ \<Rightarrow> None)"

text \<open>The schema of the answers with a status, and what the document asks of the query parameters.\<close>

definition documented_answer :: "json \<Rightarrow> int \<Rightarrow> json option" where
  "documented_answer op code =
     Option.bind (member_of op ''responses'') (\<lambda>rs. Option.bind (member_of rs (Itoa code)) (\<lambda>a. member_of a ''schema''))"

fun between :: "int option \<Rightarrow> int option \<Rightarrow> int \<Rightarrow> bool" where
  "between lo hi i \<longleftrightarrow> (case lo of None \<Rightarrow> True | Some l \<Rightarrow> l \<le> i) \<and> (case hi of None \<Rightarrow> True | Some h \<Rightarrow> i \<le> h)"

definition parameter_ok :: "http_request \<Rightarrow> json \<Rightarrow> bool" where
  "parameter_ok r p =
     (let v = Query_Get r (text_of (member_of p ''name'')) in
      if text_of (member_of p ''in'') = ''query'' \<and> text_of (member_of p ''type'') = ''integer'' \<and> v \<noteq> []
      then (case Atoi v of None \<Rightarrow> False
            | Some i \<Rightarrow> between (number_of (member_of p ''minimum'')) (number_of (member_of p ''maximum'')) i)
      else True)"

definition parameters_ok :: "json \<Rightarrow> http_request \<Rightarrow> bool" where
  "parameters_ok op r \<longleftrightarrow> (case member_of op ''parameters'' of Some (JArr ps) \<Rightarrow> list_all (parameter_ok r) ps | _ \<Rightarrow> True)"

section \<open>The gateway keeps its documentation\<close>

abbreviation swagger :: json where
  "swagger \<equiv> docTemplate SwaggerInfo"

text \<open>The references of the document, resolved.\<close>

definition dto_schema :: "json \<Rightarrow> string \<Rightarrow> json option" where
  "dto_schema doc m = definition_of doc (''#/definitions/'' @ dto m)"

lemma swagger_definitions:
  "dto_schema swagger ''ErrorResponse'' = Some error_schema"
  "dto_schema swagger ''GPUListResponse'' = Some gpu_list_schema"
  "dto_schema swagger ''GPUResponse'' = Some gpu_schema"
  "dto_schema swagger ''TelemetryListResponse'' = Some telemetry_list_schema"
  "dto_schema swagger ''TelemetryResponse'' = Some telemetry_schema"
  by code_simp+

declare conforms.simps [simp del]

lemma conforms_ref:
  "conforms (Suc n) doc (schema_ref m) v
   \<longleftrightarrow> (case dto_schema doc m of None \<Rightarrow> False | Some s \<Rightarrow> conforms n doc s v)"
  by (simp add: schema_ref_def dto_schema_def conforms.simps)

text \<open>The schemas without a reference, by their types.\<close>

lemma conforms_string:
  "map_of ms ''$ref'' = None \<Longrightarrow> map_of ms ''type'' = Some (JStr ''string'') \<Longrightarrow> conforms (Suc n) doc (JObj ms) (JStr x)"
  by (simp add: conforms.simps)

lemma conforms_integer:
  "map_of ms ''$ref'' = None \<Longrightarrow> map_of ms ''type'' = Some (JStr ''integer'')
   \<Longrightarrow> conforms (Suc n) doc (JObj ms) (JNum l) \<longleftrightarrow> integer_literal l"
  by (simp add: conforms.simps)

lemma conforms_array:
  "map_of ms ''$ref'' = None \<Longrightarrow> map_of ms ''type'' = Some (JStr ''array'') \<Longrightarrow> map_of ms ''items'' = Some s
   \<Longrightarrow> conforms (Suc n) doc (JObj ms) (JArr vs) \<longleftrightarrow> list_all (conforms n doc s) vs"
  by (simp add: conforms.simps)

lemma conforms_object:
  "map_of ms ''$ref'' = None \<Longrightarrow> map_of ms ''type'' = Some (JStr ''object'') \<Longrightarrow> map_of ms ''properties'' = Some (JObj ps)
   \<Longrightarrow> conforms (Suc n) doc (JObj ms) (JObj vs) \<longleftrightarrow>
     distinct (map fst vs) \<and> list_all (\<lambda>(k, x). case map_of ps k of None \<Rightarrow> False | Some s \<Rightarrow> conforms n doc s x) vs"
  by (simp add: conforms.simps)

lemmas conforms_shape = swagger_definitions conforms_string conforms_integer conforms_array conforms_object
lemmas conforms_swagger = conforms_ref conforms_shape

lemma integer_literal_Itoa [simp]: "integer_literal (Itoa i)"
proof (cases "i < 0")
  case True
  then show ?thesis by (simp add: integer_literal_def Itoa_def TrimPrefix_def HasPrefix_def)
next
  case False
  have "\<not> HasPrefix (nat_digits n) ''-''" for n
    using nat_digits_hd [of n] by (cases "nat_digits n") (auto simp: HasPrefix_def is_digit_def)
  with False show ?thesis by (simp add: integer_literal_def Itoa_def TrimPrefix_def)
qed

lemma time_json_text: "time_json t = Inr j \<Longrightarrow> \<exists>s. j = JStr s"
  by (auto simp: time_json_def Let_def split: if_splits)

lemma conforms_error:
  "error_response_json e = Inr j \<Longrightarrow> conforms (Suc (Suc (Suc n))) swagger (schema_ref ''ErrorResponse'') j"
  by (auto simp: error_response_json_def conforms_swagger error_schema_def map_sum_def dest!: time_json_text split: sum.splits)

lemma conforms_gpu:
  "conforms (Suc (Suc (Suc n))) swagger (schema_ref ''GPUResponse'') (gpu_response_json (Some g))"
  by (simp add: gpu_response_json_def conforms_swagger gpu_schema_def omit_empty_string_def)

lemma conforms_gpus:
  "conforms (Suc (Suc (Suc (Suc (Suc (Suc n)))))) swagger (schema_ref ''GPUListResponse'')
     (gpu_list_json (ToGPUListResponse gpus))"
  by (subst conforms_ref) (simp add: gpu_list_json_def ToGPUListResponse_def conforms_shape gpu_list_schema_def Let_def
      list_all_iff ToGPUResponse_def conforms_gpu JInt_def)

lemma conforms_telemetry:
  "telemetry_response_json (Some t) = Inr j \<Longrightarrow> conforms (Suc (Suc (Suc n))) swagger (schema_ref ''TelemetryResponse'') j"
  by (auto simp: telemetry_response_json_def conforms_swagger telemetry_schema_def map_sum_def omit_empty_string_def
      dest!: time_json_text split: sum.splits)

lemma all_json_Inr: "all_json xs = Inr js \<Longrightarrow> list_all2 (\<lambda>x j. x = Inr j) xs js"
  by (induction xs arbitrary: js) (auto split: sum.splits)

lemma optional_time_Inr: "optional_time n t = Inr ms \<Longrightarrow> ms = [] \<or> (\<exists>s. ms = [(n, JStr s)])"
  by (auto simp: optional_time_def map_sum_def dest!: time_json_text split: option.splits sum.splits)

lemma conforms_telemetry_list:
  assumes "telemetry_list_json (ToTelemetryListResponse ts u\<lparr>tlr_StartTime := st, tlr_EndTime := en\<rparr>) = Inr j"
  shows "conforms (Suc (Suc (Suc (Suc (Suc (Suc n)))))) swagger (schema_ref ''TelemetryListResponse'') j"
proof -
  obtain ms s e where j: "all_json (map telemetry_response_json (map (ToTelemetryResponse \<circ> Some) ts)) = Inr ms"
      "optional_time ''start_time'' st = Inr s" "optional_time ''end_time'' en = Inr e"
      "j = JObj ([(''metrics'', JArr ms), (''total'', JInt (int (length ts))), (''gpu_uuid'', JStr u)] @ s @ e)"
    using assms by (auto simp: telemetry_list_json_def ToTelemetryListResponse_def Let_def split: sum.splits)
  have *: "conforms (Suc (Suc (Suc n))) swagger (schema_ref ''TelemetryResponse'') m" if "m \<in> set ms" for m
    using all_json_Inr [OF j(1)] that
    by (auto simp: list_all2_conv_all_nth in_set_conv_nth ToTelemetryResponse_def conforms_telemetry)
  show ?thesis
    using optional_time_Inr [OF j(2)] optional_time_Inr [OF j(3)]
    by (subst conforms_ref) (auto simp: j(4) conforms_shape telemetry_list_schema_def list_all_iff JInt_def *)
qed

section \<open>Routes\<close>

lemma matches_template_Cons:
  "matches_template [] ps \<longleftrightarrow> ps = []"
  "matches_template (t # ts) ps \<longleftrightarrow>
     (\<exists>p ps'. ps = p # ps' \<and> (if HasPrefix t ''{'' then p \<noteq> [] else p = t) \<and> matches_template ts ps')"
  by (cases ps; simp)+

lemma route_segments:
  "(case ps of [a, b] \<Rightarrow> f a b | [a, b, c, d] \<Rightarrow> g a b c d | [a, b, c, d, u] \<Rightarrow> h a b c d u
      | [a, b, c, d, u, t] \<Rightarrow> k a b c d u t | _ \<Rightarrow> z) =
   (if length ps = 2 then f (ps ! 0) (ps ! 1) else if length ps = 4 then g (ps ! 0) (ps ! 1) (ps ! 2) (ps ! 3)
    else if length ps = 5 then h (ps ! 0) (ps ! 1) (ps ! 2) (ps ! 3) (ps ! 4)
    else if length ps = 6 then k (ps ! 0) (ps ! 1) (ps ! 2) (ps ! 3) (ps ! 4) (ps ! 5) else z)"
  by (simp split: list.split)

lemma segments_eq:
  "ps = [a, b] \<longleftrightarrow> length ps = 2 \<and> ps ! 0 = a \<and> ps ! 1 = b"
  "ps = [a, b, c, d] \<longleftrightarrow> length ps = 4 \<and> ps ! 0 = a \<and> ps ! 1 = b \<and> ps ! 2 = c \<and> ps ! 3 = d"
  "ps = [a, b, c, d, u] \<longleftrightarrow> length ps = 5 \<and> ps ! 0 = a \<and> ps ! 1 = b \<and> ps ! 2 = c \<and> ps ! 3 = d \<and> ps ! 4 = u"
  "ps = [a, b, c, d, u, t] \<longleftrightarrow>
     length ps = 6 \<and> ps ! 0 = a \<and> ps ! 1 = b \<and> ps ! 2 = c \<and> ps ! 3 = d \<and> ps ! 4 = u \<and> ps ! 5 = t"
  by (auto simp: list_eq_iff_nth_eq less_Suc_eq numeral_eq_Suc)

lemma documented_routes:
  "documented_operation swagger r =
     (case find_route r of Gpus \<Rightarrow> member_of doc_gpus ''get'' | GpuByUUID u \<Rightarrow> member_of doc_gpu ''get''
      | GpuTelemetry u \<Rightarrow> member_of doc_telemetry ''get'' | _ \<Rightarrow> None)"
proof -
  have t: "split_at (CHR ''/'') (text_of (member_of swagger ''basePath'') @ ''/gpus'') = [[], ''api'', ''v1'', ''gpus'']"
    "split_at (CHR ''/'') (text_of (member_of swagger ''basePath'') @ ''/gpus/{uuid}'') = [[], ''api'', ''v1'', ''gpus'', ''{uuid}'']"
    "split_at (CHR ''/'') (text_of (member_of swagger ''basePath'') @ ''/gpus/{uuid}/telemetry'')
       = [[], ''api'', ''v1'', ''gpus'', ''{uuid}'', ''telemetry'']"
    by code_simp+
  have p: "member_of swagger ''paths''
      = Some (JObj [(''/gpus'', doc_gpus), (''/gpus/{uuid}'', doc_gpu), (''/gpus/{uuid}/telemetry'', doc_telemetry)])"
    by (simp add: docTemplate_def)
  let ?ps = "split_at (CHR ''/'') (hq_Path r)"
  have m: "matches_template [[], ''api'', ''v1'', ''gpus''] ?ps \<longleftrightarrow> ?ps = [[], ''api'', ''v1'', ''gpus'']"
    "matches_template [[], ''api'', ''v1'', ''gpus'', ''{uuid}''] ?ps
       \<longleftrightarrow> ?ps = [[], ''api'', ''v1'', ''gpus'', ?ps ! 4] \<and> ?ps ! 4 \<noteq> []"
    "matches_template [[], ''api'', ''v1'', ''gpus'', ''{uuid}'', ''telemetry''] ?ps
       \<longleftrightarrow> ?ps = [[], ''api'', ''v1'', ''gpus'', ?ps ! 4, ''telemetry''] \<and> ?ps ! 4 \<noteq> []"
    by (auto simp: HasPrefix_def matches_template_Cons)
  have f: "find_route r = (if hq_Method r \<noteq> ''GET'' then Other
      else if ?ps = [[], ''health''] then Health
      else if ?ps = [[], ''api'', ''v1'', ''gpus''] then Gpus
      else if ?ps = [[], ''api'', ''v1'', ''gpus'', ?ps ! 4] \<and> ?ps ! 4 \<noteq> [] then GpuByUUID (?ps ! 4)
      else if ?ps = [[], ''api'', ''v1'', ''gpus'', ?ps ! 4, ''telemetry''] \<and> ?ps ! 4 \<noteq> [] then GpuTelemetry (?ps ! 4)
      else Other)"
    unfolding find_route_def route_segments segments_eq by simp
  show ?thesis
    unfolding documented_operation_def p f by (auto simp: t m)
qed

section \<open>Answers\<close>

text \<open>An answer as the document has it: a status of the operation, with a body of the schema of that status.\<close>

definition as_documented :: "json \<Rightarrow> json \<Rightarrow> http_response \<Rightarrow> bool" where
  "as_documented doc op resp =
     (case (documented_answer op (hr_StatusCode resp), hr_Body resp) of
        (Some schema, Json body) \<Rightarrow> conforms 6 doc schema body
      | _ \<Rightarrow> False)"

lemma conforms_6: "conforms 6 = conforms (Suc (Suc (Suc (Suc (Suc (Suc 0))))))"
  by (simp add: numeral_eq_Suc)

lemma answer_written:
  assumes "documented_answer op code = Some schema" and "conforms 6 swagger schema j"
  shows "as_documented swagger op (ErrorHandlerMiddleware now (Written code j))"
  using assms by (simp add: as_documented_def ErrorHandlerMiddleware_def)

lemma answer_refused:
  assumes "time_json now = Inr x" and "documented_answer op code = Some (schema_ref ''ErrorResponse'')"
  shows "as_documented swagger op (ErrorHandlerMiddleware now (refuse code e m now))
    \<and> hr_StatusCode (ErrorHandlerMiddleware now (refuse code e m now)) = code"
proof -
  obtain j where j: "error_response_json \<lparr>er_Error = e, er_Message = m, er_Timestamp = now\<rparr> = Inr j"
    using assms(1) by (auto simp: error_response_json_def)
  then have r: "refuse code e m now = Written code j" by (simp add: refuse_def render_def)
  have "conforms 6 swagger (schema_ref ''ErrorResponse'') j"
    unfolding conforms_6 by (rule conforms_error [OF j])
  then show ?thesis
    using answer_written [OF assms(2)] by (simp add: r) (simp add: ErrorHandlerMiddleware_def)
qed

lemma answer_render_error:
  assumes "time_json now = Inr x" and "documented_answer op StatusInternalServerError = Some (schema_ref ''ErrorResponse'')"
  shows "as_documented swagger op (ErrorHandlerMiddleware now (RenderError e))"
proof -
  obtain j where j: "refuse StatusInternalServerError ''Internal Server Error'' (error_text e) now = Written StatusInternalServerError j"
    using refuse_total [OF assms(1)] by blast
  then have "ErrorHandlerMiddleware now (RenderError e) = ErrorHandlerMiddleware now
      (refuse StatusInternalServerError ''Internal Server Error'' (error_text e) now)"
    by (simp add: ErrorHandlerMiddleware_def)
  then show ?thesis using answer_refused [OF assms] by simp
qed

text \<open>The answers of the three operations.\<close>

lemma gpus_operation:
  "case member_of doc_gpus ''get'' of None \<Rightarrow> False | Some op \<Rightarrow>
     documented_answer op 200 = Some (schema_ref ''GPUListResponse'')
     \<and> documented_answer op 500 = Some (schema_ref ''ErrorResponse'') \<and> member_of op ''parameters'' = None"
  by code_simp

lemma gpu_operation:
  "case member_of doc_gpu ''get'' of None \<Rightarrow> False | Some op \<Rightarrow>
     documented_answer op 200 = Some (schema_ref ''GPUResponse'')
     \<and> documented_answer op 404 = Some (schema_ref ''ErrorResponse'')
     \<and> documented_answer op 500 = Some (schema_ref ''ErrorResponse'')"
  by code_simp

lemma telemetry_operation:
  "case member_of doc_telemetry ''get'' of None \<Rightarrow> False | Some op \<Rightarrow>
     documented_answer op 200 = Some (schema_ref ''TelemetryListResponse'')
     \<and> documented_answer op 400 = Some (schema_ref ''ErrorResponse'')
     \<and> documented_answer op 404 = Some (schema_ref ''ErrorResponse'')
     \<and> documented_answer op 500 = Some (schema_ref ''ErrorResponse'')"
  by code_simp

lemma gpu_parameters: "member_of doc_gpu ''get'' = Some op \<Longrightarrow> parameters_ok op r"
  by (auto simp: doc_gpu_def parameters_ok_def parameter_ok_def Let_def)

lemma number_literals: "number_of (Some (JNum ''1'')) = Some 1 \<and> number_of (Some (JNum ''10000'')) = Some 10000"
  by code_simp

lemma telemetry_parameters:
  assumes "member_of doc_telemetry ''get'' = Some op" and "parse_filter r = Inr f"
  shows "parameters_ok op r"
proof -
  obtain lim where "parse_limit r = Inr lim"
    using assms(2) by (auto simp: parse_filter_def split: sum.splits if_splits)
  then have "Query_Get r ''limit'' = [] \<or> (\<exists>v. Atoi (Query_Get r ''limit'') = Some v \<and> 1 \<le> v \<and> v \<le> 10000)"
    by (auto simp: parse_limit_def Let_def split: if_splits option.splits)
  then show ?thesis
    using assms(1) number_literals by (auto simp: doc_telemetry_def parameters_ok_def parameter_ok_def Let_def)
qed

text \<open>What the telemetry handler replies.\<close>

lemma GetGPUTelemetry_replies:
  assumes "GetGPUTelemetry T G r uuid now w = (rep, w')"
  obtains e m where "rep = refuse StatusBadRequest e m now"
    | f e m where "parse_filter r = Inr f" "rep = refuse StatusNotFound e m now"
    | f e m where "parse_filter r = Inr f" "rep = refuse StatusInternalServerError e m now"
    | f ts where "parse_filter r = Inr f" "rep = render StatusOK (telemetry_list_json ((ToTelemetryListResponse ts uuid)
        \<lparr>tlr_StartTime := tf_StartTime f, tlr_EndTime := tf_EndTime f\<rparr>))"
  using assms that
  by (auto simp: GetGPUTelemetry_def uuid_missing_def gpu_not_found_def split: if_splits sum.splits prod.splits)

lemma gpu_answer:
  assumes "time_json now = Inr x" and "u \<noteq> []"
  shows "case member_of doc_gpu ''get'' of None \<Rightarrow> False | Some op \<Rightarrow>
     as_documented swagger op (ErrorHandlerMiddleware now (fst (GetGPU G u now w))) \<and> parameters_ok op r"
proof -
  obtain op where op: "member_of doc_gpu ''get'' = Some op" "documented_answer op 200 = Some (schema_ref ''GPUResponse'')"
      "documented_answer op 404 = Some (schema_ref ''ErrorResponse'')"
      "documented_answer op 500 = Some (schema_ref ''ErrorResponse'')"
    using gpu_operation by (auto split: option.splits)
  have "as_documented swagger op (ErrorHandlerMiddleware now (fst (GetGPU G u now w)))"
    using op assms(2) answer_refused [OF assms(1)] conforms_gpu
    by (auto simp: GetGPU_def gpu_not_found_def ToGPUResponse_def status_defs render_def conforms_6
        intro!: answer_written split: prod.splits sum.splits if_splits)
  with op(1) show ?thesis by (simp add: gpu_parameters)
qed

lemma telemetry_answers:
  assumes "time_json now = Inr x"
  shows "case member_of doc_telemetry ''get'' of None \<Rightarrow> False | Some op \<Rightarrow>
     as_documented swagger op (ErrorHandlerMiddleware now (fst (GetGPUTelemetry T G r u now w)))
     \<and> (parameters_ok op r \<or> hr_StatusCode (ErrorHandlerMiddleware now (fst (GetGPUTelemetry T G r u now w))) = 400)"
proof -
  obtain op where op: "member_of doc_telemetry ''get'' = Some op"
      "documented_answer op 200 = Some (schema_ref ''TelemetryListResponse'')"
      "documented_answer op 400 = Some (schema_ref ''ErrorResponse'')"
      "documented_answer op 404 = Some (schema_ref ''ErrorResponse'')"
      "documented_answer op 500 = Some (schema_ref ''ErrorResponse'')"
    using telemetry_operation by (auto split: option.splits)
  obtain rep w' where rep: "GetGPUTelemetry T G r u now w = (rep, w')" by fastforce
  have "as_documented swagger op (ErrorHandlerMiddleware now rep)
    \<and> (parameters_ok op r \<or> hr_StatusCode (ErrorHandlerMiddleware now rep) = 400)"
  proof (cases rule: GetGPUTelemetry_replies [OF rep])
    case (1 e m)
    then show ?thesis using answer_refused [OF assms op(3)] by (simp add: status_defs)
  next
    case (2 f e m)
    then show ?thesis using answer_refused [OF assms op(4)] telemetry_parameters [OF op(1)] by (simp add: status_defs)
  next
    case (3 f e m)
    then show ?thesis using answer_refused [OF assms op(5)] telemetry_parameters [OF op(1)] by (simp add: status_defs)
  next
    case (4 f ts)
    then show ?thesis
      using telemetry_parameters [OF op(1) 4(1)] conforms_telemetry_list answer_render_error [OF assms] op(2,5)
      by (auto simp: render_def status_defs conforms_6 intro!: answer_written split: sum.splits)
  qed
  with op(1) show ?thesis by (simp add: rep)
qed

section \<open>The property\<close>

text \<open>C4. The documentation of the API is true: a request is documented exactly when it is for one of the operations
  under \<open>/api/v1\<close>; the answer to a documented request, whatever the repositories return, has a status the document
  lists for the operation and a body of the schema it gives for that status; and a query parameter outside the
  bounds of the document is refused.\<close>

theorem answers_are_documented:
  assumes "time_json now = Inr x" and "serve_api T G framework r now w = (resp, w')"
  shows "case documented_operation swagger r of
      None \<Rightarrow> find_route r = Health \<or> find_route r = Other
    | Some op \<Rightarrow> find_route r \<noteq> Health \<and> find_route r \<noteq> Other \<and> as_documented swagger op resp
        \<and> (parameters_ok op r \<or> hr_StatusCode resp = StatusBadRequest)"
proof (cases "find_route r")
  case Gpus
  then show ?thesis using assms(2) gpus_operation answer_refused [OF assms(1)] conforms_gpus [of 0]
    by (auto simp: documented_routes serve_api_def ListGPUs_def parameters_ok_def status_defs render_def conforms_6
        intro!: answer_written split: option.splits prod.splits sum.splits)
next
  case (GpuByUUID u)
  then have "u \<noteq> []" by (auto simp: find_route_def split: list.splits if_splits)
  with GpuByUUID assms(2) gpu_answer [OF assms(1), where u = u and G = G and w = w and r = r] show ?thesis
    by (auto simp: documented_routes serve_api_def apfst_def map_prod_def split: option.splits prod.splits)
next
  case (GpuTelemetry u)
  with assms(2) telemetry_answers [OF assms(1), of T G r u w] show ?thesis
    by (auto simp: documented_routes serve_api_def apfst_def map_prod_def status_defs split: option.splits prod.splits)
qed (simp_all add: documented_routes)

theorem answers_are_documented_witness:
  "let r = telemetry_request ''limit=10001'';
       resp = fst (serve_api (TelemetryRepository mem_mongo metrics_repo) (GPURepository mem_mongo gpus_repo)
                (\<lambda>r. http_Error ''404 page not found'' StatusNotFound) r zero_time api_world)
   in \<exists>op. documented_operation swagger r = Some op \<and> \<not> parameters_ok op r
      \<and> as_documented swagger op resp \<and> hr_StatusCode resp = StatusBadRequest"
proof -
  let ?r = "telemetry_request ''limit=10001''"
  have t: "case time_json zero_time of Inl e \<Rightarrow> False | Inr x \<Rightarrow> True" by code_simp
  then obtain x where x: "time_json zero_time = Inr x" by (simp split: sum.splits)
  have "case documented_operation swagger ?r of None \<Rightarrow> False | Some op \<Rightarrow> \<not> parameters_ok op ?r" by code_simp
  then show ?thesis
    using answers_are_documented [OF x prod.collapse [symmetric], of ?r "TelemetryRepository mem_mongo metrics_repo"
        "GPURepository mem_mongo gpus_repo" "\<lambda>r. http_Error ''404 page not found'' StatusNotFound" api_world]
    by (auto simp: Let_def split: option.splits)
qed

end
