(* ===== verification/ApiMocks.thy ===== *)
theory ApiMocks
  imports Api
begin

text \<open>
  The mock repositories of \<open>internal/api/handlers/handler_test_helpers.go\<close>: records of functions that a test may leave
  nil, each method with its answer for that case. Every repository is the behaviour of a mock, so what the tests can
  put in front of the handlers is what the theorems about the handlers quantify over.
\<close>

section \<open>The mocks\<close>

record 'w MockGPURepository =
  mg_ListFunc :: "('w \<Rightarrow> (error + GPU list) \<times> 'w) option"
  mg_GetByUUIDFunc :: "(string \<Rightarrow> 'w \<Rightarrow> (error + GPU) \<times> 'w) option"
  mg_StoreFunc :: "(GPU \<Rightarrow> 'w \<Rightarrow> error option \<times> 'w) option"
  mg_BulkStoreFunc :: "(GPU list \<Rightarrow> 'w \<Rightarrow> error option \<times> 'w) option"
  mg_CountFunc :: "('w \<Rightarrow> int \<times> 'w) option"

definition mock_List :: "'w MockGPURepository \<Rightarrow> 'w \<Rightarrow> (error + GPU list) \<times> 'w" where
  "mock_List m w = (case mg_ListFunc m of Some f \<Rightarrow> f w | None \<Rightarrow> (Inr [], w))"

definition mock_GetByUUID :: "'w MockGPURepository \<Rightarrow> string \<Rightarrow> 'w \<Rightarrow> (error + GPU) \<times> 'w" where
  "mock_GetByUUID m uuid w = (case mg_GetByUUIDFunc m of Some f \<Rightarrow> f uuid w | None \<Rightarrow> (Inl ErrGPUNotFound, w))"

definition mock_Store :: "'w MockGPURepository \<Rightarrow> GPU \<Rightarrow> 'w \<Rightarrow> error option \<times> 'w" where
  "mock_Store m gpu w = (case mg_StoreFunc m of Some f \<Rightarrow> f gpu w | None \<Rightarrow> (None, w))"

definition mock_BulkStore :: "'w MockGPURepository \<Rightarrow> GPU list \<Rightarrow> 'w \<Rightarrow> error option \<times> 'w" where
  "mock_BulkStore m gpus w = (case mg_BulkStoreFunc m of Some f \<Rightarrow> f gpus w | None \<Rightarrow> (None, w))"

definition mock_Count :: "'w MockGPURepository \<Rightarrow> 'w \<Rightarrow> int \<times> 'w" where
  "mock_Count m w = (case mg_CountFunc m of Some f \<Rightarrow> f w | None \<Rightarrow> (0, w))"

definition mock_gpus :: "'w MockGPURepository \<Rightarrow> 'w gpu_repo" where
  "mock_gpus m = \<lparr>gr_Store = mock_Store m, gr_BulkStore = mock_BulkStore m, gr_GetByUUID = mock_GetByUUID m,
     gr_List = mock_List m, gr_Count = mock_Count m\<rparr>"

record 'w MockTelemetryRepository =
  mt_GetByGPUFunc :: "(string \<Rightarrow> TimeFilter \<Rightarrow> 'w \<Rightarrow> (error + TelemetryPoint list) \<times> 'w) option"
  mt_StoreFunc :: "(TelemetryPoint \<Rightarrow> 'w \<Rightarrow> error option \<times> 'w) option"
  mt_BulkStoreFunc :: "(TelemetryPoint list \<Rightarrow> 'w \<Rightarrow> error option \<times> 'w) option"
  mt_CountFunc :: "('w \<Rightarrow> int \<times> 'w) option"

definition mock_GetByGPU :: "'w MockTelemetryRepository \<Rightarrow> string \<Rightarrow> TimeFilter \<Rightarrow> 'w \<Rightarrow> (error + TelemetryPoint list) \<times> 'w" where
  "mock_GetByGPU m gpuUUID f w = (case mt_GetByGPUFunc m of Some g \<Rightarrow> g gpuUUID f w | None \<Rightarrow> (Inr [], w))"

definition mock_telemetry_Store :: "'w MockTelemetryRepository \<Rightarrow> TelemetryPoint \<Rightarrow> 'w \<Rightarrow> error option \<times> 'w" where
  "mock_telemetry_Store m p w = (case mt_StoreFunc m of Some f \<Rightarrow> f p w | None \<Rightarrow> (None, w))"

definition mock_telemetry_BulkStore :: "'w MockTelemetryRepository \<Rightarrow> TelemetryPoint list \<Rightarrow> 'w \<Rightarrow> error option \<times> 'w" where
  "mock_telemetry_BulkStore m ps w = (case mt_BulkStoreFunc m of Some f \<Rightarrow> f ps w | None \<Rightarrow> (None, w))"

definition mock_telemetry_Count :: "'w MockTelemetryRepository \<Rightarrow> 'w \<Rightarrow> int \<times> 'w" where
  "mock_telemetry_Count m w = (case mt_CountFunc m of Some f \<Rightarrow> f w | None \<Rightarrow> (0, w))"

definition mock_telemetry :: "'w MockTelemetryRepository \<Rightarrow> 'w telemetry_repo" where
  "mock_telemetry m = \<lparr>tr_Store = mock_telemetry_Store m, tr_BulkStore = mock_telemetry_BulkStore m,
     tr_GetByGPU = mock_GetByGPU m, tr_Count = mock_telemetry_Count m\<rparr>"

lemmas mock_defs = mock_List_def mock_GetByUUID_def mock_Store_def mock_BulkStore_def mock_Count_def mock_gpus_def
  mock_GetByGPU_def mock_telemetry_Store_def mock_telemetry_BulkStore_def mock_telemetry_Count_def mock_telemetry_def

section \<open>Mocks and repositories\<close>

text \<open>The mock that does what a repository does.\<close>

definition gpu_mock :: "'w gpu_repo \<Rightarrow> 'w MockGPURepository" where
  "gpu_mock G = \<lparr>mg_ListFunc = Some (gr_List G), mg_GetByUUIDFunc = Some (gr_GetByUUID G), mg_StoreFunc = Some (gr_Store G),
     mg_BulkStoreFunc = Some (gr_BulkStore G), mg_CountFunc = Some (gr_Count G)\<rparr>"

definition telemetry_mock :: "'w telemetry_repo \<Rightarrow> 'w MockTelemetryRepository" where
  "telemetry_mock T = \<lparr>mt_GetByGPUFunc = Some (tr_GetByGPU T), mt_StoreFunc = Some (tr_Store T),
     mt_BulkStoreFunc = Some (tr_BulkStore T), mt_CountFunc = Some (tr_Count T)\<rparr>"

lemma mocks_are_repositories: "mock_gpus (gpu_mock G) = G" "mock_telemetry (telemetry_mock T) = T"
  by (cases G; cases T; simp add: mock_defs gpu_mock_def telemetry_mock_def fun_eq_iff)+

text \<open>A mock that sets nothing has no GPU: the telemetry of any is not found.\<close>

lemma empty_mocks:
  assumes "mg_GetByUUIDFunc m = None" and "uuid \<noteq> []" and "uuidRegex uuid" and "parse_filter r = Inr f"
  shows "GetGPUTelemetry T (mock_gpus m) r uuid now w = (gpu_not_found uuid now, w)"
  using assms by (simp add: GetGPUTelemetry_def mock_defs)

end
